(* ===== verification/Prelude.thy ===== *)
theory Prelude
  imports Main "HOL-Library.Word" "HOL-Library.While_Combinator"
begin

text \<open>
  Shared vocabulary of the development: machine types, the result type every fallible
  operation of the model returns, characters against bytes, and the generic lemmas on lists
  and words the component theories use.

  \<^item> \<open>size_t\<close> is a 64-bit word, as on the platforms the project is built for;
  \<^item> an operation that can fail returns a \<open>'a result\<close>: \<open>Inl\<close> with the reason or
    \<open>Inr\<close> with the value. The reason is a C++ exception that is thrown, the fact that the
    call does not return (a loop without end), or undefined behaviour (a null pointer that is
    dereferenced, \<open>front()\<close> of an empty container);
  \<^item> the C++ exceptions are the project's own \<open>mprpc::exception\<close> with its error
    information, those of msgpack-c the code meets, \<open>std::bad_alloc\<close>,
    \<open>std::out_of_range\<close>, and any other \<open>std::exception\<close> with its \<open>what()\<close> text.
\<close>

type_synonym byte = "8 word"
type_synonym bytes = "byte list"
type_synonym u16 = "16 word"
type_synonym u32 = "32 word"
type_synonym u64 = "64 word"
type_synonym size_t = "64 word"

named_theorems result_simps \<open>unfolding of the result combinators\<close>
named_theorems load_store \<open>loads of stored integers\<close>
named_theorems wf_intros \<open>operations preserve the well-formedness of their component\<close>

section \<open>Message data and error information\<close>

text \<open>
  A \<open>message_data\<close> object as its users see it: no data at all (\<open>None\<close>, the default
  constructed object) or a byte sequence. The reference counted representation behind it is
  the subject of theory \<open>Shared_Binary\<close>, which shows that this view is sound.
\<close>

type_synonym message_data = "bytes option"

record error_inner =
  ei_code :: u32
  ei_message :: string
  ei_data :: "message_data option"

type_synonym error_info = "error_inner option"

datatype exn =
    Mprpc_Exception error_info
  | Msgpack_Parse_Error
  | Msgpack_Insufficient_Bytes
  | Msgpack_Size_Overflow string
  | Msgpack_Type_Error
  | Msgpack_Container_Size_Overflow
  | Bad_Alloc
  | Out_Of_Range
  | Std_Exception string

datatype failure = Throw exn | Diverges | Undefined

type_synonym 'a result = "failure + 'a"

definition bindR :: "'a result \<Rightarrow> ('a \<Rightarrow> 'b result) \<Rightarrow> 'b result" where
  "bindR m f = (case m of Inl e \<Rightarrow> Inl e | Inr a \<Rightarrow> f a)"

lemma bindR_simps [simp, result_simps]:
  "bindR (Inl e) f = Inl e"
  "bindR (Inr a) f = f a"
  by (simp_all add: bindR_def)

lemma bindR_eq_Inr: "bindR m f = Inr b \<longleftrightarrow> (\<exists>a. m = Inr a \<and> f a = Inr b)"
  by (cases m) simp_all

lemma bindR_eq_Inl: "bindR m f = Inl e \<longleftrightarrow> m = Inl e \<or> (\<exists>a. m = Inr a \<and> f a = Inl e)"
  by (cases m) auto

lemma bindR_assoc: "bindR (bindR m f) g = bindR m (\<lambda>x. bindR (f x) g)"
  by (cases m) simp_all

text \<open>The dereference of a possibly null pointer.\<close>

definition deref :: "'a option \<Rightarrow> 'a result" where
  "deref p = (case p of None \<Rightarrow> Inl Undefined | Some a \<Rightarrow> Inr a)"

lemma deref_simps [simp, result_simps]: "deref None = Inl Undefined" "deref (Some a) = Inr a"
  by (simp_all add: deref_def)

section \<open>Characters and bytes\<close>

definition byte_char :: "byte \<Rightarrow> char" where
  "byte_char b = char_of (unat b)"

definition char_byte :: "char \<Rightarrow> byte" where
  "char_byte c = of_nat (of_char c)"

lemma byte_char_inverse [simp]: "char_byte (byte_char b) = b"
proof -
  have "unat b < 256" using unsigned_less [of b, where ?'a = nat] by simp
  then show ?thesis by (simp add: byte_char_def char_byte_def)
qed

lemma char_byte_inverse [simp]: "byte_char (char_byte c) = c"
proof -
  have "unat (of_nat (of_char c) :: byte) = of_char c"
    by (simp add: unat_of_nat)
  then show ?thesis by (simp add: byte_char_def char_byte_def)
qed

abbreviation string_bytes :: "string \<Rightarrow> bytes" where
  "string_bytes s \<equiv> map char_byte s"

abbreviation bytes_string :: "bytes \<Rightarrow> string" where
  "bytes_string bs \<equiv> map byte_char bs"

lemma byte_char_comp [simp]: "byte_char \<circ> char_byte = id" "char_byte \<circ> byte_char = id"
  by (simp_all add: fun_eq_iff)

lemma bytes_string_inverse [simp]: "bytes_string (string_bytes s) = s"
  by (induction s) simp_all

lemma string_bytes_inverse [simp]: "string_bytes (bytes_string bs) = bs"
  by (induction bs) simp_all

lemma ex_bool [simp]: "\<exists>b. b" "\<exists>b. \<not> b"
  by auto

section \<open>Lists\<close>

lemma drop_eq_append_nth:
  "drop n xs = ys @ zs \<Longrightarrow> i < length ys \<Longrightarrow> xs ! (n + i) = ys ! i"
  by (metis drop_all append_is_Nil_conv less_zeroE list.size(3) nat_le_linear nth_append nth_drop)

lemma drop_eq_append_drop: "drop n xs = ys @ zs \<Longrightarrow> drop (n + length ys) xs = zs"
  by (metis add.commute append_eq_conv_conj drop_drop)

lemma drop_eq_append_take: "drop n xs = ys @ zs \<Longrightarrow> take (length ys) (drop n xs) = ys"
  by simp

lemma drop_eq_append_length:
  "drop n xs = ys @ zs \<Longrightarrow> n \<le> length xs \<Longrightarrow> length xs = n + length ys + length zs"
  by (metis add.assoc append_take_drop_id length_append length_take min.absorb2)

text \<open>The digits of a number, as \<open>std::to_string\<close> and fmt write them.\<close>

fun decimal :: "nat \<Rightarrow> string" where
  "decimal n = (if n < 10 then [char_of (48 + n)] else decimal (n div 10) @ [char_of (48 + n mod 10)])"

declare decimal.simps [simp del]

section \<open>Sequences of operations and their specification\<close>

text \<open>
  A program that calls the operations of a component one after the other, and the same program on
  the component's specification, where an operation that is not allowed has no result.
\<close>

fun run_ops :: "('op \<Rightarrow> 's \<Rightarrow> 's result) \<Rightarrow> 'op list \<Rightarrow> 's \<Rightarrow> 's result" where
  "run_ops step [] s = Inr s"
| "run_ops step (x # xs) s = bindR (step x s) (run_ops step xs)"

fun spec_ops :: "('op \<Rightarrow> 'a \<Rightarrow> 'a option) \<Rightarrow> 'op list \<Rightarrow> 'a \<Rightarrow> 'a option" where
  "spec_ops spec [] m = Some m"
| "spec_ops spec (x # xs) m = Option.bind (spec x m) (spec_ops spec xs)"

text \<open>
  A component that implements a specification: under an invariant, and as long as its state is
  smaller than a bound, an allowed operation succeeds, keeps the invariant, has the specified
  effect and grows the state by one at most.
\<close>

locale implementation =
  fixes step :: "'op \<Rightarrow> 's \<Rightarrow> 's result"
    and spec :: "'op \<Rightarrow> 'a \<Rightarrow> 'a option"
    and inv :: "'s \<Rightarrow> bool"
    and abs :: "'s \<Rightarrow> 'a"
    and weight :: "'s \<Rightarrow> nat"
    and bound :: nat
  assumes step_ok:
    "inv s \<Longrightarrow> weight s < bound \<Longrightarrow> spec x (abs s) = Some m \<Longrightarrow>
     \<exists>s'. step x s = Inr s' \<and> inv s' \<and> abs s' = m \<and> weight s' \<le> weight s + 1"
begin

lemma run_ok:
  "inv s \<Longrightarrow> weight s + length xs \<le> bound \<Longrightarrow> spec_ops spec xs (abs s) = Some m \<Longrightarrow>
   \<exists>s'. run_ops step xs s = Inr s' \<and> inv s' \<and> abs s' = m \<and> weight s' \<le> weight s + length xs"
proof (induction xs arbitrary: s)
  case Nil
  then show ?case by simp
next
  case (Cons x xs)
  from Cons.prems(3) obtain m1 where m1: "spec x (abs s) = Some m1" "spec_ops spec xs m1 = Some m"
    by (auto simp: bind_eq_Some_conv)
  obtain s1 where s1: "step x s = Inr s1" "inv s1" "abs s1 = m1" "weight s1 \<le> weight s + 1"
    using step_ok [OF Cons.prems(1) _ m1(1)] Cons.prems(2) by auto
  from Cons.IH [OF s1(2)] s1 m1(2) Cons.prems(2) show ?case by fastforce
qed

end

section \<open>Sequences of events\<close>

text \<open>
  A component that reacts to events: \<open>next\<close> is one event, \<open>None\<close> when the event cannot happen. A trace is
  a sequence of events with the state it leads to; \<open>run_events\<close> computes it.
\<close>

inductive trace :: "('s \<Rightarrow> 'e \<Rightarrow> 's option) \<Rightarrow> 's \<Rightarrow> 'e list \<Rightarrow> 's \<Rightarrow> bool" for "next" s where
  trace_start: "trace next s [] s"
| trace_event: "trace next s evs s' \<Longrightarrow> next s' ev = Some s'' \<Longrightarrow> trace next s (evs @ [ev]) s''"

fun run_events :: "('s \<Rightarrow> 'e \<Rightarrow> 's option) \<Rightarrow> 's \<Rightarrow> 'e list \<Rightarrow> 's option" where
  "run_events next s [] = Some s"
| "run_events next s (ev # evs) = Option.bind (next s ev) (\<lambda>s'. run_events next s' evs)"

lemma trace_append: "trace next s' evs' s'' \<Longrightarrow> trace next s evs s' \<Longrightarrow> trace next s (evs @ evs') s''"
proof (induction rule: trace.induct)
  case trace_start
  then show ?case by simp
next
  case (trace_event evs1 s1 ev s2)
  then have "trace next s ((evs @ evs1) @ [ev]) s2" by (blast intro: trace.trace_event)
  then show ?case by simp
qed

lemma trace_Cons: "next s ev = Some s' \<Longrightarrow> trace next s' evs s'' \<Longrightarrow> trace next s (ev # evs) s''"
  using trace_append [of "next" s' evs s'' s "[ev]"] trace.trace_event [OF trace.trace_start, of "next" s ev s']
  by simp

lemma run_events_trace: "run_events next s evs = Some s' \<Longrightarrow> trace next s evs s'"
  by (induction evs arbitrary: s) (auto simp: bind_eq_Some_conv intro: trace.trace_start trace_Cons)

end
