(* ===== verification/Errors.thy ===== *)
theory Errors
  imports Prelude
begin

text \<open>
  Error codes, \<open>error_info\<close>, \<open>exception\<close> and \<open>require_nonull\<close>
  (\<^verbatim>\<open>include/mprpc/error_code.h\<close>, \<^verbatim>\<open>error_info.h\<close>,
  \<^verbatim>\<open>exception.h\<close>, \<^verbatim>\<open>require_nonull.h\<close>).
  The enumerations of \<^verbatim>\<open>error_code.h\<close> are one datatype with the number each
  enumerator has; an \<open>error_info\<close> stores the number.
\<close>

section \<open>Error codes\<close>

datatype error_code =
    success | unexpected_error | unexpected_nullptr
  | parse_error | invalid_message
  | eof | failed_to_listen | failed_to_accept | failed_to_resolve | failed_to_connect
  | failed_to_read | failed_to_write
  | method_not_found
  | invalid_future_use
  | invalid_config_value | config_parse_error
  | timeout

fun error_code_value :: "error_code \<Rightarrow> u32" where
  "error_code_value success = 0"
| "error_code_value unexpected_error = 1"
| "error_code_value unexpected_nullptr = 2"
| "error_code_value parse_error = 100"
| "error_code_value invalid_message = 101"
| "error_code_value eof = 200"
| "error_code_value failed_to_listen = 201"
| "error_code_value failed_to_accept = 202"
| "error_code_value failed_to_resolve = 203"
| "error_code_value failed_to_connect = 204"
| "error_code_value failed_to_read = 205"
| "error_code_value failed_to_write = 206"
| "error_code_value method_not_found = 300"
| "error_code_value invalid_future_use = 400"
| "error_code_value invalid_config_value = 500"
| "error_code_value config_parse_error = 501"
| "error_code_value timeout = 600"

lemma error_code_value_inject [simp]: "error_code_value a = error_code_value b \<longleftrightarrow> a = b"
  by (cases a; cases b) simp_all

section \<open>Error information\<close>

definition no_error :: error_info where
  "no_error = None"

definition make_error :: "error_code \<Rightarrow> string \<Rightarrow> error_info" where
  "make_error c msg = Some \<lparr>ei_code = error_code_value c, ei_message = msg, ei_data = None\<rparr>"

definition make_error_data :: "error_code \<Rightarrow> string \<Rightarrow> message_data \<Rightarrow> error_info" where
  "make_error_data c msg d =
     Some \<lparr>ei_code = error_code_value c, ei_message = msg, ei_data = Some d\<rparr>"

definition has_error :: "error_info \<Rightarrow> bool" where
  "has_error e \<longleftrightarrow> e \<noteq> None"

definition error_info_code :: "error_info \<Rightarrow> u32" where
  "error_info_code e = (case e of Some i \<Rightarrow> ei_code i | None \<Rightarrow> error_code_value success)"

definition error_info_message :: "error_info \<Rightarrow> string" where
  "error_info_message e = (case e of Some i \<Rightarrow> ei_message i | None \<Rightarrow> [])"

definition error_info_has_data :: "error_info \<Rightarrow> bool" where
  "error_info_has_data e = (case e of Some i \<Rightarrow> ei_data i \<noteq> None | None \<Rightarrow> False)"

definition error_info_data :: "error_info \<Rightarrow> message_data" where
  "error_info_data e =
     (case e of Some i \<Rightarrow> (case ei_data i of Some d \<Rightarrow> d | None \<Rightarrow> None) | None \<Rightarrow> None)"

lemmas error_info_defs =
  no_error_def make_error_def make_error_data_def has_error_def error_info_code_def
  error_info_message_def error_info_has_data_def error_info_data_def

lemma has_error_simps [simp]:
  "\<not> has_error no_error" "has_error (make_error c m)" "has_error (make_error_data c m d)"
  by (simp_all add: error_info_defs)

lemma error_info_code_simps [simp]:
  "error_info_code no_error = error_code_value success"
  "error_info_code (make_error c m) = error_code_value c"
  "error_info_code (make_error_data c m d) = error_code_value c"
  by (simp_all add: error_info_defs)

text \<open>An exception carries error information; \<open>throw_error\<close> is \<open>throw exception(...)\<close>.\<close>

definition throw_error :: "error_info \<Rightarrow> 'a result" where
  "throw_error e = Inl (Throw (Mprpc_Exception e))"

fun exn_what :: "exn \<Rightarrow> string" where
  "exn_what (Mprpc_Exception e) = error_info_message e"
| "exn_what Msgpack_Parse_Error = ''parse error''"
| "exn_what Msgpack_Insufficient_Bytes = ''insufficient bytes''"
| "exn_what (Msgpack_Size_Overflow s) = s"
| "exn_what Msgpack_Type_Error = ''std::bad_cast''"
| "exn_what Msgpack_Container_Size_Overflow = ''container size overflow''"
| "exn_what Bad_Alloc = ''std::bad_alloc''"
| "exn_what Out_Of_Range = ''_Map_base::at''"
| "exn_what (Std_Exception s) = s"

section \<open>require_nonull\<close>

text \<open>
  A pointer is an option, \<open>None\<close> the null pointer. The macros pass the text of the pointer
  expression and the compiler's name of the enclosing function.
\<close>

definition require_nonull ::
    "'a option \<Rightarrow> string option \<Rightarrow> string option \<Rightarrow> 'a result" where
  "require_nonull ptr name loc =
     (case name of
        None \<Rightarrow> throw_error (make_error unexpected_nullptr
          ''unexpected null pointer for name at mprpc::require_nonull'')
      | Some n \<Rightarrow>
        (case loc of
           None \<Rightarrow> throw_error (make_error unexpected_nullptr
             ''unexpected null pointer for where at mprpc::require_nonull'')
         | Some w \<Rightarrow>
           (case ptr of
              None \<Rightarrow> throw_error (make_error unexpected_nullptr
                (''unexpected null pointer for '' @ n @ '' at '' @ w))
            | Some p \<Rightarrow> Inr p)))"

lemma require_nonull_simps [simp]:
  "require_nonull (Some p) (Some n) (Some w) = Inr p"
  "require_nonull None (Some n) (Some w) =
     throw_error (make_error unexpected_nullptr
       (''unexpected null pointer for '' @ n @ '' at '' @ w))"
  by (simp_all add: require_nonull_def)

end
