(* ===== verification/Buffer.thy ===== *)
theory Buffer
  imports Errors
begin

text \<open>
  The growing byte buffer of \<^verbatim>\<open>include/mprpc/buffer.h\<close>.

  \<open>buf_data\<close> is the allocated memory block, so its length is the capacity; the first
  \<open>buf_size\<close> bytes are the contents. Sizes are 64-bit words. The C allocator is the argument
  \<open>malloc\<close>: it answers a request with a block of that many (indeterminate) bytes or with the
  null pointer. \<open>realloc\<close> is the standard library's: a block from the allocator that starts
  with the old bytes.
\<close>

section \<open>Model\<close>

type_synonym allocator = "size_t \<Rightarrow> bytes option"

definition malloc_ok :: "allocator \<Rightarrow> bool" where
  "malloc_ok malloc \<longleftrightarrow> (\<forall>n b. malloc n = Some b \<longrightarrow> length b = unat n)"

record buffer =
  buf_data :: bytes
  buf_size :: size_t
  buf_capacity :: size_t

definition max_size :: size_t where
  "max_size = - 1"

text \<open>The loop that doubles the capacity does not return when it starts from 0.\<close>

definition calculate_next_capacity :: "size_t \<Rightarrow> size_t \<Rightarrow> size_t result" where
  "calculate_next_capacity current_capacity required_size =
     (if required_size > max_size div 2 then Inr required_size
      else
        (case while_option (\<lambda>capacity. capacity < required_size) (\<lambda>capacity. capacity * 2)
                current_capacity of
           None \<Rightarrow> Inl Diverges
         | Some capacity \<Rightarrow> Inr capacity))"

definition allocate :: "allocator \<Rightarrow> size_t \<Rightarrow> bytes result" where
  "allocate malloc sz =
     (case malloc sz of None \<Rightarrow> Inl (Throw Bad_Alloc) | Some ptr \<Rightarrow> Inr ptr)"

definition realloc :: "allocator \<Rightarrow> bytes \<Rightarrow> size_t \<Rightarrow> bytes option" where
  "realloc malloc ptr sz =
     map_option (\<lambda>fresh. take (length fresh) ptr @ drop (length ptr) fresh) (malloc sz)"

definition reallocate :: "allocator \<Rightarrow> bytes \<Rightarrow> size_t \<Rightarrow> bytes result" where
  "reallocate malloc ptr sz =
     (case realloc malloc ptr sz of
        None \<Rightarrow> Inl (Throw Bad_Alloc)
      | Some new_ptr \<Rightarrow> Inr new_ptr)"

definition buffer_size :: "allocator \<Rightarrow> size_t \<Rightarrow> buffer result" where
  "buffer_size malloc sz =
     bindR (calculate_next_capacity 1024 sz) (\<lambda>capacity.
     bindR (allocate malloc capacity) (\<lambda>data.
     Inr \<lparr>buf_data = data, buf_size = sz, buf_capacity = capacity\<rparr>))"

definition buffer_empty :: "allocator \<Rightarrow> buffer result" where
  "buffer_empty malloc = buffer_size malloc 0"

text \<open>
  Construction from \<open>size\<close> bytes at \<open>data\<close>; \<open>data\<close> is the memory the pointer refers to, and
  reading more of it than there is is undefined.
\<close>

definition buffer_copy ::
    "allocator \<Rightarrow> string \<Rightarrow> bytes option \<Rightarrow> size_t \<Rightarrow> buffer result" where
  "buffer_copy malloc fn data sz =
     bindR (buffer_size malloc sz) (\<lambda>b.
     bindR (require_nonull data (Some ''data'') (Some fn)) (\<lambda>d.
     if length d < unat sz then Inl Undefined
     else Inr (b\<lparr>buf_data := take (unat sz) d @ drop (unat sz) (buf_data b)\<rparr>)))"

definition buffer_resize :: "allocator \<Rightarrow> buffer \<Rightarrow> size_t \<Rightarrow> buffer result" where
  "buffer_resize malloc b sz =
     (if sz \<le> buf_capacity b then Inr (b\<lparr>buf_size := sz\<rparr>)
      else
        bindR (calculate_next_capacity (buf_capacity b) sz) (\<lambda>capacity.
        bindR (reallocate malloc (buf_data b) capacity) (\<lambda>data.
        Inr \<lparr>buf_data = data, buf_size = sz, buf_capacity = capacity\<rparr>)))"

definition buffer_reserve :: "allocator \<Rightarrow> buffer \<Rightarrow> size_t \<Rightarrow> buffer result" where
  "buffer_reserve malloc b sz =
     (if sz \<le> buf_capacity b then Inr b
      else
        bindR (calculate_next_capacity (buf_capacity b) sz) (\<lambda>capacity.
        bindR (reallocate malloc (buf_data b) capacity) (\<lambda>data.
        Inr (b\<lparr>buf_data := data, buf_capacity := capacity\<rparr>))))"

definition buffer_consume :: "buffer \<Rightarrow> size_t \<Rightarrow> buffer" where
  "buffer_consume b sz =
     (if sz \<ge> buf_size b then b\<lparr>buf_size := 0\<rparr>
      else
        let moved_size = buf_size b - sz in
        b\<lparr>buf_data := take (unat moved_size) (drop (unat sz) (buf_data b)) @
                       drop (unat moved_size) (buf_data b),
          buf_size := moved_size\<rparr>)"

text \<open>The bytes a user of the buffer sees, and a write of bytes through \<open>data() + pos\<close>.\<close>

definition buffer_contents :: "buffer \<Rightarrow> bytes" where
  "buffer_contents b = take (unat (buf_size b)) (buf_data b)"

definition buffer_write :: "buffer \<Rightarrow> nat \<Rightarrow> bytes \<Rightarrow> buffer" where
  "buffer_write b pos bs =
     b\<lparr>buf_data := take pos (buf_data b) @ bs @ drop (pos + length bs) (buf_data b)\<rparr>"

definition wf_buffer :: "buffer \<Rightarrow> bool" where
  "wf_buffer b \<longleftrightarrow>
     length (buf_data b) = unat (buf_capacity b) \<and> buf_size b \<le> buf_capacity b \<and>
     1024 \<le> buf_capacity b"

section \<open>The capacity computation\<close>

lemma unat_max_size_div_2: "unat (max_size div 2) = 2 ^ 63 - 1"
  by (simp add: max_size_def unat_div)

lemma double_below_half:
  fixes c r :: size_t
  assumes "c < r" and "\<not> r > max_size div 2"
  shows "unat (c * 2) = unat c * 2"
proof -
  have "unat r \<le> 2 ^ 63 - 1"
    using assms(2) unat_max_size_div_2 by (simp add: not_less word_le_nat_alt)
  moreover have "unat c < unat r" using assms(1) by (simp add: word_less_nat_alt)
  ultimately have "unat c * 2 < 2 ^ 64" by simp
  then show ?thesis by (simp add: unat_mult_lem [symmetric] unat_word_ariths)
qed

lemma capacity_loop_terminates:
  fixes c r :: size_t
  assumes "c \<noteq> 0" and "\<not> r > max_size div 2"
  shows "\<exists>d. while_option (\<lambda>c. c < r) (\<lambda>c. c * 2) c = Some d"
proof (rule measure_while_option_Some [where P = "\<lambda>c. c \<noteq> 0" and f = "\<lambda>c. unat r - unat c"])
  show "c \<noteq> 0" by (fact assms(1))
next
  fix s :: size_t
  assume s: "s \<noteq> 0" "s < r"
  have "unat (s * 2) = unat s * 2" using double_below_half [OF s(2) assms(2)] .
  moreover have "0 < unat s" using s(1) by (simp add: unat_gt_0)
  moreover have "unat s < unat r" using s(2) by (simp add: word_less_nat_alt)
  ultimately have "unat (s * 2) \<noteq> 0" and "unat r - unat (s * 2) < unat r - unat s"
    by linarith+
  then show "s * 2 \<noteq> 0 \<and> unat r - unat (s * 2) < unat r - unat s"
    by (metis unat_0)
qed

lemma capacity_loop_result:
  fixes c r :: size_t
  assumes "\<not> r > max_size div 2"
    and "while_option (\<lambda>c. c < r) (\<lambda>c. c * 2) c = Some d"
  shows "r \<le> d \<and> c \<le> d \<and> (d = c \<or> unat d < 2 * unat r)"
proof -
  have stop: "\<not> d < r" using while_option_stop [OF assms(2)] .
  have "c \<le> d \<and> (d = c \<or> unat d < 2 * unat r)"
  proof (rule while_option_rule [OF _ assms(2), where P = "\<lambda>d. c \<le> d \<and> (d = c \<or> unat d < 2 * unat r)"])
    fix s :: size_t
    assume s: "c \<le> s \<and> (s = c \<or> unat s < 2 * unat r)" "s < r"
    have "unat (s * 2) = unat s * 2" using double_below_half [OF s(2) assms(1)] .
    then show "c \<le> s * 2 \<and> (s * 2 = c \<or> unat (s * 2) < 2 * unat r)"
      using s by (simp add: word_le_nat_alt word_less_nat_alt)
  qed simp
  with stop show ?thesis by (simp add: not_less)
qed

lemma calculate_next_capacity_ok:
  assumes "current \<noteq> 0"
  obtains c where "calculate_next_capacity current required = Inr c"
    and "required \<le> c" and "current \<le> c \<or> required > max_size div 2"
    and "c = current \<or> c = required \<or> unat c < 2 * unat required"
proof (cases "required > max_size div 2")
  case True
  with that [of required] show ?thesis by (simp add: calculate_next_capacity_def)
next
  case False
  from capacity_loop_terminates [OF assms False] obtain d
    where d: "while_option (\<lambda>c. c < required) (\<lambda>c. c * 2) current = Some d" by blast
  with capacity_loop_result [OF False d] that [of d] False show ?thesis
    by (auto simp: calculate_next_capacity_def)
qed

section \<open>The invariant and the contents\<close>

lemma malloc_ok_length: "malloc_ok m \<Longrightarrow> m n = Some b \<Longrightarrow> length b = unat n"
  by (simp add: malloc_ok_def)

lemma realloc_prefix:
  assumes "malloc_ok m" and "realloc m p n = Some q" and "length p \<le> unat n"
  shows "length q = unat n \<and> take (length p) q = p"
  using assms by (auto simp: realloc_def dest: malloc_ok_length)

lemma buffer_size_ok:
  assumes "malloc_ok m" and "buffer_size m n = Inr b"
  shows "wf_buffer b \<and> buf_size b = n"
proof -
  obtain c where c: "calculate_next_capacity 1024 n = Inr c" "n \<le> c"
    "1024 \<le> c \<or> n > max_size div 2"
    by (rule calculate_next_capacity_ok [of 1024 n]) simp_all
  have "1024 \<le> c"
    using c(2,3) unat_max_size_div_2 by (auto simp: word_less_nat_alt word_le_nat_alt)
  with c(1,2) assms show ?thesis
    by (auto simp: buffer_size_def allocate_def wf_buffer_def dest: malloc_ok_length
        split: option.splits)
qed

lemma buffer_resize_grow:
  assumes m: "malloc_ok m" and wf: "wf_buffer b" and big: "\<not> n \<le> buf_capacity b"
    and c: "calculate_next_capacity (buf_capacity b) n = Inr c" "n \<le> c"
    and q: "realloc m (buf_data b) c = Some q"
  shows "length q = unat c \<and> take (length (buf_data b)) q = buf_data b \<and> 1024 \<le> c \<and> buf_size b \<le> c"
proof -
  have le: "buf_capacity b \<le> c" using big c(2) by simp
  then have "length (buf_data b) \<le> unat c"
    using wf by (simp add: wf_buffer_def word_le_nat_alt)
  with realloc_prefix [OF m q] le wf show ?thesis
    by (auto simp: wf_buffer_def)
qed

lemma wf_buffer_nonzero: "wf_buffer b \<Longrightarrow> buf_capacity b \<noteq> 0"
  by (auto simp: wf_buffer_def)

lemma buffer_resize_ok:
  assumes m: "malloc_ok m" and wf: "wf_buffer b" and r: "buffer_resize m b n = Inr b'"
  shows "wf_buffer b' \<and> buf_size b' = n \<and>
    take (length (buf_data b)) (buf_data b') = buf_data b"
proof (cases "n \<le> buf_capacity b")
  case True
  with wf r show ?thesis by (auto simp: buffer_resize_def wf_buffer_def)
next
  case False
  obtain c where c: "calculate_next_capacity (buf_capacity b) n = Inr c" "n \<le> c"
    by (rule calculate_next_capacity_ok [OF wf_buffer_nonzero [OF wf]])
  from r False c(1) obtain q where q: "realloc m (buf_data b) c = Some q"
    and b': "b' = \<lparr>buf_data = q, buf_size = n, buf_capacity = c\<rparr>"
    by (auto simp: buffer_resize_def reallocate_def bindR_eq_Inr split: option.splits)
  from buffer_resize_grow [OF m wf False c q] b' c(2) show ?thesis
    by (auto simp: wf_buffer_def)
qed

lemma buffer_reserve_ok:
  assumes m: "malloc_ok m" and wf: "wf_buffer b" and r: "buffer_reserve m b n = Inr b'"
  shows "wf_buffer b' \<and> n \<le> buf_capacity b' \<and> buffer_contents b' = buffer_contents b"
proof (cases "n \<le> buf_capacity b")
  case True
  with wf r show ?thesis by (auto simp: buffer_reserve_def)
next
  case False
  obtain c where c: "calculate_next_capacity (buf_capacity b) n = Inr c" "n \<le> c"
    by (rule calculate_next_capacity_ok [OF wf_buffer_nonzero [OF wf]])
  from r False c(1) obtain q where q: "realloc m (buf_data b) c = Some q"
    and b': "b' = b\<lparr>buf_data := q, buf_capacity := c\<rparr>"
    by (auto simp: buffer_reserve_def reallocate_def bindR_eq_Inr split: option.splits)
  note g = buffer_resize_grow [OF m wf False c q]
  have "unat (buf_size b) \<le> length (buf_data b)"
    using wf by (simp add: wf_buffer_def word_le_nat_alt)
  then have "take (unat (buf_size b)) q = take (unat (buf_size b)) (buf_data b)"
    using g by (metis min.absorb1 take_take)
  with g b' c(2) show ?thesis
    by (auto simp: wf_buffer_def buffer_contents_def)
qed

lemma buffer_resize_returns:
  assumes "wf_buffer b"
  shows "buffer_resize m b n \<noteq> Inl Diverges \<and> buffer_resize m b n \<noteq> Inl Undefined"
proof (rule calculate_next_capacity_ok [OF wf_buffer_nonzero [OF assms], of n])
  fix c
  assume "calculate_next_capacity (buf_capacity b) n = Inr c"
  then show ?thesis by (auto simp: buffer_resize_def reallocate_def split: option.splits)
qed

lemma buffer_resize_contents:
  assumes "malloc_ok m" and wf: "wf_buffer b" and "buffer_resize m b n = Inr b'"
  shows "buffer_contents b' =
    take (unat n) (buf_data b) @ drop (length (buf_data b)) (buffer_contents b')"
proof -
  have b': "buf_size b' = n" "take (length (buf_data b)) (buf_data b') = buf_data b"
    using buffer_resize_ok [OF assms] by auto
  have "take (length (buf_data b)) (buffer_contents b') = take (unat n) (buf_data b)"
    using b' by (metis buffer_contents_def take_take min.commute)
  then show ?thesis by (metis append_take_drop_id)
qed

lemma buffer_consume_ok:
  assumes "wf_buffer b"
  shows "wf_buffer (buffer_consume b n)"
    and "buffer_contents (buffer_consume b n) = drop (unat n) (buffer_contents b)"
    and "buf_capacity (buffer_consume b n) = buf_capacity b"
proof -
  have len: "unat (buf_size b) \<le> length (buf_data b)"
    using assms by (simp add: wf_buffer_def word_le_nat_alt)
  have 1: "unat (buf_size b - n) = unat (buf_size b) - unat n" if "n < buf_size b"
    using that by (simp add: unat_sub word_less_nat_alt word_le_nat_alt)
  have 2: "buf_size b - n \<le> buf_capacity b" if "n < buf_size b"
    using that 1 [OF that] assms by (auto simp: wf_buffer_def word_le_nat_alt)
  show "wf_buffer (buffer_consume b n)"
    using assms 1 2 len
    by (auto simp: buffer_consume_def wf_buffer_def Let_def not_le word_less_nat_alt)
  show "buffer_contents (buffer_consume b n) = drop (unat n) (buffer_contents b)"
    using 1 len
    by (auto simp: buffer_consume_def buffer_contents_def Let_def not_le word_le_nat_alt
        word_less_nat_alt drop_take take_append)
  show "buf_capacity (buffer_consume b n) = buf_capacity b"
    by (simp add: buffer_consume_def Let_def)
qed

lemma buffer_consume_take:
  assumes wf: "wf_buffer b" and le: "n \<le> c" "c \<le> buf_size b"
  shows "c - n \<le> buf_size (buffer_consume b n)"
    and "take (unat (c - n)) (buf_data (buffer_consume b n)) =
      drop (unat n) (take (unat c) (buf_data b))"
proof -
  have le': "unat n \<le> unat c" "unat c \<le> unat (buf_size b)" using le by (simp_all add: word_le_nat_alt)
  have diff: "unat (c - n) = unat c - unat n" using le(1) by (simp add: unat_sub)
  have sz: "unat (buf_size (buffer_consume b n)) = unat (buf_size b) - unat n"
    by (auto simp: buffer_consume_def Let_def word_le_nat_alt unat_sub)
  show "c - n \<le> buf_size (buffer_consume b n)" using le' by (simp add: word_le_nat_alt diff sz)
  have "take (unat (c - n)) (buf_data (buffer_consume b n)) =
    take (unat c - unat n) (buffer_contents (buffer_consume b n))"
    using le' by (simp add: buffer_contents_def sz diff min_def)
  then show "take (unat (c - n)) (buf_data (buffer_consume b n)) =
      drop (unat n) (take (unat c) (buf_data b))"
    unfolding buffer_consume_ok(2) [OF wf] using le' by (simp add: buffer_contents_def take_drop min_def)
qed

lemma buffer_write_ok:
  assumes "wf_buffer b" and "pos + length bs \<le> unat (buf_size b)"
  shows "wf_buffer (buffer_write b pos bs)"
    and "take (pos + length bs) (buf_data (buffer_write b pos bs)) = take pos (buf_data b) @ bs"
    and "buf_size (buffer_write b pos bs) = buf_size b"
    and "buf_capacity (buffer_write b pos bs) = buf_capacity b"
  using assms by (auto simp: wf_buffer_def buffer_write_def word_le_nat_alt)

lemma buffer_resize_fails:
  assumes "wf_buffer b" and "buffer_resize malloc b n = Inl e"
  shows "e = Throw Bad_Alloc"
  by (rule calculate_next_capacity_ok [OF wf_buffer_nonzero [OF assms(1)], of n])
    (use assms(2) in \<open>auto simp: buffer_resize_def reallocate_def split: option.splits if_splits\<close>)

lemma take_buffer_write [simp]: "take (length out) (buf_data (buffer_write b 0 out)) = out"
  by (simp add: buffer_write_def)

section \<open>Examples\<close>

definition example_malloc :: allocator where
  "example_malloc n = Some (replicate (unat n) 0)"

lemma example_malloc_ok: "malloc_ok example_malloc"
  by (simp add: malloc_ok_def example_malloc_def)

definition example_buffer :: "bytes \<Rightarrow> buffer" where
  "example_buffer bs =
     \<lparr>buf_data = bs @ replicate (1024 - length bs) 0, buf_size = of_nat (length bs), buf_capacity = 1024\<rparr>"

lemma wf_example_buffer: "length bs \<le> 1024 \<Longrightarrow> wf_buffer (example_buffer bs)"
  by (simp add: example_buffer_def wf_buffer_def word_le_nat_alt unat_of_nat)

end
