(* ===== verification/Shared_Binary.thy ===== *)
theory Shared_Binary
  imports Errors
begin

text \<open>
  The reference counted binary data of \<^verbatim>\<open>include/mprpc/shared_binary.h\<close> and
  \<^verbatim>\<open>src/shared_binary.cpp\<close>, which \<open>message_data\<close> of
  \<^verbatim>\<open>include/mprpc/message_data.h\<close> inherits.

  The store has the \<open>impl\<close> blocks (bytes and reference count) by address and the pointer
  \<open>impl_\<close> of every \<open>shared_binary\<close> object that is alive, by the name of the object. An operation
  on an object that is not alive, or on a block that has been deleted, is undefined. The
  specification is a map from objects to their bytes: theorems below show that every sequence of
  operations behaves as on independent values, that no block is used after its deletion, and that
  no block outlives its last owner.
\<close>

section \<open>Model\<close>

type_synonym addr = nat
type_synonym handle = nat

record store =
  blocks :: "addr \<rightharpoonup> (bytes \<times> size_t)"
  objs :: "handle \<rightharpoonup> addr option"
  next_addr :: addr

definition empty_store :: store where
  "empty_store = \<lparr>blocks = Map.empty, objs = Map.empty, next_addr = 0\<rparr>"

definition sb_new :: "store \<Rightarrow> handle \<Rightarrow> store" where
  "sb_new s h = s\<lparr>objs := (objs s)(h \<mapsto> None)\<rparr>"

definition sb_construct ::
    "store \<Rightarrow> handle \<Rightarrow> string \<Rightarrow> bytes option \<Rightarrow> size_t \<Rightarrow> store result" where
  "sb_construct s h fn data sz =
     bindR (require_nonull data (Some ''data'') (Some fn)) (\<lambda>d.
     if length d < unat sz then Inl Undefined
     else Inr (s\<lparr>blocks := (blocks s)(next_addr s \<mapsto> (take (unat sz) d, 1)),
                objs := (objs s)(h \<mapsto> Some (next_addr s)),
                next_addr := next_addr s + 1\<rparr>))"

text \<open>\<open>impl_ = p\<close> followed by \<open>++(impl_->ref)\<close> unless the pointer is null.\<close>

definition sb_acquire :: "store \<Rightarrow> handle \<Rightarrow> addr option \<Rightarrow> store result" where
  "sb_acquire s h p =
     (case p of
        None \<Rightarrow> Inr (s\<lparr>objs := (objs s)(h \<mapsto> None)\<rparr>)
      | Some a \<Rightarrow>
          bindR (deref (blocks s a)) (\<lambda>(d, ref).
          Inr (s\<lparr>blocks := (blocks s)(a \<mapsto> (d, ref + 1)), objs := (objs s)(h \<mapsto> Some a)\<rparr>)))"

definition sb_reset :: "store \<Rightarrow> handle \<Rightarrow> store result" where
  "sb_reset s h =
     bindR (deref (objs s h)) (\<lambda>p.
     (case p of
        None \<Rightarrow> Inr s
      | Some a \<Rightarrow>
          bindR (deref (blocks s a)) (\<lambda>(d, ref).
          let post_ref = ref - 1 in
          Inr (s\<lparr>blocks := (if post_ref = 0 then (blocks s)(a := None)
                            else (blocks s)(a \<mapsto> (d, post_ref))),
                 objs := (objs s)(h \<mapsto> None)\<rparr>))))"

definition sb_copy :: "store \<Rightarrow> handle \<Rightarrow> handle \<Rightarrow> store result" where
  "sb_copy s h src = bindR (deref (objs s src)) (\<lambda>p. sb_acquire s h p)"

definition sb_move :: "store \<Rightarrow> handle \<Rightarrow> handle \<Rightarrow> store result" where
  "sb_move s h src =
     bindR (deref (objs s src)) (\<lambda>p.
     Inr (s\<lparr>objs := (objs s)(src \<mapsto> None, h \<mapsto> p)\<rparr>))"

definition sb_copy_assign :: "store \<Rightarrow> handle \<Rightarrow> handle \<Rightarrow> store result" where
  "sb_copy_assign s h src =
     (if h = src then Inr s
      else
        bindR (sb_reset s h) (\<lambda>s.
        bindR (deref (objs s src)) (\<lambda>p. sb_acquire s h p)))"

definition sb_move_assign :: "store \<Rightarrow> handle \<Rightarrow> handle \<Rightarrow> store result" where
  "sb_move_assign s h src =
     bindR (sb_reset s h) (\<lambda>s.
     bindR (deref (objs s src)) (\<lambda>p.
     Inr (s\<lparr>objs := (objs s)(src \<mapsto> None, h \<mapsto> p)\<rparr>)))"

definition sb_destroy :: "store \<Rightarrow> handle \<Rightarrow> store result" where
  "sb_destroy s h = bindR (sb_reset s h) (\<lambda>s. Inr (s\<lparr>objs := (objs s)(h := None)\<rparr>))"

definition sb_has_data :: "store \<Rightarrow> handle \<Rightarrow> bool result" where
  "sb_has_data s h = bindR (deref (objs s h)) (\<lambda>p. Inr (p \<noteq> None))"

text \<open>\<open>data()\<close> with \<open>size()\<close>: null and 0, or the bytes.\<close>

definition sb_data :: "store \<Rightarrow> handle \<Rightarrow> bytes option result" where
  "sb_data s h =
     bindR (deref (objs s h)) (\<lambda>p.
     (case p of None \<Rightarrow> Inr None
      | Some a \<Rightarrow> bindR (deref (blocks s a)) (\<lambda>(d, ref). Inr (Some d))))"

definition sb_size :: "store \<Rightarrow> handle \<Rightarrow> nat result" where
  "sb_size s h =
     bindR (deref (objs s h)) (\<lambda>p.
     (case p of None \<Rightarrow> Inr 0
      | Some a \<Rightarrow> bindR (deref (blocks s a)) (\<lambda>(d, ref). Inr (length d))))"

definition sb_use_count :: "store \<Rightarrow> handle \<Rightarrow> size_t result" where
  "sb_use_count s h =
     bindR (deref (objs s h)) (\<lambda>p.
     (case p of None \<Rightarrow> Inr 0
      | Some a \<Rightarrow> bindR (deref (blocks s a)) (\<lambda>(d, ref). Inr ref)))"

definition sb_equal :: "store \<Rightarrow> handle \<Rightarrow> handle \<Rightarrow> bool result" where
  "sb_equal s l r =
     bindR (sb_has_data s l) (\<lambda>hl.
     bindR (sb_has_data s r) (\<lambda>hr.
     if \<not> hl then Inr (\<not> hr)
     else if \<not> hr then Inr False
     else bindR (sb_data s l) (\<lambda>dl. bindR (sb_data s r) (\<lambda>dr. Inr (dl = dr)))))"

definition sb_not_equal :: "store \<Rightarrow> handle \<Rightarrow> handle \<Rightarrow> bool result" where
  "sb_not_equal s l r = bindR (sb_equal s l r) (\<lambda>b. Inr (\<not> b))"

section \<open>Sequences of operations\<close>

text \<open>
  The operations as steps of a program, and their specification on values. A step of the
  specification is \<open>None\<close> when the program uses an object that is not alive, constructs one that is,
  or hands a pointer to fewer bytes than it says.
\<close>

datatype sb_op =
    Op_New handle
  | Op_Construct handle bytes size_t
  | Op_Copy handle handle
  | Op_Move handle handle
  | Op_Copy_Assign handle handle
  | Op_Move_Assign handle handle
  | Op_Reset handle
  | Op_Destroy handle

fun sb_exec :: "sb_op \<Rightarrow> store \<Rightarrow> store result" where
  "sb_exec (Op_New h) s = Inr (sb_new s h)"
| "sb_exec (Op_Construct h d n) s = sb_construct s h ''shared_binary'' (Some d) n"
| "sb_exec (Op_Copy h g) s = sb_copy s h g"
| "sb_exec (Op_Move h g) s = sb_move s h g"
| "sb_exec (Op_Copy_Assign h g) s = sb_copy_assign s h g"
| "sb_exec (Op_Move_Assign h g) s = sb_move_assign s h g"
| "sb_exec (Op_Reset h) s = sb_reset s h"
| "sb_exec (Op_Destroy h) s = sb_destroy s h"

fun sb_spec :: "sb_op \<Rightarrow> (handle \<rightharpoonup> message_data) \<Rightarrow> (handle \<rightharpoonup> message_data) option" where
  "sb_spec (Op_New h) m = (if m h = None then Some (m(h \<mapsto> None)) else None)"
| "sb_spec (Op_Construct h d n) m =
     (if m h = None \<and> unat n \<le> length d then Some (m(h \<mapsto> Some (take (unat n) d))) else None)"
| "sb_spec (Op_Copy h g) m = (if m h = None \<and> m g \<noteq> None then Some (m(h := m g)) else None)"
| "sb_spec (Op_Move h g) m =
     (if m h = None \<and> m g \<noteq> None then Some (m(g \<mapsto> None, h := m g)) else None)"
| "sb_spec (Op_Copy_Assign h g) m =
     (if m h \<noteq> None \<and> m g \<noteq> None then Some (m(h := m g)) else None)"
| "sb_spec (Op_Move_Assign h g) m =
     (if m h \<noteq> None \<and> m g \<noteq> None then
        Some (if h = g then m(h \<mapsto> None) else m(g \<mapsto> None, h := m g)) else None)"
| "sb_spec (Op_Reset h) m = (if m h \<noteq> None then Some (m(h \<mapsto> None)) else None)"
| "sb_spec (Op_Destroy h) m = (if m h \<noteq> None then Some (m(h := None)) else None)"

section \<open>The invariant and the values\<close>

definition owners :: "store \<Rightarrow> addr \<Rightarrow> handle set" where
  "owners s a = {h. objs s h = Some (Some a)}"

definition wf_store :: "store \<Rightarrow> bool" where
  "wf_store s \<longleftrightarrow>
     finite (dom (objs s)) \<and>
     (\<forall>a d ref. blocks s a = Some (d, ref) \<longrightarrow> owners s a \<noteq> {} \<and> unat ref = card (owners s a)) \<and>
     (\<forall>h a. objs s h = Some (Some a) \<longrightarrow> a \<in> dom (blocks s)) \<and>
     (\<forall>a. next_addr s \<le> a \<longrightarrow> blocks s a = None)"

text \<open>The value of every object.\<close>

definition obj_values :: "store \<Rightarrow> handle \<rightharpoonup> message_data" where
  "obj_values s h = map_option (\<lambda>p. Option.bind p (\<lambda>a. map_option fst (blocks s a))) (objs s h)"

text \<open>There is room for one more object: the address space has no 2^64 of them.\<close>

definition roomy :: "store \<Rightarrow> bool" where
  "roomy s \<longleftrightarrow> card (dom (objs s)) + 1 < 2 ^ 64"

lemma wf_storeD:
  assumes "wf_store s"
  shows "finite (dom (objs s))"
    and "blocks s a = Some (d, ref) \<Longrightarrow> owners s a \<noteq> {}"
    and "blocks s a = Some (d, ref) \<Longrightarrow> unat ref = card (owners s a)"
    and "objs s h = Some (Some a) \<Longrightarrow> \<exists>d ref. blocks s a = Some (d, ref)"
    and "next_addr s \<le> a \<Longrightarrow> blocks s a = None"
  using assms unfolding wf_store_def by fast+

lemma owners_dom: "owners s a \<subseteq> dom (objs s)"
  by (auto simp: owners_def)

lemma finite_owners: "wf_store s \<Longrightarrow> finite (owners s a)"
  using wf_storeD(1) owners_dom by (metis finite_subset)

lemma card_owners: "wf_store s \<Longrightarrow> card (owners s a) \<le> card (dom (objs s))"
  using wf_storeD(1) owners_dom by (metis card_mono)

text \<open>Giving up a reference: the heart of \<open>reset\<close>.\<close>

lemma sb_reset_ok:
  assumes "wf_store s" and "objs s h = Some p"
  obtains s' where "sb_reset s h = Inr s'" and "wf_store s'" and "obj_values s' = (obj_values s)(h \<mapsto> None)"
    and "objs s' = (objs s)(h \<mapsto> None)" and "next_addr s' = next_addr s"
proof (cases p)
  case None
  have "obj_values s = (obj_values s)(h \<mapsto> None)" "objs s = (objs s)(h \<mapsto> None)"
    using assms(2) None by (auto simp: obj_values_def fun_eq_iff)
  with that [of s] None assms show ?thesis by (simp add: sb_reset_def)
next
  case (Some a)
  note wf = wf_storeD [OF assms(1)]
  obtain d ref where a: "blocks s a = Some (d, ref)" using wf(4) assms(2) Some by blast
  define bl where "bl = (if ref - 1 = 0 then (blocks s)(a := None) else (blocks s)(a \<mapsto> (d, ref - 1)))"
  define s' where "s' = s\<lparr>blocks := bl, objs := (objs s)(h \<mapsto> None)\<rparr>"
  have h: "h \<in> owners s a" using assms(2) Some by (simp add: owners_def)
  have own: "owners s' b = owners s b - {h}" for b
    using assms(2) Some by (auto simp: owners_def s'_def)
  have ref: "0 < unat ref" using wf(3) [OF a] h finite_owners [OF assms(1), of a] by (auto simp: card_gt_0_iff)
  have post: "unat (ref - 1) = card (owners s' a)"
    using wf(3) [OF a] h finite_owners [OF assms(1), of a] ref
    by (simp add: own unat_sub word_le_nat_alt)
  have zero: "ref - 1 = 0 \<longleftrightarrow> owners s' a = {}"
    using post finite_owners [OF assms(1), of a] own by (metis card_eq_0_iff finite_Diff unat_eq_zero)
  have other: "owners s' b = owners s b" if "b \<noteq> a" for b
    using that assms(2) Some own by (auto simp: owners_def)
  have "wf_store s'"
    unfolding wf_store_def
  proof (intro conjI allI impI)
    show "finite (dom (objs s'))" using wf(1) by (simp add: s'_def)
    show "owners s' b \<noteq> {}" if "blocks s' b = Some (e, r)" for b e r
      using that zero other wf(2) by (cases "b = a") (auto simp: s'_def bl_def split: if_splits)
    show "unat r = card (owners s' b)" if "blocks s' b = Some (e, r)" for b e r
      using that post other wf(3) by (cases "b = a") (auto simp: s'_def bl_def split: if_splits)
    show "b \<in> dom (blocks s')" if "objs s' g = Some (Some b)" for g b
    proof (cases "b = a")
      case True
      then have "owners s' a \<noteq> {}" using that by (auto simp: owners_def)
      with zero True show ?thesis by (simp add: s'_def bl_def)
    next
      case False
      with that wf(4) show ?thesis by (fastforce simp: s'_def bl_def split: if_splits)
    qed
    show "blocks s' b = None" if "next_addr s' \<le> b" for b
      using that wf(5) [of b] a by (auto simp: s'_def bl_def)
  qed
  moreover have "obj_values s' = (obj_values s)(h \<mapsto> None)"
  proof
    fix g
    have "b \<noteq> a \<or> ref - 1 \<noteq> 0" if "objs s g = Some (Some b)" "g \<noteq> h" for b
      using that zero own by (auto simp: owners_def)
    then show "obj_values s' g = ((obj_values s)(h \<mapsto> None)) g"
      using a by (cases "objs s g"; cases "the (objs s g)")
        (auto simp: obj_values_def s'_def bl_def)
  qed
  ultimately show ?thesis
    using that [of s'] assms(2) Some a
    by (simp add: sb_reset_def s'_def bl_def Let_def)
qed


lemma owners_set_obj:
  "owners (s\<lparr>objs := (objs s)(h := q)\<rparr>) a =
   (if q = Some (Some a) then insert h (owners s a) else owners s a - {h})"
  by (auto simp: owners_def)

text \<open>Taking a reference, by an object that has none.\<close>

lemma sb_acquire_ok:
  assumes wf: "wf_store s" and h: "objs s h \<in> {None, Some None}" and room: "roomy s"
    and p: "p = None \<or> (\<exists>g. objs s g = Some p)"
  obtains s' where "sb_acquire s h p = Inr s'" and "wf_store s'"
    and "obj_values s' = (obj_values s)(h \<mapsto> Option.bind p (\<lambda>a. map_option fst (blocks s a)))"
    and "objs s' = (objs s)(h \<mapsto> p)" and "next_addr s' = next_addr s"
proof (cases p)
  case None
  let ?s = "s\<lparr>objs := (objs s)(h \<mapsto> None)\<rparr>"
  have "owners ?s a = owners s a" for a using h by (auto simp: owners_def)
  with wf have "wf_store ?s" by (auto simp: wf_store_def split: if_splits)
  moreover have "obj_values ?s = (obj_values s)(h \<mapsto> None)" by (auto simp: obj_values_def fun_eq_iff)
  ultimately show ?thesis using that [of ?s] None by (simp add: sb_acquire_def)
next
  case (Some a)
  obtain g where g: "objs s g = Some (Some a)" using p Some by blast
  obtain d ref where a: "blocks s a = Some (d, ref)" using wf_storeD(4) [OF wf g] by blast
  define s' where "s' = s\<lparr>blocks := (blocks s)(a \<mapsto> (d, ref + 1)), objs := (objs s)(h \<mapsto> Some a)\<rparr>"
  have sel: "blocks s' = (blocks s)(a \<mapsto> (d, ref + 1))" "objs s' = (objs s)(h \<mapsto> Some a)"
    "next_addr s' = next_addr s" by (simp_all add: s'_def)
  have own: "owners s' b = (if b = a then insert h (owners s a) else owners s b)" for b
    using h by (auto simp: owners_def s'_def)
  have hn: "h \<notin> owners s a" using h by (auto simp: owners_def)
  have "card (owners s a) + 1 < 2 ^ 64"
    using card_owners [OF wf, of a] room by (simp add: roomy_def)
  then have cnt: "unat (ref + 1) = card (owners s' a)"
    using wf_storeD(3) [OF wf a] finite_owners [OF wf, of a] hn
    by (simp add: own unat_word_ariths)
  have "wf_store s'"
    unfolding wf_store_def
  proof (intro conjI allI impI)
    show "finite (dom (objs s'))" using wf_storeD(1) [OF wf] by (simp add: sel)
    show "owners s' b \<noteq> {}" if "blocks s' b = Some (e, r)" for b e r
      using that wf_storeD(2) [OF wf, of b] by (cases "b = a") (auto simp: own sel)
    show "unat r = card (owners s' b)" if "blocks s' b = Some (e, r)" for b e r
      using that cnt wf_storeD(3) [OF wf, of b] own by (cases "b = a") (auto simp: sel)
    show "b \<in> dom (blocks s')" if "objs s' f = Some (Some b)" for f b
      using that wf_storeD(4) [OF wf, of f b] by (auto simp: sel split: if_splits)
    show "blocks s' b = None" if "next_addr s' \<le> b" for b
      using that wf_storeD(5) [OF wf, of b] a by (auto simp: sel)
  qed
  moreover have "obj_values s' = (obj_values s)(h \<mapsto> Some d)"
  proof
    fix f
    show "obj_values s' f = ((obj_values s)(h \<mapsto> Some d)) f"
      using a by (cases "objs s f"; cases "the (objs s f)") (auto simp: obj_values_def sel)
  qed
  ultimately show ?thesis using that [of s'] Some a by (simp add: sb_acquire_def s'_def)
qed


section \<open>The operations against the values\<close>

lemma sb_construct_ok:
  assumes wf: "wf_store s" and h: "objs s h = None" and n: "unat n \<le> length d"
  obtains s' where "sb_construct s h fn (Some d) n = Inr s'" and "wf_store s'"
    and "obj_values s' = (obj_values s)(h \<mapsto> Some (take (unat n) d))"
    and "dom (objs s') = insert h (dom (objs s))"
proof -
  define a where "a = next_addr s"
  define s' where "s' = s\<lparr>blocks := (blocks s)(a \<mapsto> (take (unat n) d, 1)),
    objs := (objs s)(h \<mapsto> Some a), next_addr := a + 1\<rparr>"
  have sel: "blocks s' = (blocks s)(a \<mapsto> (take (unat n) d, 1))" "objs s' = (objs s)(h \<mapsto> Some a)"
    "next_addr s' = a + 1" by (simp_all add: s'_def)
  have fresh: "blocks s a = None" using wf_storeD(5) [OF wf, of a] by (simp add: a_def)
  then have no: "objs s g \<noteq> Some (Some a)" for g using wf_storeD(4) [OF wf, of g a] by auto
  have own: "owners s' b = (if b = a then {h} else owners s b)" for b
    using h no by (auto simp: owners_def sel)
  have "wf_store s'"
    unfolding wf_store_def
  proof (intro conjI allI impI)
    show "finite (dom (objs s'))" using wf_storeD(1) [OF wf] by (simp add: sel)
    show "owners s' b \<noteq> {}" if "blocks s' b = Some (e, r)" for b e r
      using that wf_storeD(2) [OF wf, of b] by (cases "b = a") (auto simp: own sel)
    show "unat r = card (owners s' b)" if "blocks s' b = Some (e, r)" for b e r
      using that wf_storeD(3) [OF wf, of b] own by (cases "b = a") (auto simp: sel)
    show "b \<in> dom (blocks s')" if "objs s' f = Some (Some b)" for f b
      using that wf_storeD(4) [OF wf, of f b] by (auto simp: sel split: if_splits)
    show "blocks s' b = None" if "next_addr s' \<le> b" for b
      using that wf_storeD(5) [OF wf, of b] by (auto simp: sel a_def)
  qed
  moreover have "obj_values s' = (obj_values s)(h \<mapsto> Some (take (unat n) d))"
  proof
    fix f
    show "obj_values s' f = ((obj_values s)(h \<mapsto> Some (take (unat n) d))) f"
      using no [of f] by (cases "objs s f"; cases "the (objs s f)") (auto simp: obj_values_def sel)
  qed
  ultimately show ?thesis
    using that [of s'] n by (auto simp: sb_construct_def s'_def a_def)
qed

lemma dom_obj_values [simp]: "dom (obj_values s) = dom (objs s)"
  by (auto simp: obj_values_def)

lemma obj_values_objs:
  "objs s h = Some p \<Longrightarrow> obj_values s h = Some (Option.bind p (\<lambda>a. map_option fst (blocks s a)))"
  by (simp add: obj_values_def)

lemma sb_move_ok:
  assumes wf: "wf_store s" and h: "objs s h \<in> {None, Some None}" and src: "objs s src = Some p" and "h \<noteq> src"
  shows "wf_store (s\<lparr>objs := (objs s)(src \<mapsto> None, h \<mapsto> p)\<rparr>)"
    and "obj_values (s\<lparr>objs := (objs s)(src \<mapsto> None, h \<mapsto> p)\<rparr>) =
      (obj_values s)(src \<mapsto> None, h := obj_values s src)"
proof -
  let ?s = "s\<lparr>objs := (objs s)(src \<mapsto> None, h \<mapsto> p)\<rparr>"
  have own: "owners ?s a = (if p = Some a then insert h (owners s a - {src}) else owners s a)" for a
    using h src assms(4) by (auto simp: owners_def)
  have "card (owners ?s a) = card (owners s a) \<and> (owners ?s a = {} \<longleftrightarrow> owners s a = {})" for a
  proof (cases "p = Some a")
    case True
    then have "src \<in> owners s a" "h \<notin> owners s a" using h src by (auto simp: owners_def)
    moreover have "owners ?s a = insert h (owners s a - {src})" using own [of a] True by simp
    ultimately show ?thesis using finite_owners [OF wf, of a] card_Suc_Diff1 [of "owners s a" src] by auto
  qed (simp add: own)
  then show "wf_store ?s"
    using wf src by (auto simp: wf_store_def split: if_splits)
  show "obj_values ?s = (obj_values s)(src \<mapsto> None, h := obj_values s src)"
    using src by (auto simp: obj_values_def fun_eq_iff)
qed


definition refines :: "store result \<Rightarrow> (handle \<rightharpoonup> message_data) \<Rightarrow> bool" where
  "refines r m \<longleftrightarrow> (\<exists>s. r = Inr s \<and> wf_store s \<and> obj_values s = m)"

lemma refinesI: "r = Inr s \<Longrightarrow> wf_store s \<Longrightarrow> obj_values s = m \<Longrightarrow> refines r m"
  by (simp add: refines_def)

lemma obj_values_None [simp]: "obj_values s h = None \<longleftrightarrow> objs s h = None"
  by (simp add: obj_values_def)

lemma sb_new_refines: "wf_store s \<Longrightarrow> objs s h = None \<Longrightarrow> refines (Inr (sb_new s h)) ((obj_values s)(h \<mapsto> None))"
proof -
  assume wf: "wf_store s" and h: "objs s h = None"
  have "owners (sb_new s h) a = owners s a" for a using h by (auto simp: owners_def sb_new_def)
  with wf have "wf_store (sb_new s h)" by (auto simp: wf_store_def sb_new_def split: if_splits)
  then show "refines (Inr (sb_new s h)) ((obj_values s)(h \<mapsto> None))"
    by (rule refinesI [OF refl]) (auto simp: obj_values_def sb_new_def fun_eq_iff)
qed

lemma sb_destroy_refines:
  assumes "wf_store s" and "objs s h = Some p"
  shows "refines (sb_destroy s h) ((obj_values s)(h := None))"
proof -
  obtain s' where s': "sb_reset s h = Inr s'" "wf_store s'" "obj_values s' = (obj_values s)(h \<mapsto> None)"
    "objs s' = (objs s)(h \<mapsto> None)" by (rule sb_reset_ok [OF assms])
  let ?t = "s'\<lparr>objs := (objs s')(h := None)\<rparr>"
  have "owners ?t a = owners s' a" for a using s'(4) by (auto simp: owners_def)
  with s'(2) have "wf_store ?t" by (auto simp: wf_store_def split: if_splits)
  moreover have "obj_values ?t = (obj_values s)(h := None)"
    using s'(3) by (auto simp: obj_values_def fun_eq_iff split: if_splits)
  ultimately show ?thesis using s'(1) by (intro refinesI [of _ ?t]) (simp_all add: sb_destroy_def)
qed

lemma sb_copy_assign_refines:
  assumes wf: "wf_store s" and "roomy s" and h: "objs s h = Some q" and g: "objs s g = Some p"
  shows "refines (sb_copy_assign s h g) ((obj_values s)(h := obj_values s g))"
proof (cases "h = g")
  case True
  with wf show ?thesis by (intro refinesI [of _ s]) (simp_all add: sb_copy_assign_def)
next
  case False
  obtain s1 where s1: "sb_reset s h = Inr s1" "wf_store s1" "obj_values s1 = (obj_values s)(h \<mapsto> None)"
    "objs s1 = (objs s)(h \<mapsto> None)" by (rule sb_reset_ok [OF wf h])
  have g1: "objs s1 g = Some p" using False g s1(4) by simp
  have "dom (objs s1) = dom (objs s)" using s1(4) h by auto
  then have "roomy s1" using assms(2) by (simp add: roomy_def)
  then obtain s2 where s2: "sb_acquire s1 h p = Inr s2" "wf_store s2"
    "obj_values s2 = (obj_values s1)(h \<mapsto> Option.bind p (\<lambda>a. map_option fst (blocks s1 a)))"
    using sb_acquire_ok [OF s1(2), of h p] s1(4) g1 by (auto simp del: obj_values_None)
  have "obj_values s2 = (obj_values s)(h := obj_values s g)"
    using s2(3) s1(3) obj_values_objs [OF g1] False by (auto simp: fun_eq_iff)
  with s1(1) s2(1,2) g1 False show ?thesis
    by (intro refinesI [of _ s2]) (simp_all add: sb_copy_assign_def)
qed

lemma sb_move_assign_refines:
  assumes wf: "wf_store s" and h: "objs s h = Some q" and g: "objs s g = Some p"
  shows "refines (sb_move_assign s h g)
    (if h = g then (obj_values s)(h \<mapsto> None) else (obj_values s)(g \<mapsto> None, h := obj_values s g))"
proof -
  obtain s1 where s1: "sb_reset s h = Inr s1" "wf_store s1" "obj_values s1 = (obj_values s)(h \<mapsto> None)"
    "objs s1 = (objs s)(h \<mapsto> None)" by (rule sb_reset_ok [OF wf h])
  show ?thesis
  proof (cases "h = g")
    case True
    have same: "s1\<lparr>objs := (objs s1)(g \<mapsto> None, h \<mapsto> None)\<rparr> = s1" using True s1(4) by simp
    have "objs s1 g = Some None" using True s1(4) by simp
    with same True s1 show ?thesis by (intro refinesI [of _ s1]) (simp_all add: sb_move_assign_def)
  next
    case False
    have g1: "objs s1 g = Some p" using False g s1(4) by simp
    have h1: "objs s1 h \<in> {None, Some None}" using s1(4) by simp
    let ?t = "s1\<lparr>objs := (objs s1)(g \<mapsto> None, h \<mapsto> p)\<rparr>"
    note t = sb_move_ok [OF s1(2) h1 g1 False]
    have v: "obj_values s1 g = obj_values s g" using s1(3) False by simp
    have "obj_values ?t = (obj_values s)(g \<mapsto> None, h := obj_values s g)"
      unfolding t(2) v unfolding s1(3) by auto
    with t(1) s1(1) g1 False show ?thesis
      by (intro refinesI [of _ ?t]) (simp_all add: sb_move_assign_def)
  qed
qed

lemma sb_exec_refines:
  assumes wf: "wf_store s" and room: "roomy s" and spec: "sb_spec op (obj_values s) = Some m"
  shows "refines (sb_exec op s) m"
proof (cases op)
  case (Op_New h)
  with spec sb_new_refines [OF wf, of h] show ?thesis by (simp split: if_splits)
next
  case (Op_Construct h d n)
  with spec have "objs s h = None" "unat n \<le> length d" by (auto split: if_splits)
  from sb_construct_ok [OF wf this, of "''shared_binary''"] obtain s' where
    "sb_construct s h ''shared_binary'' (Some d) n = Inr s'" "wf_store s'"
    "obj_values s' = (obj_values s)(h \<mapsto> Some (take (unat n) d))" by metis
  with Op_Construct spec show ?thesis by (intro refinesI [of _ s']) (auto split: if_splits)
next
  case (Op_Copy h g)
  with spec obtain p where h: "objs s h = None" and g: "objs s g = Some p" by (auto split: if_splits)
  obtain s' where "sb_acquire s h p = Inr s'" "wf_store s'"
    "obj_values s' = (obj_values s)(h \<mapsto> Option.bind p (\<lambda>a. map_option fst (blocks s a)))"
    using sb_acquire_ok [OF wf _ room, of h p] h g by (auto simp del: obj_values_None)
  with Op_Copy spec g obj_values_objs [OF g] show ?thesis
    by (intro refinesI [of _ s']) (auto simp: sb_copy_def split: if_splits)
next
  case (Op_Move h g)
  with spec obtain p where h: "objs s h = None" and g: "objs s g = Some p" by (auto split: if_splits)
  then have "h \<noteq> g" by auto
  with sb_move_ok [OF wf _ g, of h] Op_Move spec h g show ?thesis
    by (intro refinesI [of _ "s\<lparr>objs := (objs s)(g \<mapsto> None, h \<mapsto> p)\<rparr>"])
      (auto simp: sb_move_def split: if_splits)
next
  case (Op_Copy_Assign h g)
  with spec sb_copy_assign_refines [OF wf room, of h _ g] show ?thesis by (auto split: if_splits)
next
  case (Op_Move_Assign h g)
  with spec sb_move_assign_refines [OF wf, of h _ g] show ?thesis by (auto split: if_splits)
next
  case (Op_Reset h)
  with spec obtain p where h: "objs s h = Some p" by (auto split: if_splits)
  obtain s' where "sb_reset s h = Inr s'" "wf_store s'" "obj_values s' = (obj_values s)(h \<mapsto> None)"
    by (rule sb_reset_ok [OF wf h])
  with Op_Reset spec show ?thesis by (intro refinesI [of _ s']) (auto split: if_splits)
next
  case (Op_Destroy h)
  with spec sb_destroy_refines [OF wf, of h] show ?thesis by (auto split: if_splits)
qed

lemma sb_spec_dom: "sb_spec op m = Some m' \<Longrightarrow> \<exists>h. dom m' \<subseteq> insert h (dom m)"
  by (cases op) (auto split: if_splits)

lemma sb_exec_step:
  assumes wf: "wf_store s" and "card (dom (objs s)) < 2 ^ 64 - 1" and spec: "sb_spec op (obj_values s) = Some m"
  shows "\<exists>s'. sb_exec op s = Inr s' \<and> wf_store s' \<and> obj_values s' = m \<and>
    card (dom (objs s')) \<le> card (dom (objs s)) + 1"
proof -
  obtain s' where s': "sb_exec op s = Inr s'" "wf_store s'" "obj_values s' = m"
    using sb_exec_refines [OF wf _ spec] assms(2) by (auto simp: refines_def roomy_def)
  obtain h where "dom m \<subseteq> insert h (dom (obj_values s))" using sb_spec_dom [OF spec] by blast
  then have "dom (objs s') \<subseteq> insert h (dom (objs s))" using s'(3) by (metis dom_obj_values)
  moreover have fin: "finite (insert h (dom (objs s)))" using wf_storeD(1) [OF wf] by simp
  ultimately have "card (dom (objs s')) \<le> card (insert h (dom (objs s)))" by (metis card_mono)
  also have "\<dots> \<le> card (dom (objs s)) + 1" using fin by (simp add: card_insert_if)
  finally show ?thesis using s' by blast
qed

interpretation sb: implementation sb_exec sb_spec wf_store obj_values "\<lambda>s. card (dom (objs s))" "2 ^ 64 - 1"
  by unfold_locales (rule sb_exec_step)

lemma wf_empty_store [simp]: "wf_store empty_store" and values_empty_store [simp]: "obj_values empty_store = Map.empty"
  and objs_empty_store [simp]: "objs empty_store = Map.empty"
  by (auto simp: wf_store_def empty_store_def obj_values_def)

lemma sb_observe:
  assumes "wf_store s" and "obj_values s h = Some v"
  shows "sb_data s h = Inr v" and "sb_has_data s h = Inr (v \<noteq> None)"
    and "sb_size s h = Inr (case v of None \<Rightarrow> 0 | Some d \<Rightarrow> length d)"
proof -
  obtain p where p: "objs s h = Some p" and v: "v = Option.bind p (\<lambda>a. map_option fst (blocks s a))"
    using assms(2) by (auto simp: obj_values_def)
  show "sb_data s h = Inr v" "sb_has_data s h = Inr (v \<noteq> None)"
    "sb_size s h = Inr (case v of None \<Rightarrow> 0 | Some d \<Rightarrow> length d)"
    using p v wf_storeD(4) [OF assms(1), of h]
    by (cases p; auto simp: sb_data_def sb_has_data_def sb_size_def)+
qed

lemma sb_equal_ok:
  assumes "wf_store s" and "obj_values s l = Some v" and "obj_values s r = Some w"
  shows "sb_equal s l r = Inr (v = w)"
  using sb_observe [OF assms(1,2)] sb_observe [OF assms(1,3)] by (auto simp: sb_equal_def)

section \<open>Properties\<close>

text \<open>
  C21. Every sequence of constructions, copies, moves, assignments, resets and destructions that uses
  live objects only runs without undefined behaviour and leaves each object with the bytes it would
  have if objects did not share them; \<open>data\<close>, \<open>size\<close> and the comparison operators answer for those bytes.
\<close>

theorem shared_binary_values:
  assumes "spec_ops sb_spec ops Map.empty = Some m" and "length ops < 2 ^ 64"
  shows "\<exists>s. run_ops sb_exec ops empty_store = Inr s \<and> obj_values s = m \<and>
    (\<forall>h v. m h = Some v \<longrightarrow> sb_data s h = Inr v \<and>
       sb_size s h = Inr (case v of None \<Rightarrow> 0 | Some d \<Rightarrow> length d)) \<and>
    (\<forall>l r v w. m l = Some v \<and> m r = Some w \<longrightarrow> sb_equal s l r = Inr (v = w) \<and> sb_not_equal s l r = Inr (v \<noteq> w))"
proof -
  obtain s where s: "run_ops sb_exec ops empty_store = Inr s" "wf_store s" "obj_values s = m"
    using sb.run_ok [of empty_store ops m] assms by auto
  then show ?thesis
    by (intro exI [of _ s]) (auto simp: sb_observe sb_equal_ok sb_not_equal_def)
qed

theorem shared_binary_values_witness:
  "\<exists>s. run_ops sb_exec [Op_Construct 0 [1, 2] 2, Op_Copy 1 0, Op_New 2, Op_Move_Assign 2 0, Op_Destroy 1] empty_store = Inr s \<and>
     obj_values s = [0 \<mapsto> None, 2 \<mapsto> Some [1, 2]] \<and> sb_data s 2 = Inr (Some [1, 2])"
  using shared_binary_values [of "[Op_Construct 0 [1, 2] 2, Op_Copy 1 0, Op_New 2, Op_Move_Assign 2 0, Op_Destroy 1]"
      "[0 \<mapsto> None, 2 \<mapsto> Some [1, 2]]"]
  by (fastforce simp: fun_eq_iff)

text \<open>
  C22. After any such sequence the count of a block is the number of objects that share it and is
  positive, so that no object refers to a deleted block, and when no object is left no block is left.
\<close>

theorem shared_binary_no_leak:
  assumes "spec_ops sb_spec ops Map.empty = Some m" and "length ops < 2 ^ 64"
  shows "\<exists>s. run_ops sb_exec ops empty_store = Inr s \<and>
    (\<forall>a d ref. blocks s a = Some (d, ref) \<longrightarrow>
       0 < ref \<and> unat ref = card {h. objs s h = Some (Some a)}) \<and>
    (dom m = {} \<longrightarrow> blocks s = Map.empty)"
proof -
  obtain s where s: "run_ops sb_exec ops empty_store = Inr s" "wf_store s" "obj_values s = m"
    using sb.run_ok [of empty_store ops m] assms by auto
  have ref: "0 < ref \<and> unat ref = card {h. objs s h = Some (Some a)}" if "blocks s a = Some (d, ref)" for a d ref
    using wf_storeD(2,3) [OF s(2) that] finite_owners [OF s(2), of a]
    by (auto simp: owners_def word_less_nat_alt card_gt_0_iff)
  have "blocks s = Map.empty" if "dom m = {}"
  proof -
    have "owners s a = {}" for a using that s(3) owners_dom [of s a] by (metis dom_obj_values subset_empty)
    then show ?thesis using wf_storeD(2) [OF s(2)] by (metis option.exhaust surj_pair)
  qed
  with s(1) ref show ?thesis by blast
qed

theorem shared_binary_no_leak_witness:
  "\<exists>s. run_ops sb_exec [Op_Construct 0 [1, 2] 2, Op_Copy 1 0, Op_Destroy 0, Op_Destroy 1] empty_store =
     Inr s \<and> blocks s = Map.empty"
  using shared_binary_no_leak
    [of "[Op_Construct 0 [1, 2] 2, Op_Copy 1 0, Op_Destroy 0, Op_Destroy 1]" Map.empty]
  by (fastforce simp: fun_eq_iff)

end
