(* ===== verification/Msgpack_Object.thy ===== *)
theory Msgpack_Object
  imports Errors
begin

text \<open>
  MessagePack objects and their packing, as \<^verbatim>\<open>msgpack::pack\<close> of the msgpack-c
  library under \<^verbatim>\<open>extern/msgpack-c/include/msgpack\<close> does it: big endian stores
  (\<^verbatim>\<open>sysdep.h\<close>), the integer, string, binary, extension and container headers
  of the packer (\<^verbatim>\<open>v1/pack.hpp\<close>), and the packing of a whole object through the
  visits that \<open>object_parser\<close> makes (\<^verbatim>\<open>v1/object.hpp\<close>).

  A packer is the byte sequence it appends to its stream. A floating point value is its bit
  pattern; the library widens a float to double and narrows it back, which keeps the pattern of
  every value that is not a signalling NaN. The bytes of an extension are its type byte followed
  by its data, as \<open>via.ext.ptr\<close> points to them. The object type \<open>STR\<close> is the constructor
  \<open>STRING\<close>, since HOL reserves the name.
\<close>

section \<open>Objects\<close>

datatype mobj =
    NIL
  | BOOLEAN bool
  | POSITIVE_INTEGER u64
  | NEGATIVE_INTEGER u64
  | FLOAT32 u32
  | FLOAT64 u64
  | STRING bytes
  | BIN bytes
  | EXT bytes
  | ARRAY "mobj list"
  | MAP "(mobj \<times> mobj) list"

section \<open>Big endian integers\<close>

fun store_be :: "nat \<Rightarrow> nat \<Rightarrow> bytes" where
  "store_be 0 x = []"
| "store_be (Suc k) x = of_nat (x div 256 ^ k) # store_be k x"

fun load_be_acc :: "nat \<Rightarrow> bytes \<Rightarrow> nat" where
  "load_be_acc a [] = a"
| "load_be_acc a (b # bs) = load_be_acc (a * 256 + unat b) bs"

definition load_be :: "bytes \<Rightarrow> nat" where
  "load_be bs = load_be_acc 0 bs"

lemma length_store_be [simp]: "length (store_be k x) = k"
  by (induction k) simp_all

lemma load_be_acc_append: "load_be_acc a bs = a * 256 ^ length bs + load_be_acc 0 bs"
proof (induction bs arbitrary: a)
  case Nil
  then show ?case by simp
next
  case (Cons b bs)
  show ?case
    using Cons.IH [of "a * 256 + unat b"] Cons.IH [of "unat b"] by (simp add: algebra_simps)
qed

lemma div_mod_step: "(x div 256 ^ k) mod 256 * 256 ^ k + x mod 256 ^ k = x mod 256 ^ Suc k"
  for x :: nat
  by (metis add.commute mod_mult2_eq mult.commute power_Suc)

lemma load_store_be [simp, load_store]: "load_be (store_be k x) = x mod 256 ^ k"
proof (induction k)
  case 0
  then show ?case by (simp add: load_be_def)
next
  case (Suc k)
  have "load_be (store_be (Suc k) x) = (x div 256 ^ k) mod 256 * 256 ^ k + load_be (store_be k x)"
    by (simp add: load_be_def unat_of_nat load_be_acc_append [of "x div 256 ^ k mod 256"])
  then show ?case using Suc div_mod_step [of x k] by simp
qed

lemma load_be_less: "load_be bs < 256 ^ length bs"
proof (induction bs)
  case Nil
  then show ?case by (simp add: load_be_def)
next
  case (Cons b bs)
  have b: "unat b \<le> 255" using unsigned_less [of b, where ?'a = nat] by simp
  have "load_be (b # bs) = unat b * 256 ^ length bs + load_be bs"
    by (simp add: load_be_def load_be_acc_append [of "unat b"])
  also have "\<dots> < unat b * 256 ^ length bs + 256 ^ length bs" using Cons by simp
  also have "\<dots> \<le> 255 * 256 ^ length bs + 256 ^ length bs" using b by simp
  finally show ?case by simp
qed

definition store16 :: "nat \<Rightarrow> bytes" where
  "store16 x = store_be 2 x"

definition store32 :: "nat \<Rightarrow> bytes" where
  "store32 x = store_be 4 x"

definition store64 :: "nat \<Rightarrow> bytes" where
  "store64 x = store_be 8 x"

section \<open>The packer\<close>

text \<open>
  The functions \<open>pack_imp_*\<close> choose the shortest form. Their argument is the C++ value, an
  integer in the range of its type; storing it at a width is storing it modulo that width.
\<close>

definition take8 :: "int \<Rightarrow> byte" where
  "take8 d = of_int d"

definition store_int :: "nat \<Rightarrow> int \<Rightarrow> bytes" where
  "store_int k d = store_be k (nat (d mod 256 ^ k))"

definition pack_imp_uint32 :: "int \<Rightarrow> bytes" where
  "pack_imp_uint32 d =
     (if d < 2 ^ 8 then
        (if d < 2 ^ 7 then [take8 d] else [0xcc, take8 d])
      else
        (if d < 2 ^ 16 then 0xcd # store_int 2 d else 0xce # store_int 4 d))"

definition pack_imp_uint64 :: "int \<Rightarrow> bytes" where
  "pack_imp_uint64 d =
     (if d < 2 ^ 8 then
        (if d < 2 ^ 7 then [take8 d] else [0xcc, take8 d])
      else
        (if d < 2 ^ 16 then 0xcd # store_int 2 d
         else if d < 2 ^ 32 then 0xce # store_int 4 d
         else 0xcf # store_int 8 d))"

definition pack_imp_int32 :: "int \<Rightarrow> bytes" where
  "pack_imp_int32 d =
     (if d < - (2 ^ 5) then
        (if d < - (2 ^ 15) then 0xd2 # store_int 4 d
         else if d < - (2 ^ 7) then 0xd1 # store_int 2 d
         else [0xd0, take8 d])
      else if d < 2 ^ 7 then [take8 d]
      else
        (if d < 2 ^ 8 then [0xcc, take8 d]
         else if d < 2 ^ 16 then 0xcd # store_int 2 d
         else 0xce # store_int 4 d))"

definition pack_imp_int64 :: "int \<Rightarrow> bytes" where
  "pack_imp_int64 d =
     (if d < - (2 ^ 5) then
        (if d < - (2 ^ 15) then
           (if d < - (2 ^ 31) then 0xd3 # store_int 8 d else 0xd2 # store_int 4 d)
         else
           (if d < - (2 ^ 7) then 0xd1 # store_int 2 d else [0xd0, take8 d]))
      else if d < 2 ^ 7 then [take8 d]
      else
        (if d < 2 ^ 16 then
           (if d < 2 ^ 8 then [0xcc, take8 d] else 0xcd # store_int 2 d)
         else
           (if d < 2 ^ 32 then 0xce # store_int 4 d else 0xcf # store_int 8 d)))"

definition pack_nil :: bytes where
  "pack_nil = [0xc0]"

definition pack_true :: bytes where
  "pack_true = [0xc3]"

definition pack_false :: bytes where
  "pack_false = [0xc2]"

definition pack_float :: "u32 \<Rightarrow> bytes" where
  "pack_float d = 0xca # store32 (unat d)"

definition pack_double :: "u64 \<Rightarrow> bytes" where
  "pack_double d = 0xcb # store64 (unat d)"

text \<open>Headers: the argument is the \<open>uint32_t\<close> length.\<close>

definition pack_array :: "nat \<Rightarrow> bytes" where
  "pack_array n =
     (if n < 16 then [or 0x90 (of_nat n)]
      else if n < 65536 then 0xdc # store16 n
      else 0xdd # store32 n)"

definition pack_map :: "nat \<Rightarrow> bytes" where
  "pack_map n =
     (if n < 16 then [or 0x80 (of_nat n)]
      else if n < 65536 then 0xde # store16 n
      else 0xdf # store32 n)"

definition pack_str :: "nat \<Rightarrow> bytes" where
  "pack_str l =
     (if l < 32 then [or 0xa0 (of_nat l)]
      else if l < 256 then [0xd9, of_nat l]
      else if l < 65536 then 0xda # store16 l
      else 0xdb # store32 l)"

definition pack_bin :: "nat \<Rightarrow> bytes" where
  "pack_bin l =
     (if l < 256 then [0xc4, of_nat l]
      else if l < 65536 then 0xc5 # store16 l
      else 0xc6 # store32 l)"

definition pack_ext :: "nat \<Rightarrow> byte \<Rightarrow> bytes" where
  "pack_ext l ty =
     (if l = 1 then [0xd4, ty]
      else if l = 2 then [0xd5, ty]
      else if l = 4 then [0xd6, ty]
      else if l = 8 then [0xd7, ty]
      else if l = 16 then [0xd8, ty]
      else if l < 256 then [0xc7, of_nat l, ty]
      else if l < 65536 then 0xc8 # store16 l @ [ty]
      else 0xc9 # store32 l @ [ty])"

section \<open>Visits\<close>

text \<open>
  The calls a parser makes on its visitor. \<open>visit_str\<close>, \<open>visit_bin\<close> and \<open>visit_ext\<close>
  carry the bytes their pointer and size denote.
\<close>

datatype visit =
    visit_nil
  | visit_boolean bool
  | visit_positive_integer u64
  | visit_negative_integer u64
  | visit_float32 u32
  | visit_float64 u64
  | visit_str bytes
  | visit_bin bytes
  | visit_ext bytes
  | start_array u32
  | start_array_item
  | end_array_item
  | end_array
  | start_map u32
  | start_map_key
  | end_map_key
  | start_map_value
  | end_map_value
  | end_map

text \<open>The visits of a whole object, in the order \<open>object_parser::parse\<close> makes them.\<close>

fun visits :: "mobj \<Rightarrow> visit list" where
  "visits NIL = [visit_nil]"
| "visits (BOOLEAN b) = [visit_boolean b]"
| "visits (POSITIVE_INTEGER v) = [visit_positive_integer v]"
| "visits (NEGATIVE_INTEGER v) = [visit_negative_integer v]"
| "visits (FLOAT32 v) = [visit_float32 v]"
| "visits (FLOAT64 v) = [visit_float64 v]"
| "visits (STRING s) = [visit_str s]"
| "visits (BIN s) = [visit_bin s]"
| "visits (EXT s) = [visit_ext s]"
| "visits (ARRAY os) =
     start_array (of_nat (length os)) #
       concat (map (\<lambda>o'. start_array_item # visits o' @ [end_array_item]) os) @ [end_array]"
| "visits (MAP kvs) =
     start_map (of_nat (length kvs)) #
       concat (map (\<lambda>(k, v). start_map_key # visits k @ [end_map_key] @
                              start_map_value # visits v @ [end_map_value]) kvs) @ [end_map]"

fun object_pack_visitor :: "visit \<Rightarrow> bytes" where
  "object_pack_visitor visit_nil = pack_nil"
| "object_pack_visitor (visit_boolean v) = (if v then pack_true else pack_false)"
| "object_pack_visitor (visit_positive_integer v) = pack_imp_uint64 (uint v)"
| "object_pack_visitor (visit_negative_integer v) = pack_imp_int64 (sint v)"
| "object_pack_visitor (visit_float32 v) = pack_float v"
| "object_pack_visitor (visit_float64 v) = pack_double v"
| "object_pack_visitor (visit_str v) = pack_str (length v) @ v"
| "object_pack_visitor (visit_bin v) = pack_bin (length v) @ v"
| "object_pack_visitor (visit_ext v) = pack_ext (length v - 1) (hd v) @ tl v"
| "object_pack_visitor (start_array n) = pack_array (unat n)"
| "object_pack_visitor (start_map n) = pack_map (unat n)"
| "object_pack_visitor _ = []"

definition pack_object :: "mobj \<Rightarrow> bytes" where
  "pack_object ob = concat (map object_pack_visitor (visits ob))"

text \<open>
  Objects the wire format can hold: lengths fit 32 bits, an extension has its type byte, and a
  \<open>NEGATIVE_INTEGER\<close> is negative, as \<open>visit_negative_integer\<close> makes it.
\<close>

fun wf_mobj :: "mobj \<Rightarrow> bool" where
  "wf_mobj (NEGATIVE_INTEGER v) = (sint v < 0)"
| "wf_mobj (STRING s) = (length s < 2 ^ 32)"
| "wf_mobj (BIN s) = (length s < 2 ^ 32)"
| "wf_mobj (EXT s) = (s \<noteq> [] \<and> length s < 2 ^ 32)"
| "wf_mobj (ARRAY xs) = (length xs < 2 ^ 32 \<and> (\<forall>x \<in> set xs. wf_mobj x))"
| "wf_mobj (MAP kvs) =
     (length kvs < 2 ^ 32 \<and> (\<forall>kv \<in> set kvs. wf_mobj (fst kv) \<and> wf_mobj (snd kv)))"
| "wf_mobj _ = True"

end
