(* ===== verification/Msgpack_Parse.thy ===== *)
theory Msgpack_Parse
  imports Msgpack_Object
begin

text \<open>
  The incremental MessagePack parser of msgpack-c that \<open>msgpack::parse\<close> and
  \<open>msgpack::unpack\<close> run (\<^verbatim>\<open>extern/msgpack-c/include/msgpack/v3/parse.hpp\<close>,
  \<^verbatim>\<open>v2/null_visitor.hpp\<close>, \<^verbatim>\<open>v2/create_object_visitor.hpp\<close>,
  \<^verbatim>\<open>v3/unpack.hpp\<close>).

  The loop of \<open>context::execute\<close> is a step function on parser states: the state of the
  automaton \<open>m_cs\<close>, the number \<open>m_trail\<close> of bytes it waits for, the stack of open
  containers (top first), the visitor's own state, the position \<open>m_current - m_start\<close> and the
  flag \<open>fixed_trail_again\<close>. A visitor is a function on visits that may throw and that answers
  whether to go on. The copy of the parser in \<^verbatim>\<open>v2/parse.hpp\<close>, which
  \<open>unpack\<close> uses, differs only in the offset it reports when a visitor stops the parse,
  and no caller here reads that offset.
\<close>

section \<open>The automaton\<close>

datatype unpack_state =
    CS_HEADER
  | CS_BIN_8 | CS_BIN_16 | CS_BIN_32
  | CS_EXT_8 | CS_EXT_16 | CS_EXT_32
  | CS_FLOAT | CS_DOUBLE
  | CS_UINT_8 | CS_UINT_16 | CS_UINT_32 | CS_UINT_64
  | CS_INT_8 | CS_INT_16 | CS_INT_32 | CS_INT_64
  | CS_FIXEXT_1 | CS_FIXEXT_2 | CS_FIXEXT_4 | CS_FIXEXT_8 | CS_FIXEXT_16
  | CS_STR_8 | CS_STR_16 | CS_STR_32
  | CS_ARRAY_16 | CS_ARRAY_32 | CS_MAP_16 | CS_MAP_32
  | ACS_STR_VALUE | ACS_BIN_VALUE | ACS_EXT_VALUE
  | CS_UNUSED

datatype container_type = CT_ARRAY_ITEM | CT_MAP_KEY | CT_MAP_VALUE

datatype parse_return =
  PARSE_SUCCESS | PARSE_EXTRA_BYTES | PARSE_CONTINUE | PARSE_PARSE_ERROR | PARSE_STOP_VISITOR

text \<open>\<open>next_cs\<close> masks the header byte with \<open>0x1f\<close>; the codes 1 to 3 have no state.\<close>

definition next_cs :: "byte \<Rightarrow> unpack_state" where
  "next_cs p =
     [CS_HEADER, CS_UNUSED, CS_UNUSED, CS_UNUSED, CS_BIN_8, CS_BIN_16, CS_BIN_32,
      CS_EXT_8, CS_EXT_16, CS_EXT_32, CS_FLOAT, CS_DOUBLE,
      CS_UINT_8, CS_UINT_16, CS_UINT_32, CS_UINT_64,
      CS_INT_8, CS_INT_16, CS_INT_32, CS_INT_64,
      CS_FIXEXT_1, CS_FIXEXT_2, CS_FIXEXT_4, CS_FIXEXT_8, CS_FIXEXT_16,
      CS_STR_8, CS_STR_16, CS_STR_32,
      CS_ARRAY_16, CS_ARRAY_32, CS_MAP_16, CS_MAP_32] ! unat (and p 0x1f)"

definition trail_table :: "nat list" where
  "trail_table =
     [1, 2, 4, 1, 2, 4, 4, 8, 1, 2, 4, 8, 1, 2, 4, 8, 2, 3, 5, 9, 17, 1, 2, 4, 2, 4, 2, 4]"

type_synonym unpack_stack = "(container_type \<times> u32) list"

record 'v visitor =
  on_visit :: "'v \<Rightarrow> visit \<Rightarrow> ('v \<times> bool) result"
  on_parse_error :: "'v \<Rightarrow> 'v result"
  on_insufficient_bytes :: "'v \<Rightarrow> 'v result"

text \<open>
  \<open>unpack_stack::consume\<close>: an item is complete; containers it completes are closed. The result
  has the visitor, the stack, the position (moved back when a closing visit stops the parse) and
  the code.
\<close>

fun consume :: "'v visitor \<Rightarrow> unpack_stack \<Rightarrow> 'v \<Rightarrow> nat \<Rightarrow>
    ('v \<times> unpack_stack \<times> nat \<times> parse_return) result" where
  "consume vis [] v cur = Inr (v, [], cur, PARSE_SUCCESS)"
| "consume vis ((CT_ARRAY_ITEM, rest) # st) v cur =
     bindR (on_visit vis v end_array_item) (\<lambda>(v, ok).
     if \<not> ok then Inr (v, (CT_ARRAY_ITEM, rest) # st, cur - 1, PARSE_STOP_VISITOR)
     else if rest - 1 = 0 then
       bindR (on_visit vis v end_array) (\<lambda>(v, ok).
       if \<not> ok then Inr (v, st, cur - 1, PARSE_STOP_VISITOR)
       else consume vis st v cur)
     else
       bindR (on_visit vis v start_array_item) (\<lambda>(v, ok).
       Inr (v, (CT_ARRAY_ITEM, rest - 1) # st, cur,
            if ok then PARSE_CONTINUE else PARSE_STOP_VISITOR)))"
| "consume vis ((CT_MAP_KEY, rest) # st) v cur =
     bindR (on_visit vis v end_map_key) (\<lambda>(v, ok).
     if \<not> ok then Inr (v, (CT_MAP_KEY, rest) # st, cur - 1, PARSE_STOP_VISITOR)
     else
       bindR (on_visit vis v start_map_value) (\<lambda>(v, ok).
       if \<not> ok then Inr (v, (CT_MAP_KEY, rest) # st, cur, PARSE_STOP_VISITOR)
       else Inr (v, (CT_MAP_VALUE, rest) # st, cur, PARSE_CONTINUE)))"
| "consume vis ((CT_MAP_VALUE, rest) # st) v cur =
     bindR (on_visit vis v end_map_value) (\<lambda>(v, ok).
     if \<not> ok then Inr (v, (CT_MAP_VALUE, rest) # st, cur - 1, PARSE_STOP_VISITOR)
     else if rest - 1 = 0 then
       bindR (on_visit vis v end_map) (\<lambda>(v, ok).
       if \<not> ok then Inr (v, st, cur - 1, PARSE_STOP_VISITOR)
       else consume vis st v cur)
     else
       bindR (on_visit vis v start_map_key) (\<lambda>(v, ok).
       Inr (v, (CT_MAP_KEY, rest - 1) # st, cur,
            if ok then PARSE_CONTINUE else PARSE_STOP_VISITOR)))"

datatype 'v pstate =
    Run unpack_state nat unpack_stack 'v nat bool
  | Done parse_return nat 'v
  | Failed failure

fun is_run :: "'v pstate \<Rightarrow> bool" where
  "is_run (Run cs trail st v cur again) = True"
| "is_run _ = False"

text \<open>
  The iteration ends at a header: \<open>m_trail\<close> is dead there, since every branch that needs it
  assigns it first, and 0 stands for it.
\<close>

definition finish_consume ::
    "('v \<times> unpack_stack \<times> nat \<times> parse_return) result \<Rightarrow> 'v pstate" where
  "finish_consume r =
     (case r of
        Inl e \<Rightarrow> Failed e
      | Inr (v, st, cur, ret) \<Rightarrow>
          if ret = PARSE_CONTINUE then Run CS_HEADER 0 st v (cur + 1) False
          else Done ret (cur + 1) v)"

definition after_visit_proc ::
    "'v visitor \<Rightarrow> unpack_stack \<Rightarrow> nat \<Rightarrow> ('v \<times> bool) result \<Rightarrow> 'v pstate" where
  "after_visit_proc vis st cur visit_result =
     (case visit_result of
        Inl e \<Rightarrow> Failed e
      | Inr (v, ok) \<Rightarrow>
          if \<not> ok then Done PARSE_STOP_VISITOR cur v
          else finish_consume (consume vis st v cur))"

text \<open>\<open>unpack_stack::push\<close> tells the visitor that the first item begins; it is never
  called for a map value.\<close>

fun first_item :: "container_type \<Rightarrow> visit" where
  "first_item CT_ARRAY_ITEM = start_array_item"
| "first_item CT_MAP_KEY = start_map_key"
| "first_item CT_MAP_VALUE = start_map_value"

definition start_aggregate ::
    "'v visitor \<Rightarrow> unpack_stack \<Rightarrow> 'v \<Rightarrow> nat \<Rightarrow> container_type \<Rightarrow> visit \<Rightarrow> visit \<Rightarrow> u32 \<Rightarrow>
     'v pstate" where
  "start_aggregate vis st v cur ty sv ev sz =
     (case on_visit vis v sv of
        Inl e \<Rightarrow> Failed e
      | Inr (v, ok) \<Rightarrow>
          if \<not> ok then Done PARSE_STOP_VISITOR cur v
          else if sz = 0 then
            (case on_visit vis v ev of
               Inl e \<Rightarrow> Failed e
             | Inr (v, ok) \<Rightarrow>
                 if \<not> ok then Done PARSE_STOP_VISITOR cur v
                 else finish_consume (consume vis st v cur))
          else
            (case on_visit vis v (first_item ty) of
               Inl e \<Rightarrow> Failed e
             | Inr (v, ok) \<Rightarrow>
                 if \<not> ok then Done PARSE_STOP_VISITOR (cur + 1) v
                 else Run CS_HEADER 0 ((ty, sz) # st) v (cur + 1) False))"

definition report_parse_error :: "'v visitor \<Rightarrow> 'v \<Rightarrow> nat \<Rightarrow> 'v pstate" where
  "report_parse_error vis v cur =
     (case on_parse_error vis v of Inl e \<Rightarrow> Failed e | Inr v \<Rightarrow> Done PARSE_PARSE_ERROR cur v)"

definition load_at :: "bytes \<Rightarrow> nat \<Rightarrow> nat \<Rightarrow> nat" where
  "load_at d n k = load_be (take k (drop n d))"

definition bytes_at :: "bytes \<Rightarrow> nat \<Rightarrow> nat \<Rightarrow> bytes" where
  "bytes_at d n k = take k (drop n d)"

text \<open>
  The length of a string, binary or extension is known: either the value is empty and visited at
  once, or the automaton waits for its bytes.
\<close>

definition body_length ::
    "'v visitor \<Rightarrow> unpack_stack \<Rightarrow> 'v \<Rightarrow> nat \<Rightarrow> visit \<Rightarrow> unpack_state \<Rightarrow> nat \<Rightarrow> 'v pstate" where
  "body_length vis st v cur empty_visit acs trail =
     (if trail = 0 then after_visit_proc vis st cur (on_visit vis v empty_visit)
      else Run acs trail st v cur True)"

text \<open>
  The second half of the loop body: \<open>m_trail\<close> bytes at position \<open>n\<close> are needed. \<open>sext\<close>
  is the conversion of a signed integer of \<open>k\<close> bytes to \<open>int64_t\<close>.
\<close>

definition sext :: "nat \<Rightarrow> nat \<Rightarrow> u64" where
  "sext k x = (if x < 2 ^ (8 * k - 1) then of_nat x else of_int (int x - 2 ^ (8 * k)))"

definition trail_step ::
    "'v visitor \<Rightarrow> bytes \<Rightarrow> unpack_state \<Rightarrow> nat \<Rightarrow> unpack_stack \<Rightarrow> 'v \<Rightarrow> nat \<Rightarrow> 'v pstate" where
  "trail_step vis d cs trail st v n =
     (if length d - n < trail then Done PARSE_CONTINUE n v
      else
        let cur = n + trail - 1;
            value = (\<lambda>w. after_visit_proc vis st cur (on_visit vis v w));
            body = body_length vis st v cur;
            size32 = trail mod 2 ^ 32
        in
        (case cs of
           CS_FLOAT \<Rightarrow> value (visit_float32 (of_nat (load_at d n 4)))
         | CS_DOUBLE \<Rightarrow> value (visit_float64 (of_nat (load_at d n 8)))
         | CS_UINT_8 \<Rightarrow> value (visit_positive_integer (of_nat (load_at d n 1)))
         | CS_UINT_16 \<Rightarrow> value (visit_positive_integer (of_nat (load_at d n 2)))
         | CS_UINT_32 \<Rightarrow> value (visit_positive_integer (of_nat (load_at d n 4)))
         | CS_UINT_64 \<Rightarrow> value (visit_positive_integer (of_nat (load_at d n 8)))
         | CS_INT_8 \<Rightarrow> value (visit_negative_integer (sext 1 (load_at d n 1)))
         | CS_INT_16 \<Rightarrow> value (visit_negative_integer (sext 2 (load_at d n 2)))
         | CS_INT_32 \<Rightarrow> value (visit_negative_integer (sext 4 (load_at d n 4)))
         | CS_INT_64 \<Rightarrow> value (visit_negative_integer (sext 8 (load_at d n 8)))
         | CS_FIXEXT_1 \<Rightarrow> value (visit_ext (bytes_at d n (1 + 1)))
         | CS_FIXEXT_2 \<Rightarrow> value (visit_ext (bytes_at d n (2 + 1)))
         | CS_FIXEXT_4 \<Rightarrow> value (visit_ext (bytes_at d n (4 + 1)))
         | CS_FIXEXT_8 \<Rightarrow> value (visit_ext (bytes_at d n (8 + 1)))
         | CS_FIXEXT_16 \<Rightarrow> value (visit_ext (bytes_at d n (16 + 1)))
         | CS_STR_8 \<Rightarrow> body (visit_str []) ACS_STR_VALUE (load_at d n 1)
         | CS_BIN_8 \<Rightarrow> body (visit_bin []) ACS_BIN_VALUE (load_at d n 1)
         | CS_EXT_8 \<Rightarrow> body (visit_ext []) ACS_EXT_VALUE (load_at d n 1 + 1)
         | CS_STR_16 \<Rightarrow> body (visit_str []) ACS_STR_VALUE (load_at d n 2)
         | CS_BIN_16 \<Rightarrow> body (visit_bin []) ACS_BIN_VALUE (load_at d n 2)
         | CS_EXT_16 \<Rightarrow> body (visit_ext []) ACS_EXT_VALUE (load_at d n 2 + 1)
         | CS_STR_32 \<Rightarrow> body (visit_str []) ACS_STR_VALUE (load_at d n 4)
         | CS_BIN_32 \<Rightarrow> body (visit_bin []) ACS_BIN_VALUE (load_at d n 4)
         | CS_EXT_32 \<Rightarrow> body (visit_ext []) ACS_EXT_VALUE (load_at d n 4 + 1)
         | ACS_STR_VALUE \<Rightarrow> value (visit_str (bytes_at d n size32))
         | ACS_BIN_VALUE \<Rightarrow> value (visit_bin (bytes_at d n size32))
         | ACS_EXT_VALUE \<Rightarrow> value (visit_ext (bytes_at d n size32))
         | CS_ARRAY_16 \<Rightarrow>
             start_aggregate vis st v cur CT_ARRAY_ITEM
               (start_array (of_nat (load_at d n 2))) end_array (of_nat (load_at d n 2))
         | CS_ARRAY_32 \<Rightarrow>
             start_aggregate vis st v cur CT_ARRAY_ITEM
               (start_array (of_nat (load_at d n 4))) end_array (of_nat (load_at d n 4))
         | CS_MAP_16 \<Rightarrow>
             start_aggregate vis st v cur CT_MAP_KEY
               (start_map (of_nat (load_at d n 2))) end_map (of_nat (load_at d n 2))
         | CS_MAP_32 \<Rightarrow>
             start_aggregate vis st v cur CT_MAP_KEY
               (start_map (of_nat (load_at d n 4))) end_map (of_nat (load_at d n 4))
         | CS_HEADER \<Rightarrow> report_parse_error vis v cur
         | CS_UNUSED \<Rightarrow> report_parse_error vis v cur))"

text \<open>
  The first half: the header byte \<open>sel\<close> at position \<open>cur\<close> either completes a value or says
  what to wait for.
\<close>

definition header_step ::
    "'v visitor \<Rightarrow> bytes \<Rightarrow> unpack_stack \<Rightarrow> 'v \<Rightarrow> nat \<Rightarrow> byte \<Rightarrow> 'v pstate" where
  "header_step vis d st v cur sel =
     (let value = (\<lambda>w. after_visit_proc vis st cur (on_visit vis v w)) in
      if sel \<le> 0x7f then value (visit_positive_integer (ucast sel))
      else if 0xe0 \<le> sel then value (visit_negative_integer (scast sel))
      else if 0xc4 \<le> sel \<and> sel \<le> 0xdf then
        trail_step vis d (next_cs sel) (trail_table ! unat (sel - 0xc4)) st v (cur + 1)
      else if 0xa0 \<le> sel \<and> sel \<le> 0xbf then
        (if unat (and sel 0x1f) = 0 then
           after_visit_proc vis st cur (on_visit vis v (visit_str []))
         else trail_step vis d ACS_STR_VALUE (unat (and sel 0x1f)) st v (cur + 1))
      else if 0x90 \<le> sel \<and> sel \<le> 0x9f then
        start_aggregate vis st v cur CT_ARRAY_ITEM
          (start_array (ucast (and sel 0x0f))) end_array (ucast (and sel 0x0f))
      else if 0x80 \<le> sel \<and> sel \<le> 0x8f then
        start_aggregate vis st v cur CT_MAP_KEY
          (start_map (ucast (and sel 0x0f))) end_map (ucast (and sel 0x0f))
      else if sel = 0xc2 then value (visit_boolean False)
      else if sel = 0xc3 then value (visit_boolean True)
      else if sel = 0xc0 then value visit_nil
      else report_parse_error vis v cur)"

text \<open>The test \<open>m_current != pe\<close> at the end of the loop body.\<close>

fun loop_check :: "nat \<Rightarrow> 'v pstate \<Rightarrow> 'v pstate" where
  "loop_check pe (Run cs trail st v cur again) =
     (if cur = pe then Done PARSE_CONTINUE cur v else Run cs trail st v cur again)"
| "loop_check pe s = s"

definition exec_step :: "'v visitor \<Rightarrow> bytes \<Rightarrow> 'v pstate \<Rightarrow> 'v pstate" where
  "exec_step vis d s =
     (case s of
        Run cs trail st v cur again \<Rightarrow>
          loop_check (length d)
            (if cs = CS_HEADER then header_step vis d st v cur (d ! cur)
             else trail_step vis d cs trail st v (if again then cur + 1 else cur))
      | _ \<Rightarrow> s)"

definition exec_loop :: "'v visitor \<Rightarrow> bytes \<Rightarrow> 'v pstate \<Rightarrow> 'v pstate option" where
  "exec_loop vis d s = while_option is_run (exec_step vis d) s"

definition execute :: "'v visitor \<Rightarrow> bytes \<Rightarrow> nat \<Rightarrow> 'v \<Rightarrow> (parse_return \<times> nat \<times> 'v) result" where
  "execute vis d off v =
     (if off = length d then Inr (PARSE_CONTINUE, off, v)
      else
        (case exec_loop vis d (Run CS_HEADER 0 [] v off False) of
           Some (Done ret off v) \<Rightarrow> Inr (ret, off, v)
         | Some (Failed e) \<Rightarrow> Inl e
         | _ \<Rightarrow> Inl Diverges))"

definition parse_imp :: "'v visitor \<Rightarrow> bytes \<Rightarrow> nat \<Rightarrow> 'v \<Rightarrow> (parse_return \<times> nat \<times> 'v) result" where
  "parse_imp vis d off v =
     (if length d \<le> off then
        bindR (on_insufficient_bytes vis v) (\<lambda>v. Inr (PARSE_CONTINUE, off, v))
      else
        bindR (execute vis d off v) (\<lambda>(ret, noff, v).
          (case ret of
             PARSE_CONTINUE \<Rightarrow> bindR (on_insufficient_bytes vis v) (\<lambda>v. Inr (ret, noff, v))
           | PARSE_SUCCESS \<Rightarrow>
               Inr (if noff < length d then PARSE_EXTRA_BYTES else ret, noff, v)
           | _ \<Rightarrow> Inr (ret, noff, v))))"

text \<open>\<open>msgpack::parse\<close> answers whether an object was parsed, and the offset behind it.\<close>

definition msgpack_parse :: "'v visitor \<Rightarrow> bytes \<Rightarrow> nat \<Rightarrow> 'v \<Rightarrow> (bool \<times> nat \<times> 'v) result" where
  "msgpack_parse vis d off v =
     bindR (parse_imp vis d off v) (\<lambda>(ret, off, v).
       Inr (ret = PARSE_SUCCESS \<or> ret = PARSE_EXTRA_BYTES, off, v))"

section \<open>One iteration\<close>

lemma exec_loop_run: "is_run s \<Longrightarrow> exec_loop vis d s = exec_loop vis d (exec_step vis d s)"
  unfolding exec_loop_def by (subst while_option_unfold) simp

lemma exec_loop_done: "\<not> is_run s \<Longrightarrow> exec_loop vis d s = Some s"
  unfolding exec_loop_def by (subst while_option_unfold) simp

lemma exec_loop_header:
  "exec_loop vis d (Run CS_HEADER trail st v cur again) =
   exec_loop vis d (loop_check (length d) (header_step vis d st v cur (d ! cur)))"
  by (simp add: exec_loop_run exec_step_def)

lemma exec_loop_trail:
  "cs \<noteq> CS_HEADER \<Longrightarrow> exec_loop vis d (Run cs trail st v cur True) =
   exec_loop vis d (loop_check (length d) (trail_step vis d cs trail st v (cur + 1)))"
  by (simp add: exec_loop_run exec_step_def)

lemma header_step_trail:
  "header_step vis d st v cur 0xc4 = trail_step vis d CS_BIN_8 1 st v (cur + 1)"
  "header_step vis d st v cur 0xc5 = trail_step vis d CS_BIN_16 2 st v (cur + 1)"
  "header_step vis d st v cur 0xc6 = trail_step vis d CS_BIN_32 4 st v (cur + 1)"
  "header_step vis d st v cur 0xc7 = trail_step vis d CS_EXT_8 1 st v (cur + 1)"
  "header_step vis d st v cur 0xc8 = trail_step vis d CS_EXT_16 2 st v (cur + 1)"
  "header_step vis d st v cur 0xc9 = trail_step vis d CS_EXT_32 4 st v (cur + 1)"
  "header_step vis d st v cur 0xca = trail_step vis d CS_FLOAT 4 st v (cur + 1)"
  "header_step vis d st v cur 0xcb = trail_step vis d CS_DOUBLE 8 st v (cur + 1)"
  "header_step vis d st v cur 0xcc = trail_step vis d CS_UINT_8 1 st v (cur + 1)"
  "header_step vis d st v cur 0xcd = trail_step vis d CS_UINT_16 2 st v (cur + 1)"
  "header_step vis d st v cur 0xce = trail_step vis d CS_UINT_32 4 st v (cur + 1)"
  "header_step vis d st v cur 0xcf = trail_step vis d CS_UINT_64 8 st v (cur + 1)"
  "header_step vis d st v cur 0xd0 = trail_step vis d CS_INT_8 1 st v (cur + 1)"
  "header_step vis d st v cur 0xd1 = trail_step vis d CS_INT_16 2 st v (cur + 1)"
  "header_step vis d st v cur 0xd2 = trail_step vis d CS_INT_32 4 st v (cur + 1)"
  "header_step vis d st v cur 0xd3 = trail_step vis d CS_INT_64 8 st v (cur + 1)"
  "header_step vis d st v cur 0xd4 = trail_step vis d CS_FIXEXT_1 2 st v (cur + 1)"
  "header_step vis d st v cur 0xd5 = trail_step vis d CS_FIXEXT_2 3 st v (cur + 1)"
  "header_step vis d st v cur 0xd6 = trail_step vis d CS_FIXEXT_4 5 st v (cur + 1)"
  "header_step vis d st v cur 0xd7 = trail_step vis d CS_FIXEXT_8 9 st v (cur + 1)"
  "header_step vis d st v cur 0xd8 = trail_step vis d CS_FIXEXT_16 17 st v (cur + 1)"
  "header_step vis d st v cur 0xd9 = trail_step vis d CS_STR_8 1 st v (cur + 1)"
  "header_step vis d st v cur 0xda = trail_step vis d CS_STR_16 2 st v (cur + 1)"
  "header_step vis d st v cur 0xdb = trail_step vis d CS_STR_32 4 st v (cur + 1)"
  "header_step vis d st v cur 0xdc = trail_step vis d CS_ARRAY_16 2 st v (cur + 1)"
  "header_step vis d st v cur 0xdd = trail_step vis d CS_ARRAY_32 4 st v (cur + 1)"
  "header_step vis d st v cur 0xde = trail_step vis d CS_MAP_16 2 st v (cur + 1)"
  "header_step vis d st v cur 0xdf = trail_step vis d CS_MAP_32 4 st v (cur + 1)"
  by (simp_all add: header_step_def next_cs_def trail_table_def Let_def)

lemma header_step_simple:
  "header_step vis d st v cur 0xc0 = after_visit_proc vis st cur (on_visit vis v visit_nil)"
  "header_step vis d st v cur 0xc2 = after_visit_proc vis st cur (on_visit vis v (visit_boolean False))"
  "header_step vis d st v cur 0xc3 = after_visit_proc vis st cur (on_visit vis v (visit_boolean True))"
  by (simp_all add: header_step_def Let_def)

section \<open>Visiting a sequence\<close>

fun run_visits :: "'v visitor \<Rightarrow> 'v \<Rightarrow> visit list \<Rightarrow> ('v \<times> bool) result" where
  "run_visits vis v [] = Inr (v, True)"
| "run_visits vis v (w # ws) =
     bindR (on_visit vis v w) (\<lambda>(v, ok). if ok then run_visits vis v ws else Inr (v, False))"

lemma run_visits_Cons:
  "run_visits vis v (w # ws) = Inr (v', True) \<longleftrightarrow>
   (\<exists>u. on_visit vis v w = Inr (u, True) \<and> run_visits vis u ws = Inr (v', True))"
  by (auto simp: bindR_eq_Inr split: if_splits prod.splits)

lemma run_visits_append:
  "run_visits vis v (ws @ xs) = Inr (v', True) \<longleftrightarrow>
   (\<exists>u. run_visits vis v ws = Inr (u, True) \<and> run_visits vis u xs = Inr (v', True))"
proof (induction ws arbitrary: v)
  case Nil
  then show ?case by simp
next
  case (Cons w ws)
  then show ?case by (simp only: append_Cons run_visits_Cons) blast
qed

declare run_visits.simps(2) [simp del]

end
