(* ===== verification/Msgpack_Wire.thy ===== *)
theory Msgpack_Wire
  imports Msgpack_Parse
begin

text \<open>
  The parser reads back what the packer wrote: from a header state in front of the bytes of a
  well-formed object, the loop arrives behind them, having made exactly the visits of the object,
  whatever the visitor, the open containers and the bytes that follow. \<open>value_done\<close> names the
  rest of the loop's run once a value that ends in front of position \<open>nxt\<close> has been visited.
\<close>

lemma ucast_take8:
  assumes "uint (v::u64) < 256"
  shows "ucast (take8 (uint v)) = v"
proof -
  have "ucast (take8 x) = (of_int x :: u64)" if "0 \<le> x" "x < 256" for x
    using that by (simp add: take8_def ucast_eq uint_word_of_int)
  from this [of "uint v"] assms show ?thesis by simp
qed

lemma take8_le: "0 \<le> x \<Longrightarrow> x < 128 \<Longrightarrow> take8 x \<le> 0x7f"
  by (simp add: take8_def word_le_def uint_word_of_int)

lemma word_of_int_sint [simp]: "word_of_int (sint (v :: u64)) = v"
  by (metis scast_eq scast_id)

lemma scast_take8:
  assumes "- 128 \<le> sint (v::u64)" and "sint v < 128"
  shows "scast (take8 (sint v)) = v"
proof -
  have "sint (take8 x) = x" if "- 128 \<le> x" "x < 128" for x
    using that by (simp add: take8_def sint_sbintrunc' signed_take_bit_int_eq_self)
  from this [of "sint v"] assms show ?thesis by (simp add: scast_eq)
qed

lemma mod_negative:
  fixes x :: int
  assumes "- m \<le> x" and "x < 0"
  shows "x mod m = x + m"
proof -
  have "(x + m) mod m = x + m" using assms by (intro mod_pos_pos_trivial) auto
  then show ?thesis by simp
qed

lemma take8_ge:
  assumes "- 32 \<le> x" and "x < 0"
  shows "0xe0 \<le> take8 x" and "\<not> take8 x \<le> 0x7f"
  using assms mod_negative [of 256 x] by (simp_all add: take8_def word_le_def uint_word_of_int)

lemma sext_store:
  assumes "- (2 ^ (8 * k - 1)) \<le> sint (v::u64)" and "sint v < 0" and "0 < k"
  shows "sext k (load_be (store_int k (sint v))) = v"
proof -
  define m :: int where "m = 2 ^ (8 * k - 1)"
  have e: "(2::int) ^ (8 * k) = 2 * m"
    using assms(3) unfolding m_def by (metis Suc_diff_1 mult_pos_pos power_Suc zero_less_numeral)
  have m256: "(256::int) ^ k = 2 * m" using e by (simp add: power_mult)
  have b: "- m \<le> sint v" using assms(1) by (simp add: m_def)
  have "sint v mod (256 ^ k) = sint v + 2 * m"
    unfolding m256 by (rule mod_negative) (use assms b in linarith)+
  then have l: "load_be (store_int k (sint v)) = nat (sint v + 2 * m)"
    using assms(2) b by (simp add: store_int_def nat_mod_distrib [symmetric] flip: m256)
  have "nat m = 2 ^ (8 * k - 1)" by (simp add: m_def nat_power_eq)
  then have "\<not> nat (sint v + 2 * m) < 2 ^ (8 * k - 1)"
    using b assms(2) by linarith
  moreover have "int (nat (sint v + 2 * m)) - 2 ^ (8 * k) = sint v"
    using b assms(2) e by simp
  ultimately show ?thesis unfolding sext_def l by simp
qed


definition value_done :: "'v visitor \<Rightarrow> bytes \<Rightarrow> unpack_stack \<Rightarrow> 'v \<Rightarrow> nat \<Rightarrow> 'v pstate option" where
  "value_done vis d st v nxt =
     exec_loop vis d (loop_check (length d) (finish_consume (consume vis st v (nxt - 1))))"

lemma drop_eq_ConsD:
  assumes "drop cur d = h # xs"
  shows "d ! cur = h" and "drop (Suc cur) d = xs" and "length d = Suc cur + length xs"
proof -
  have "cur < length d" using assms by (metis drop_all list.discI not_less)
  then show "d ! cur = h" using assms by (metis nth_via_drop)
  show "drop (Suc cur) d = xs" using assms by (metis drop_Suc list.sel(3) tl_drop)
  show "length d = Suc cur + length xs"
    using assms \<open>cur < length d\<close> by (metis Suc_diff_Suc Suc_eq_plus1 add.commute add_Suc_right diff_Suc_1 le_add_diff_inverse length_drop less_imp_le length_Cons)
qed

lemma load_at_drop: "drop n d = bs @ rest \<Longrightarrow> length bs = k \<Longrightarrow> load_at d n k = load_be bs"
  by (simp add: load_at_def)

lemma bytes_at_drop: "drop n d = bs @ rest \<Longrightarrow> length bs = k \<Longrightarrow> bytes_at d n k = bs"
  by (simp add: bytes_at_def)

lemma length_store_int [simp]: "length (store_int k x) = k"
  by (simp add: store_int_def)

lemma store_int_1: "store_int (Suc 0) x = [take8 x]"
proof -
  have "(of_nat (nat (x mod 256)) :: byte) = of_int x"
    by (rule word_uint_eqI) (simp add: of_nat_nat uint_word_of_int)
  then show ?thesis by (simp add: store_int_def take8_def)
qed

lemma load_be_single [simp]: "load_be [b] = unat b"
  by (simp add: load_be_def)

lemma load_store_int:
  assumes "0 \<le> x" and "x < 256 ^ k" shows "load_be (store_int k x) = nat x"
  using assms by (simp add: store_int_def nat_less_iff)

lemma header_step_fixint:
  "sel \<le> 0x7f \<Longrightarrow> header_step vis d st v cur sel =
     after_visit_proc vis st cur (on_visit vis v (visit_positive_integer (ucast sel)))"
  "\<not> sel \<le> 0x7f \<Longrightarrow> 0xe0 \<le> sel \<Longrightarrow> header_step vis d st v cur sel =
     after_visit_proc vis st cur (on_visit vis v (visit_negative_integer (scast sel)))"
  by (simp_all add: header_step_def)

lemma trail_value:
  assumes pk: "pk = h # bs" and d: "drop cur d = pk @ rest"
    and h: "header_step vis d st v cur h = trail_step vis d cs k st v (cur + 1)"
    and k: "length bs = k" "0 < k"
    and w: "drop (Suc cur) d = bs @ rest \<Longrightarrow> length d = Suc cur + k + length rest \<Longrightarrow>
      trail_step vis d cs k st v (Suc cur) = after_visit_proc vis st (k + cur) (on_visit vis v w)"
    and acc: "on_visit vis v w = Inr (v', True)"
  shows "exec_loop vis d (Run CS_HEADER t st v cur a) = value_done vis d st v' (cur + length pk)"
proof -
  have "drop cur d = h # bs @ rest" using pk d by simp
  note d' = drop_eq_ConsD [OF this]
  from d' w k have "trail_step vis d cs k st v (Suc cur) = after_visit_proc vis st (k + cur) (on_visit vis v w)"
    by simp
  with d'(1) h acc k show ?thesis
    by (simp add: exec_loop_header value_done_def after_visit_proc_def pk add.commute)
qed

lemma fix_value:
  assumes pk: "pk = [h]" and d: "drop cur d = pk @ rest"
    and h: "header_step vis d st v cur h = after_visit_proc vis st cur (on_visit vis v w)"
    and acc: "on_visit vis v w = Inr (v', True)"
  shows "exec_loop vis d (Run CS_HEADER t st v cur a) = value_done vis d st v' (cur + length pk)"
proof -
  have "drop cur d = h # rest" using pk d by simp
  from drop_eq_ConsD(1) [OF this] h acc show ?thesis
    by (simp add: exec_loop_header value_done_def after_visit_proc_def pk)
qed

lemmas trail_simps = trail_step_def load_at_def bytes_at_def load_store_int ucast_take8

lemma exec_positive:
  assumes d: "drop cur d = pack_imp_uint64 (uint x) @ rest"
    and acc: "on_visit vis v (visit_positive_integer x) = Inr (v', True)"
  shows "exec_loop vis d (Run CS_HEADER t st v cur a) =
    value_done vis d st v' (cur + length (pack_imp_uint64 (uint x)))"
proof -
  consider "uint x < 2 ^ 7" | "2 ^ 7 \<le> uint x" "uint x < 2 ^ 8" | "2 ^ 8 \<le> uint x" "uint x < 2 ^ 16"
    | "2 ^ 16 \<le> uint x" "uint x < 2 ^ 32" | "2 ^ 32 \<le> uint x" by linarith
  then show ?thesis
  proof cases
    case 1
    then show ?thesis by (intro fix_value [OF _ d _ acc, of "take8 (uint x)"])
      (simp_all add: pack_imp_uint64_def header_step_fixint take8_le ucast_take8)
  next
    case 2
    then show ?thesis by (intro trail_value [where bs = "[take8 (uint x)]", OF _ d header_step_trail(9) _ _ _ acc])
      (simp_all add: trail_simps pack_imp_uint64_def)
  next
    case 3
    then show ?thesis by (intro trail_value [where bs = "store_int 2 (uint x)", OF _ d header_step_trail(10) _ _ _ acc])
      (simp_all add: trail_simps pack_imp_uint64_def)
  next
    case 4
    then show ?thesis by (intro trail_value [where bs = "store_int 4 (uint x)", OF _ d header_step_trail(11) _ _ _ acc])
      (simp_all add: trail_simps pack_imp_uint64_def)
  next
    case 5
    then show ?thesis using uint_lt2p [of x] by (intro trail_value [where bs = "store_int 8 (uint x)", OF _ d header_step_trail(12) _ _ _ acc])
      (simp_all add: trail_simps pack_imp_uint64_def)
  qed
qed

lemma exec_negative:
  assumes d: "drop cur d = pack_imp_int64 (sint x) @ rest" and neg: "sint x < 0"
    and acc: "on_visit vis v (visit_negative_integer x) = Inr (v', True)"
  shows "exec_loop vis d (Run CS_HEADER t st v cur a) =
    value_done vis d st v' (cur + length (pack_imp_int64 (sint x)))"
proof -
  consider "- 32 \<le> sint x" | "sint x < - 32" "- (2 ^ 7) \<le> sint x" | "sint x < - (2 ^ 7)" "- (2 ^ 15) \<le> sint x"
    | "sint x < - (2 ^ 15)" "- (2 ^ 31) \<le> sint x" | "sint x < - (2 ^ 31)" by linarith
  then show ?thesis
  proof cases
    case 1
    with neg show ?thesis by (intro fix_value [OF _ d _ acc, of "take8 (sint x)"])
      (simp_all add: pack_imp_int64_def header_step_fixint take8_ge scast_take8)
  next
    case 2
    with neg show ?thesis using sext_store [of 1 x] store_int_1 [of "sint x"] by (intro trail_value [where bs = "[take8 (sint x)]", OF _ d header_step_trail(13) _ _ _ acc])
      (simp_all add: trail_simps pack_imp_int64_def)
  next
    case 3
    with neg show ?thesis using sext_store [of 2 x] by (intro trail_value [where bs = "store_int 2 (sint x)", OF _ d header_step_trail(14) _ _ _ acc])
      (simp_all add: trail_simps pack_imp_int64_def)
  next
    case 4
    with neg show ?thesis using sext_store [of 4 x] by (intro trail_value [where bs = "store_int 4 (sint x)", OF _ d header_step_trail(15) _ _ _ acc])
      (simp_all add: trail_simps pack_imp_int64_def)
  next
    case 5
    with neg show ?thesis using sext_store [of 8 x] sint_ge [of x]
      by (intro trail_value [where bs = "store_int 8 (sint x)", OF _ d header_step_trail(16) _ _ _ acc])
      (simp_all add: trail_simps pack_imp_int64_def)
  qed
qed

lemma exec_float:
  assumes d: "drop cur d = pack_float x @ rest" 
    and acc: "on_visit vis v (visit_float32 x) = Inr (v', True)"
  shows "exec_loop vis d (Run CS_HEADER t st v cur a) =
    value_done vis d st v' (cur + length (pack_float x))"
  using unsigned_less [of x, where ?'a = nat]
  by (intro trail_value [where bs = "store_be 4 (unat x)", OF _ d header_step_trail(7) _ _ _ acc])
      (simp_all add: trail_simps pack_float_def store32_def)

lemma exec_double:
  assumes d: "drop cur d = pack_double x @ rest" 
    and acc: "on_visit vis v (visit_float64 x) = Inr (v', True)"
  shows "exec_loop vis d (Run CS_HEADER t st v cur a) =
    value_done vis d st v' (cur + length (pack_double x))"
  using unsigned_less [of x, where ?'a = nat]
  by (intro trail_value [where bs = "store_be 8 (unat x)", OF _ d header_step_trail(8) _ _ _ acc])
      (simp_all add: trail_simps pack_double_def store64_def)


lemma upt_all: "(\<forall>l \<in> set [0..<n]. P l) \<Longrightarrow> l < n \<Longrightarrow> P l" for l :: nat
  by simp

lemma fixstr_header:
  assumes "l < 32"
  shows "\<not> or 0xa0 (of_nat l) \<le> (0x7f :: byte)" "\<not> 0xe0 \<le> or 0xa0 (of_nat l :: byte)"
    "\<not> 0xc4 \<le> or 0xa0 (of_nat l :: byte)" "0xa0 \<le> or 0xa0 (of_nat l :: byte)"
    "or 0xa0 (of_nat l :: byte) \<le> 0xbf" "unat (and (or 0xa0 (of_nat l :: byte)) 0x1f) = l"
  by (rule upt_all [OF _ assms], code_simp)+

lemma fixarray_header:
  assumes "l < 16"
  shows "\<not> or 0x90 (of_nat l) \<le> (0x7f :: byte)" "\<not> 0xe0 \<le> or 0x90 (of_nat l :: byte)"
    "\<not> 0xc4 \<le> or 0x90 (of_nat l :: byte)" "\<not> 0xa0 \<le> or 0x90 (of_nat l :: byte)"
    "0x90 \<le> or 0x90 (of_nat l :: byte)"
    "or 0x90 (of_nat l :: byte) \<le> 0x9f" "ucast (and (or 0x90 (of_nat l :: byte)) 0x0f) = (of_nat l :: u32)"
  by (rule upt_all [OF _ assms], code_simp)+

lemma fixmap_header:
  assumes "l < 16"
  shows "\<not> or 0x80 (of_nat l) \<le> (0x7f :: byte)" "\<not> 0xe0 \<le> or 0x80 (of_nat l :: byte)"
    "\<not> 0xc4 \<le> or 0x80 (of_nat l :: byte)" "\<not> 0xa0 \<le> or 0x80 (of_nat l :: byte)"
    "\<not> 0x90 \<le> or 0x80 (of_nat l :: byte)" "0x80 \<le> or 0x80 (of_nat l :: byte)"
    "or 0x80 (of_nat l :: byte) \<le> 0x8f" "ucast (and (or 0x80 (of_nat l :: byte)) 0x0f) = (of_nat l :: u32)"
  by (rule upt_all [OF _ assms], code_simp)+

lemma trail_body:
  assumes pk: "pk = h # bs @ body" and d: "drop cur d = pk @ rest"
    and h: "header_step vis d st v cur h = trail_step vis d cs k st v (cur + 1)"
    and k: "length bs = k" "0 < k" and body: "body \<noteq> []" and acs: "acs \<noteq> CS_HEADER"
    and l: "drop (Suc cur) d = bs @ body @ rest \<Longrightarrow>
      length d = Suc cur + k + length body + length rest \<Longrightarrow>
      trail_step vis d cs k st v (Suc cur) = body_length vis st v (k + cur) ev acs (length body)"
    and w: "\<And>n. take (length body) (drop n d) = body \<Longrightarrow> n + length body \<le> length d \<Longrightarrow>
      trail_step vis d acs (length body) st v n =
      after_visit_proc vis st (length body + n - 1) (on_visit vis v w)"
    and acc: "on_visit vis v w = Inr (v', True)"
  shows "exec_loop vis d (Run CS_HEADER t st v cur a) = value_done vis d st v' (cur + length pk)"
proof -
  have "drop cur d = h # bs @ body @ rest" using pk d by simp
  note d' = drop_eq_ConsD [OF this]
  have d2: "drop (Suc (k + cur)) d = body @ rest"
    using drop_eq_append_drop [OF d'(2)] k by (simp add: add.commute)
  have "length d = Suc (k + cur) + length body + length rest" using d'(3) k by simp
  with d2 have w': "trail_step vis d acs (length body) st v (Suc (k + cur)) =
      after_visit_proc vis st (length body + (k + cur)) (on_visit vis v w)"
    by (simp add: w)
  have l': "trail_step vis d cs k st v (Suc cur) = Run acs (length body) st v (k + cur) True"
    using l d'(2,3) k body by (simp add: body_length_def)
  have "exec_loop vis d (Run CS_HEADER t st v cur a) =
    exec_loop vis d (Run acs (length body) st v (k + cur) True)"
    using d' h l' k by (simp add: exec_loop_header)
  also have "\<dots> = value_done vis d st v' (cur + length pk)"
    using acc w' acs k
    by (simp add: exec_loop_trail value_done_def after_visit_proc_def pk algebra_simps)
  finally show ?thesis .
qed

lemma fix_body:
  assumes pk: "pk = h # body" and d: "drop cur d = pk @ rest"
    and h: "header_step vis d st v cur h = trail_step vis d acs (length body) st v (cur + 1)"
    and body: "body \<noteq> []"
    and w: "\<And>n. take (length body) (drop n d) = body \<Longrightarrow> n + length body \<le> length d \<Longrightarrow>
      trail_step vis d acs (length body) st v n =
      after_visit_proc vis st (length body + n - 1) (on_visit vis v w)"
    and acc: "on_visit vis v w = Inr (v', True)"
  shows "exec_loop vis d (Run CS_HEADER t st v cur a) = value_done vis d st v' (cur + length pk)"
  using body by (intro trail_value [OF pk d h _ _ _ acc]) (simp_all add: w)

lemma trail_step_value:
  assumes "take (length body) (drop n d) = body" and "n + length body \<le> length d"
    and "body \<noteq> []" and "length body < 2 ^ 32"
  shows "trail_step vis d ACS_STR_VALUE (length body) st v n =
      after_visit_proc vis st (length body + n - 1) (on_visit vis v (visit_str body))"
    and "trail_step vis d ACS_BIN_VALUE (length body) st v n =
      after_visit_proc vis st (length body + n - 1) (on_visit vis v (visit_bin body))"
    and "trail_step vis d ACS_EXT_VALUE (length body) st v n =
      after_visit_proc vis st (length body + n - 1) (on_visit vis v (visit_ext body))"
proof -
  have "\<not> length d - n < length body" using assms(2) by linarith
  then show "trail_step vis d ACS_STR_VALUE (length body) st v n =
      after_visit_proc vis st (length body + n - 1) (on_visit vis v (visit_str body))"
    and "trail_step vis d ACS_BIN_VALUE (length body) st v n =
      after_visit_proc vis st (length body + n - 1) (on_visit vis v (visit_bin body))"
    and "trail_step vis d ACS_EXT_VALUE (length body) st v n =
      after_visit_proc vis st (length body + n - 1) (on_visit vis v (visit_ext body))"
    using assms by (simp_all add: trail_step_def bytes_at_def add.commute)
qed

lemma exec_str:
  assumes d: "drop cur d = (pack_str (length s) @ s) @ rest" and len: "length s < 2 ^ 32"
    and acc: "on_visit vis v (visit_str s) = Inr (v', True)"
  shows "exec_loop vis d (Run CS_HEADER t st v cur a) =
    value_done vis d st v' (cur + length (pack_str (length s) @ s))"
proof -
  consider "s = []" | "s \<noteq> []" "length s < 32" | "32 \<le> length s" "length s < 256"
    | "256 \<le> length s" "length s < 65536" | "65536 \<le> length s" by linarith
  then show ?thesis
  proof cases
    case 1
    then show ?thesis by (intro fix_value [OF _ d _ acc, of "0xa0"])
      (simp_all add: pack_str_def header_step_def)
  next
    case 2
    with len show ?thesis
      by (intro fix_body [where h = "or 0xa0 (of_nat (length s))" and body = s,
            OF _ d _ _ trail_step_value(1) acc])
        (simp_all add: pack_str_def header_step_def fixstr_header)
  next
    case 3
    with len show ?thesis
      by (intro trail_body [where bs = "[of_nat (length s)]" and body = s,
            OF _ d header_step_trail(22) _ _ _ _ _ trail_step_value(1) acc])
        (auto simp: trail_simps unat_of_nat pack_str_def)
  next
    case 4
    with len show ?thesis
      by (intro trail_body [where bs = "store_be 2 (length s)" and body = s,
            OF _ d header_step_trail(23) _ _ _ _ _ trail_step_value(1) acc])
        (auto simp: trail_simps pack_str_def store16_def)
  next
    case 5
    with len show ?thesis
      by (intro trail_body [where bs = "store_be 4 (length s)" and body = s,
            OF _ d header_step_trail(24) _ _ _ _ _ trail_step_value(1) acc])
        (auto simp: trail_simps pack_str_def store32_def)
  qed
qed


lemma exec_bin:
  assumes d: "drop cur d = (pack_bin (length s) @ s) @ rest" and len: "length s < 2 ^ 32"
    and acc: "on_visit vis v (visit_bin s) = Inr (v', True)"
  shows "exec_loop vis d (Run CS_HEADER t st v cur a) =
    value_done vis d st v' (cur + length (pack_bin (length s) @ s))"
proof -
  consider "s = []" | "s \<noteq> []" "length s < 256"
    | "256 \<le> length s" "length s < 65536" | "65536 \<le> length s" by linarith
  then show ?thesis
  proof cases
    case 1
    then show ?thesis
      by (intro trail_value [where bs = "[0]", OF _ d header_step_trail(1) _ _ _ acc])
        (simp_all add: trail_simps pack_bin_def body_length_def)
  next
    case 2
    with len show ?thesis
      by (intro trail_body [where bs = "[of_nat (length s)]" and body = s,
            OF _ d header_step_trail(1) _ _ _ _ _ trail_step_value(2) acc])
        (auto simp: trail_simps unat_of_nat pack_bin_def)
  next
    case 3
    with len show ?thesis
      by (intro trail_body [where bs = "store_be 2 (length s)" and body = s,
            OF _ d header_step_trail(2) _ _ _ _ _ trail_step_value(2) acc])
        (auto simp: trail_simps pack_bin_def store16_def)
  next
    case 4
    with len show ?thesis
      by (intro trail_body [where bs = "store_be 4 (length s)" and body = s,
            OF _ d header_step_trail(3) _ _ _ _ _ trail_step_value(2) acc])
        (auto simp: trail_simps pack_bin_def store32_def)
  qed
qed

lemma exec_fixext:
  assumes pk: "pk = h # s" and d: "drop cur d = pk @ rest" and "length s = Suc l"
    and h: "header_step vis d st v cur h = trail_step vis d cs (Suc l) st v (cur + 1)"
    and w: "\<And>n. Suc l \<le> length d - n \<Longrightarrow> trail_step vis d cs (Suc l) st v n =
      after_visit_proc vis st (l + n) (on_visit vis v (visit_ext (bytes_at d n (Suc l))))"
    and acc: "on_visit vis v (visit_ext s) = Inr (v', True)"
  shows "exec_loop vis d (Run CS_HEADER t st v cur a) = value_done vis d st v' (cur + length pk)"
  using assms(3) by (intro trail_value [OF pk d h _ _ _ acc]) (auto simp: w bytes_at_def)

lemma exec_ext:
  assumes d: "drop cur d = (pack_ext (length s - 1) (hd s) @ tl s) @ rest"
    and ne: "s \<noteq> []" and len: "length s < 2 ^ 32"
    and acc: "on_visit vis v (visit_ext s) = Inr (v', True)"
  shows "exec_loop vis d (Run CS_HEADER t st v cur a) =
    value_done vis d st v' (cur + length (pack_ext (length s - 1) (hd s) @ tl s))"
proof -
  define l where "l = length s - 1"
  have l: "length s = Suc l" using ne by (simp add: l_def)
  have s: "hd s # tl s = s" using ne by simp
  consider "l = 1" | "l = 2" | "l = 4" | "l = 8" | "l = 16"
    | "l \<notin> {1, 2, 4, 8, 16}" "l < 256" | "256 \<le> l" "l < 65536" | "65536 \<le> l" by auto linarith
  then show ?thesis
  proof cases
    case 1
    with l s show ?thesis
      by (intro exec_fixext [where h = "0xd4" and cs = CS_FIXEXT_1, OF _ d l _ _ acc])
        (simp_all add: pack_ext_def header_step_trail trail_step_def add.commute)
  next
    case 2
    with l s show ?thesis
      by (intro exec_fixext [where h = "0xd5" and cs = CS_FIXEXT_2, OF _ d l _ _ acc])
        (simp_all add: pack_ext_def header_step_trail trail_step_def add.commute flip: numeral_3_eq_3)
  next
    case 3
    with l s show ?thesis
      by (intro exec_fixext [where h = "0xd6" and cs = CS_FIXEXT_4, OF _ d l _ _ acc])
        (simp_all add: pack_ext_def header_step_trail trail_step_def add.commute)
  next
    case 4
    with l s show ?thesis
      by (intro exec_fixext [where h = "0xd7" and cs = CS_FIXEXT_8, OF _ d l _ _ acc])
        (simp_all add: pack_ext_def header_step_trail trail_step_def add.commute)
  next
    case 5
    with l s show ?thesis
      by (intro exec_fixext [where h = "0xd8" and cs = CS_FIXEXT_16, OF _ d l _ _ acc])
        (simp_all add: pack_ext_def header_step_trail trail_step_def add.commute)
  next
    case 6
    with len l s ne show ?thesis
      by (intro trail_body [where bs = "[of_nat l]" and body = s,
            OF _ d header_step_trail(4) _ _ _ _ _ trail_step_value(3) acc])
        (auto simp: trail_simps unat_of_nat pack_ext_def )
  next
    case 7
    with len l s ne show ?thesis
      by (intro trail_body [where bs = "store_be 2 l" and body = s,
            OF _ d header_step_trail(5) _ _ _ _ _ trail_step_value(3) acc])
        (auto simp: trail_simps pack_ext_def store16_def )
  next
    case 8
    with len l s ne show ?thesis
      by (intro trail_body [where bs = "store_be 4 l" and body = s,
            OF _ d header_step_trail(6) _ _ _ _ _ trail_step_value(3) acc])
        (auto simp: trail_simps pack_ext_def store32_def )
  qed
qed

lemma unat_of_nat_u32 [simp]: "n < 2 ^ 32 \<Longrightarrow> unat (of_nat n :: u32) = n"
  by (simp add: unat_of_nat)

lemma of_nat_u32_eq_0 [simp]: "n < 2 ^ 32 \<Longrightarrow> (of_nat n :: u32) = 0 \<longleftrightarrow> n = 0"
  by (auto simp: word_of_nat_eq_0_iff dest: dvd_imp_le)

lemma pack_header_nonempty [simp]:
  "pack_array n \<noteq> []" "pack_map n \<noteq> []" "pack_str n \<noteq> []" "pack_bin n \<noteq> []" "pack_ext n ty \<noteq> []"
  "pack_imp_uint64 x \<noteq> []" "pack_imp_int64 x \<noteq> []"
  by (simp_all add: pack_array_def pack_map_def pack_str_def pack_bin_def pack_ext_def
      pack_imp_uint64_def pack_imp_int64_def)

lemma pack_object_nonempty [simp]: "pack_object x \<noteq> []"
  by (cases x) (simp_all add: pack_object_def pack_nil_def pack_true_def pack_false_def
      pack_float_def pack_double_def)

lemma concat_concat_map: "concat (concat (map f xs)) = concat (map (\<lambda>x. concat (f x)) xs)"
  by (induction xs) simp_all

lemma pack_object_ARRAY:
  "length xs < 2 ^ 32 \<Longrightarrow>
   pack_object (ARRAY xs) = pack_array (length xs) @ concat (map pack_object xs)"
  by (simp add: pack_object_def [abs_def] map_concat comp_def concat_concat_map)

lemma pack_object_MAP:
  "length kvs < 2 ^ 32 \<Longrightarrow>
   pack_object (MAP kvs) =
     pack_map (length kvs) @ concat (map (\<lambda>(k, v). pack_object k @ pack_object v) kvs)"
  by (simp add: pack_object_def map_concat comp_def case_prod_unfold concat_concat_map)

lemma trail_aggregate:
  assumes pk: "pk = h # bs" and d: "drop cur d = pk @ rest"
    and h: "header_step vis d st v cur h = trail_step vis d cs k st v (cur + 1)"
    and k: "length bs = k" "0 < k"
    and w: "drop (Suc cur) d = bs @ rest \<Longrightarrow> length d = Suc cur + k + length rest \<Longrightarrow>
      trail_step vis d cs k st v (Suc cur) = start_aggregate vis st v (k + cur) ty sv ev n"
  shows "exec_loop vis d (Run CS_HEADER t st v cur a) =
    exec_loop vis d (loop_check (length d) (start_aggregate vis st v (cur + length pk - 1) ty sv ev n))"
proof -
  have "drop cur d = h # bs @ rest" using pk d by simp
  note d' = drop_eq_ConsD [OF this]
  from d' w k have "trail_step vis d cs k st v (Suc cur) = start_aggregate vis st v (k + cur) ty sv ev n"
    by simp
  with d'(1) h k show ?thesis by (simp add: exec_loop_header pk add.commute)
qed

lemma exec_array_header:
  assumes d: "drop cur d = pack_array n @ rest" and n: "n < 2 ^ 32"
  shows "exec_loop vis d (Run CS_HEADER t st v cur a) =
    exec_loop vis d (loop_check (length d)
      (start_aggregate vis st v (cur + length (pack_array n) - 1) CT_ARRAY_ITEM
        (start_array (of_nat n)) end_array (of_nat n)))"
proof -
  consider "n < 16" | "16 \<le> n" "n < 65536" | "65536 \<le> n" by linarith
  then show ?thesis
  proof cases
    case 1
    then have "drop cur d = or 0x90 (of_nat n) # rest" using d by (simp add: pack_array_def)
    from drop_eq_ConsD(1) [OF this] 1 show ?thesis
      by (simp add: exec_loop_header header_step_def fixarray_header pack_array_def)
  next
    case 2
    then show ?thesis
      by (intro trail_aggregate [where bs = "store_be 2 n", OF _ d header_step_trail(25)])
        (simp_all add: trail_simps pack_array_def store16_def)
  next
    case 3
    with n show ?thesis
      by (intro trail_aggregate [where bs = "store_be 4 n", OF _ d header_step_trail(26)])
        (simp_all add: trail_simps pack_array_def store32_def)
  qed
qed

lemma exec_map_header:
  assumes d: "drop cur d = pack_map n @ rest" and n: "n < 2 ^ 32"
  shows "exec_loop vis d (Run CS_HEADER t st v cur a) =
    exec_loop vis d (loop_check (length d)
      (start_aggregate vis st v (cur + length (pack_map n) - 1) CT_MAP_KEY
        (start_map (of_nat n)) end_map (of_nat n)))"
proof -
  consider "n < 16" | "16 \<le> n" "n < 65536" | "65536 \<le> n" by linarith
  then show ?thesis
  proof cases
    case 1
    then have "drop cur d = or 0x80 (of_nat n) # rest" using d by (simp add: pack_map_def)
    from drop_eq_ConsD(1) [OF this] 1 show ?thesis
      by (simp add: exec_loop_header header_step_def fixmap_header pack_map_def)
  next
    case 2
    then show ?thesis
      by (intro trail_aggregate [where bs = "store_be 2 n", OF _ d header_step_trail(27)])
        (simp_all add: trail_simps pack_map_def store16_def)
  next
    case 3
    with n show ?thesis
      by (intro trail_aggregate [where bs = "store_be 4 n", OF _ d header_step_trail(28)])
        (simp_all add: trail_simps pack_map_def store32_def)
  qed
qed

definition parses :: "'v visitor \<Rightarrow> bytes \<Rightarrow> mobj \<Rightarrow> bool" where
  "parses vis d x \<longleftrightarrow>
     (\<forall>cur rest v v' st t a.
        drop cur d = pack_object x @ rest \<longrightarrow> run_visits vis v (visits x) = Inr (v', True) \<longrightarrow>
        exec_loop vis d (Run CS_HEADER t st v cur a) =
        value_done vis d st v' (cur + length (pack_object x)))"

lemma parsesD:
  "parses vis d x \<Longrightarrow> drop cur d = pack_object x @ rest \<Longrightarrow>
   run_visits vis v (visits x) = Inr (v', True) \<Longrightarrow>
   exec_loop vis d (Run CS_HEADER t st v cur a) =
   value_done vis d st v' (cur + length (pack_object x))"
  by (simp add: parses_def)

lemma nat_minus_1_plus: "0 < n \<Longrightarrow> Suc (n - Suc 0) = n"
  by simp

lemma value_done_last_item:
  assumes "on_visit vis v end_array_item = Inr (v1, True)" and "on_visit vis v1 end_array = Inr (v2, True)"
  shows "value_done vis d ((CT_ARRAY_ITEM, 1) # st) v nxt = value_done vis d st v2 nxt"
  using assms by (simp add: value_done_def)

lemma value_done_next_item:
  assumes "on_visit vis v end_array_item = Inr (v1, True)" and "on_visit vis v1 start_array_item = Inr (v2, True)"
    and "n - 1 \<noteq> 0" and "nxt \<noteq> length d" and "0 < nxt"
  shows "value_done vis d ((CT_ARRAY_ITEM, n) # st) v nxt =
    exec_loop vis d (Run CS_HEADER 0 ((CT_ARRAY_ITEM, n - 1) # st) v2 nxt False)"
  using assms by (simp add: value_done_def finish_consume_def)

lemma value_done_map_key:
  assumes "on_visit vis v end_map_key = Inr (v1, True)" and "on_visit vis v1 start_map_value = Inr (v2, True)"
    and "nxt \<noteq> length d" and "0 < nxt"
  shows "value_done vis d ((CT_MAP_KEY, n) # st) v nxt =
    exec_loop vis d (Run CS_HEADER 0 ((CT_MAP_VALUE, n) # st) v2 nxt False)"
  using assms by (simp add: value_done_def finish_consume_def)

lemma value_done_last_value:
  assumes "on_visit vis v end_map_value = Inr (v1, True)" and "on_visit vis v1 end_map = Inr (v2, True)"
  shows "value_done vis d ((CT_MAP_VALUE, 1) # st) v nxt = value_done vis d st v2 nxt"
  using assms by (simp add: value_done_def)

lemma value_done_next_key:
  assumes "on_visit vis v end_map_value = Inr (v1, True)" and "on_visit vis v1 start_map_key = Inr (v2, True)"
    and "n - 1 \<noteq> 0" and "nxt \<noteq> length d" and "0 < nxt"
  shows "value_done vis d ((CT_MAP_VALUE, n) # st) v nxt =
    exec_loop vis d (Run CS_HEADER 0 ((CT_MAP_KEY, n - 1) # st) v2 nxt False)"
  using assms by (simp add: value_done_def finish_consume_def)

lemma drop_append_not_end: "drop n d = xs @ ys \<Longrightarrow> xs \<noteq> [] \<Longrightarrow> n \<noteq> length d"
  by auto

lemma run_visits_single [simp]:
  "run_visits vis v [w] = Inr (v', True) \<longleftrightarrow> on_visit vis v w = Inr (v', True)"
  by (simp add: run_visits_Cons)

lemma exec_items:
  assumes "xs \<noteq> []" and "\<forall>x \<in> set xs. parses vis d x" and "length xs < 2 ^ 32"
    and "drop cur d = concat (map pack_object xs) @ rest"
    and "on_visit vis v0 start_array_item = Inr (v, True)"
    and "run_visits vis v0
      (concat (map (\<lambda>x. start_array_item # visits x @ [end_array_item]) xs) @ [end_array]) = Inr (v', True)"
  shows "exec_loop vis d (Run CS_HEADER t ((CT_ARRAY_ITEM, of_nat (length xs)) # st) v cur a) =
    value_done vis d st v' (cur + length (concat (map pack_object xs)))"
  using assms
proof (induction xs arbitrary: cur v v0 t a)
  case Nil
  then show ?case by simp
next
  case (Cons x xs)
  obtain u u1 where u: "run_visits vis v (visits x) = Inr (u, True)"
      "on_visit vis u end_array_item = Inr (u1, True)"
      "run_visits vis u1 (concat (map (\<lambda>x. start_array_item # visits x @ [end_array_item]) xs) @ [end_array])
        = Inr (v', True)"
    using Cons.prems(5,6) by (auto simp: run_visits_Cons run_visits_append)
  have d: "drop cur d = pack_object x @ concat (map pack_object xs) @ rest" using Cons.prems(4) by simp
  define nxt where "nxt = cur + length (pack_object x)"
  have nxt: "drop nxt d = concat (map pack_object xs) @ rest" "0 < nxt"
    using drop_eq_append_drop [OF d] by (simp_all add: nxt_def)
  have x: "exec_loop vis d (Run CS_HEADER t ((CT_ARRAY_ITEM, of_nat (length (x # xs))) # st) v cur a) =
    value_done vis d ((CT_ARRAY_ITEM, of_nat (length (x # xs))) # st) u nxt"
    unfolding nxt_def using Cons.prems(2) by (intro parsesD [OF _ d u(1)]) simp
  show ?case
  proof (cases "xs = []")
    case True
    with u x show ?thesis by (simp add: value_done_last_item nxt_def)
  next
    case False
    then obtain y ys where ys: "xs = y # ys" by (cases xs) simp_all
    obtain u2 where u2: "on_visit vis u1 start_array_item = Inr (u2, True)"
      using u(3) ys by (auto simp: run_visits_Cons)
    have "nxt \<noteq> length d" using drop_append_not_end [OF nxt(1)] ys by simp
    then have "value_done vis d ((CT_ARRAY_ITEM, of_nat (length (x # xs))) # st) u nxt =
      exec_loop vis d (Run CS_HEADER 0 ((CT_ARRAY_ITEM, of_nat (length xs)) # st) u2 nxt False)"
      using value_done_next_item [OF u(2) u2, of "of_nat (length (x # xs))"] nxt(2) False Cons.prems(3) by simp
    also have "\<dots> = value_done vis d st v' (nxt + length (concat (map pack_object xs)))"
      using Cons.prems(2,3) by (intro Cons.IH [OF False _ _ nxt(1) u2 u(3)]) simp_all
    finally show ?thesis using x by (simp add: nxt_def add.assoc)
  qed
qed


lemma exec_pairs:
  assumes "kvs \<noteq> []" and "\<forall>kv \<in> set kvs. parses vis d (fst kv) \<and> parses vis d (snd kv)"
    and "length kvs < 2 ^ 32"
    and "drop cur d = concat (map (\<lambda>(k, w). pack_object k @ pack_object w) kvs) @ rest"
    and "on_visit vis v0 start_map_key = Inr (v, True)"
    and "run_visits vis v0
      (concat (map (\<lambda>(k, w). start_map_key # visits k @ [end_map_key] @
          start_map_value # visits w @ [end_map_value]) kvs) @ [end_map]) = Inr (v', True)"
  shows "exec_loop vis d (Run CS_HEADER t ((CT_MAP_KEY, of_nat (length kvs)) # st) v cur a) =
    value_done vis d st v'
      (cur + length (concat (map (\<lambda>(k, w). pack_object k @ pack_object w) kvs)))"
  using assms
proof (induction kvs arbitrary: cur v v0 t a)
  case Nil
  then show ?case by simp
next
  case (Cons kv kvs)
  obtain k w where kv: "kv = (k, w)" by (cases kv)
  let ?n = "of_nat (length (kv # kvs)) :: u32"
  obtain u u1 u2 u3 u4 where u: "run_visits vis v (visits k) = Inr (u, True)"
      "on_visit vis u end_map_key = Inr (u1, True)"
      "on_visit vis u1 start_map_value = Inr (u2, True)"
      "run_visits vis u2 (visits w) = Inr (u3, True)"
      "on_visit vis u3 end_map_value = Inr (u4, True)"
      "run_visits vis u4 (concat (map (\<lambda>(k, w). start_map_key # visits k @ [end_map_key] @
          start_map_value # visits w @ [end_map_value]) kvs) @ [end_map]) = Inr (v', True)"
    using Cons.prems(5,6) kv by (auto simp: run_visits_Cons run_visits_append)
  let ?more = "concat (map (\<lambda>(k, w). pack_object k @ pack_object w) kvs)"
  have d: "drop cur d = pack_object k @ pack_object w @ ?more @ rest"
    using Cons.prems(4) kv by simp
  define mid where "mid = cur + length (pack_object k)"
  have mid: "drop mid d = pack_object w @ ?more @ rest" "0 < mid"
    using drop_eq_append_drop [OF d] by (simp_all add: mid_def)
  define nxt where "nxt = mid + length (pack_object w)"
  have nxt: "drop nxt d = ?more @ rest" "0 < nxt"
    using drop_eq_append_drop [OF mid(1)] by (simp_all add: nxt_def)
  have "exec_loop vis d (Run CS_HEADER t ((CT_MAP_KEY, ?n) # st) v cur a) =
    value_done vis d ((CT_MAP_KEY, ?n) # st) u mid"
    unfolding mid_def using Cons.prems(2) kv by (intro parsesD [OF _ d u(1)]) simp
  also have "\<dots> = exec_loop vis d (Run CS_HEADER 0 ((CT_MAP_VALUE, ?n) # st) u2 mid False)"
    using drop_append_not_end [OF mid(1)] mid(2) by (intro value_done_map_key [OF u(2,3)]) simp_all
  also have "\<dots> = value_done vis d ((CT_MAP_VALUE, ?n) # st) u3 nxt"
    unfolding nxt_def using Cons.prems(2) kv by (intro parsesD [OF _ mid(1) u(4)]) simp
  finally have x: "exec_loop vis d (Run CS_HEADER t ((CT_MAP_KEY, ?n) # st) v cur a) = \<dots>" .
  show ?case
  proof (cases "kvs = []")
    case True
    with u x kv show ?thesis by (simp add: value_done_last_value nxt_def mid_def add.assoc)
  next
    case False
    obtain u5 where u5: "on_visit vis u4 start_map_key = Inr (u5, True)"
      using u(6) False by (cases kvs) (auto simp: run_visits_Cons)
    have "nxt \<noteq> length d" using drop_append_not_end [OF nxt(1)] False by (cases kvs) auto
    then have "value_done vis d ((CT_MAP_VALUE, ?n) # st) u3 nxt =
      exec_loop vis d (Run CS_HEADER 0 ((CT_MAP_KEY, of_nat (length kvs)) # st) u5 nxt False)"
      using value_done_next_key [OF u(5) u5, of ?n] nxt(2) False Cons.prems(3) by simp
    also have "\<dots> = value_done vis d st v' (nxt + length ?more)"
      using Cons.prems(2,3) by (intro Cons.IH [OF False _ _ nxt(1) u5 u(6)]) simp_all
    finally show ?thesis using x kv by (simp add: nxt_def mid_def add.assoc)
  qed
qed

lemma parses_array:
  assumes "\<forall>x \<in> set xs. parses vis d x" and n: "length xs < 2 ^ 32"
  shows "parses vis d (ARRAY xs)"
  unfolding parses_def
proof (intro allI impI)
  fix cur rest v v' st t a
  assume d: "drop cur d = pack_object (ARRAY xs) @ rest"
    and acc: "run_visits vis v (visits (ARRAY xs)) = Inr (v', True)"
  let ?h = "pack_array (length xs)"
  have d1: "drop cur d = ?h @ concat (map pack_object xs) @ rest"
    using d n by (simp add: pack_object_ARRAY)
  have d2: "drop (cur + length ?h) d = concat (map pack_object xs) @ rest"
    by (rule drop_eq_append_drop [OF d1])
  obtain u where u: "on_visit vis v (start_array (of_nat (length xs))) = Inr (u, True)"
    "run_visits vis u (concat (map (\<lambda>x. start_array_item # visits x @ [end_array_item]) xs) @ [end_array])
     = Inr (v', True)"
    using acc by (auto simp: run_visits_Cons)
  note h = exec_array_header [OF d1 n, of vis t st v a]
  show "exec_loop vis d (Run CS_HEADER t st v cur a) =
    value_done vis d st v' (cur + length (pack_object (ARRAY xs)))"
  proof (cases "xs = []")
    case True
    with u h show ?thesis by (simp add: start_aggregate_def value_done_def pack_object_ARRAY)
  next
    case False
    then obtain u1 where u1: "on_visit vis u start_array_item = Inr (u1, True)"
      using u(2) by (cases xs) (auto simp: run_visits_Cons)
    have "cur + length ?h \<noteq> length d"
      using drop_append_not_end [OF d2] False by (cases xs) auto
    then have "exec_loop vis d (Run CS_HEADER t st v cur a) =
      exec_loop vis d (Run CS_HEADER 0 ((CT_ARRAY_ITEM, of_nat (length xs)) # st) u1 (cur + length ?h) False)"
      using h u(1) u1 n False by (simp add: start_aggregate_def)
    also have "\<dots> = value_done vis d st v' (cur + length ?h + length (concat (map pack_object xs)))"
      by (rule exec_items [OF False assms d2 u1 u(2)])
    finally show ?thesis using n by (simp add: pack_object_ARRAY add.assoc)
  qed
qed

lemma parses_map:
  assumes "\<forall>kv \<in> set kvs. parses vis d (fst kv) \<and> parses vis d (snd kv)" and n: "length kvs < 2 ^ 32"
  shows "parses vis d (MAP kvs)"
  unfolding parses_def
proof (intro allI impI)
  fix cur rest v v' st t a
  let ?h = "pack_map (length kvs)"
  let ?body = "concat (map (\<lambda>(k, w). pack_object k @ pack_object w) kvs)"
  assume d: "drop cur d = pack_object (MAP kvs) @ rest"
    and acc: "run_visits vis v (visits (MAP kvs)) = Inr (v', True)"
  have d1: "drop cur d = ?h @ ?body @ rest" using d n by (simp add: pack_object_MAP)
  have d2: "drop (cur + length ?h) d = ?body @ rest" by (rule drop_eq_append_drop [OF d1])
  obtain u where u: "on_visit vis v (start_map (of_nat (length kvs))) = Inr (u, True)"
    "run_visits vis u (concat (map (\<lambda>(k, w). start_map_key # visits k @ [end_map_key] @
          start_map_value # visits w @ [end_map_value]) kvs) @ [end_map]) = Inr (v', True)"
    using acc by (auto simp: run_visits_Cons)
  note h = exec_map_header [OF d1 n, of vis t st v a]
  show "exec_loop vis d (Run CS_HEADER t st v cur a) =
    value_done vis d st v' (cur + length (pack_object (MAP kvs)))"
  proof (cases "kvs = []")
    case True
    with u h show ?thesis by (simp add: start_aggregate_def value_done_def pack_object_MAP)
  next
    case False
    then obtain u1 where u1: "on_visit vis u start_map_key = Inr (u1, True)"
      using u(2) by (cases kvs) (auto simp: run_visits_Cons)
    have "cur + length ?h \<noteq> length d"
      using drop_append_not_end [OF d2] False by (cases kvs) auto
    then have "exec_loop vis d (Run CS_HEADER t st v cur a) =
      exec_loop vis d (Run CS_HEADER 0 ((CT_MAP_KEY, of_nat (length kvs)) # st) u1 (cur + length ?h) False)"
      using h u(1) u1 n False by (simp add: start_aggregate_def)
    also have "\<dots> = value_done vis d st v' (cur + length ?h + length ?body)"
      by (rule exec_pairs [OF False assms d2 u1 u(2)])
    finally show ?thesis using n by (simp add: pack_object_MAP add.assoc)
  qed
qed

lemma parses_object: "wf_mobj x \<Longrightarrow> parses vis d x"
proof (induction x rule: visits.induct)
  case (10 xs)
  then show ?case by (intro parses_array) simp_all
next
  case (11 kvs)
  then show ?case by (intro parses_map) auto
next
  case 1
  then show ?case
    by (auto simp: parses_def pack_object_def intro: fix_value [OF pack_nil_def _ header_step_simple(1)])
next
  case (2 b)
  then show ?case
    by (cases b) (auto simp: parses_def pack_object_def
        intro: fix_value [OF pack_true_def _ header_step_simple(3)]
          fix_value [OF pack_false_def _ header_step_simple(2)])
qed (auto simp: parses_def pack_object_def exec_positive exec_negative exec_float exec_double
    exec_str exec_bin exec_ext)

end
