(* ===== verification/Msgpack_Progress.thy ===== *)
theory Msgpack_Progress
  imports Msgpack_Wire
begin

text \<open>
  The parser loop on arbitrary input: it always returns, at a position within the input, and an
  answer other than "more bytes are needed" does not change when bytes are appended. With the
  reading of packed objects of theory \<open>Msgpack_Wire\<close> this gives the contract the stream parsers
  rely on: a complete object is recognised with its exact length, and a proper prefix of one is
  reported as incomplete.
\<close>

section \<open>The loop returns\<close>

text \<open>
  A state the loop can be in after an iteration that began at position \<open>lo - 1\<close>, with \<open>hi\<close> bytes of
  input.
\<close>

fun advanced :: "nat \<Rightarrow> nat \<Rightarrow> 'v pstate \<Rightarrow> bool" where
  "advanced lo hi (Run cs trail st v cur again) \<longleftrightarrow>
     lo \<le> cur \<and> cur \<le> hi \<and>
     (cs = CS_HEADER \<or> again \<and> 0 < trail \<and> cs \<in> {ACS_STR_VALUE, ACS_BIN_VALUE, ACS_EXT_VALUE})"
| "advanced lo hi (Done ret off v) \<longleftrightarrow> off \<le> hi"
| "advanced lo hi (Failed e) \<longleftrightarrow> True"

lemma advanced_mono: "advanced lo hi s \<Longrightarrow> lo' \<le> lo \<Longrightarrow> hi \<le> hi' \<Longrightarrow> advanced lo' hi' s"
  by (cases s) auto

lemma consume_cur:
  "consume vis st v cur = Inr (v', st', cur', ret) \<Longrightarrow>
   cur' \<le> cur \<and> (ret = PARSE_CONTINUE \<or> ret = PARSE_SUCCESS \<longrightarrow> cur' = cur)"
  by (induction vis st v cur arbitrary: v' st' cur' ret rule: consume.induct)
    (fastforce simp: bindR_eq_Inr split: if_splits)+

lemma finish_consume_advanced:
  "cur < hi \<Longrightarrow> advanced (cur + 1) hi (finish_consume (consume vis st v cur))"
  by (cases "consume vis st v cur") (auto simp: finish_consume_def split: if_splits dest!: consume_cur)

lemma after_visit_advanced:
  "cur < hi \<Longrightarrow> advanced (cur + 1) hi (after_visit_proc vis st cur r)"
  using finish_consume_advanced [of cur hi vis st]
  by (auto simp: after_visit_proc_def split: sum.split)

lemma start_aggregate_advanced:
  "cur < hi \<Longrightarrow> advanced (cur + 1) hi (start_aggregate vis st v cur ty sv ev n)"
  using finish_consume_advanced [of cur hi vis st]
  by (auto simp: start_aggregate_def split: sum.split)

lemma report_parse_error_advanced: "cur \<le> hi \<Longrightarrow> advanced lo hi (report_parse_error vis v cur)"
  by (auto simp: report_parse_error_def split: sum.split)

lemma body_length_advanced:
  assumes "cur < hi" and "acs \<in> {ACS_STR_VALUE, ACS_BIN_VALUE, ACS_EXT_VALUE}"
  shows "advanced cur hi (body_length vis st v cur ev acs trail)"
  using assms after_visit_advanced [OF assms(1), of vis st "on_visit vis v ev"]
  by (auto simp: body_length_def intro: advanced_mono)

lemma trail_step_advanced:
  assumes "0 < trail" and "n \<le> length d"
  shows "advanced n (length d) (trail_step vis d cs trail st v n)"
proof (cases "length d - n < trail")
  case True
  with assms show ?thesis by (simp add: trail_step_def)
next
  case False
  define cur where "cur = n + trail - 1"
  have cur: "n \<le> cur" "cur < length d" using False assms by (simp_all add: cur_def)
  note adv =
    advanced_mono [OF after_visit_advanced [OF cur(2)] _ order_refl, where lo' = n]
    advanced_mono [OF start_aggregate_advanced [OF cur(2)] _ order_refl, where lo' = n]
    advanced_mono [OF body_length_advanced [OF cur(2), of ACS_STR_VALUE] _ order_refl, where lo' = n]
    advanced_mono [OF body_length_advanced [OF cur(2), of ACS_BIN_VALUE] _ order_refl, where lo' = n]
    advanced_mono [OF body_length_advanced [OF cur(2), of ACS_EXT_VALUE] _ order_refl, where lo' = n]
  show ?thesis
    using False cur adv report_parse_error_advanced [of cur "length d" n vis v]
    unfolding trail_step_def Let_def cur_def [symmetric]
    by (cases cs) simp_all
qed

fun trail_needs :: "unpack_state \<Rightarrow> nat" where
  "trail_needs CS_FLOAT = 4" | "trail_needs CS_DOUBLE = 8"
| "trail_needs CS_UINT_8 = 1" | "trail_needs CS_UINT_16 = 2"
| "trail_needs CS_UINT_32 = 4" | "trail_needs CS_UINT_64 = 8"
| "trail_needs CS_INT_8 = 1" | "trail_needs CS_INT_16 = 2"
| "trail_needs CS_INT_32 = 4" | "trail_needs CS_INT_64 = 8"
| "trail_needs CS_FIXEXT_1 = 2" | "trail_needs CS_FIXEXT_2 = 3"
| "trail_needs CS_FIXEXT_4 = 5" | "trail_needs CS_FIXEXT_8 = 9" | "trail_needs CS_FIXEXT_16 = 17"
| "trail_needs CS_STR_8 = 1" | "trail_needs CS_STR_16 = 2" | "trail_needs CS_STR_32 = 4"
| "trail_needs CS_BIN_8 = 1" | "trail_needs CS_BIN_16 = 2" | "trail_needs CS_BIN_32 = 4"
| "trail_needs CS_EXT_8 = 1" | "trail_needs CS_EXT_16 = 2" | "trail_needs CS_EXT_32 = 4"
| "trail_needs CS_ARRAY_16 = 2" | "trail_needs CS_ARRAY_32 = 4"
| "trail_needs CS_MAP_16 = 2" | "trail_needs CS_MAP_32 = 4"
| "trail_needs _ = 1"

lemma trail_table_needs:
  assumes "0xc4 \<le> sel" and "sel \<le> 0xdf"
  shows "trail_needs (next_cs sel) = trail_table ! unat (sel - 0xc4) \<and>
    0 < trail_table ! unat (sel - 0xc4)"
proof -
  define n where "n = unat sel - 196"
  have n: "n < 28" "sel = of_nat (196 + n)"
    using assms by (simp_all add: n_def word_le_nat_alt)
  show ?thesis unfolding n(2) by (rule upt_all [OF _ n(1)]) code_simp
qed

lemma header_step_advanced:
  assumes "cur < length d"
  shows "advanced (cur + 1) (length d) (header_step vis d st v cur sel)"
proof -
  note t = trail_step_advanced [of _ "cur + 1" d]
  from assms show ?thesis
    unfolding header_step_def Let_def
    using trail_table_needs [of sel]
    by (auto simp: after_visit_advanced [simplified] start_aggregate_advanced [simplified] report_parse_error_advanced
        intro!: t [simplified])
qed

lemma loop_check_advanced:
  "advanced lo hi s \<Longrightarrow> advanced lo hi (loop_check hi s)"
  by (cases s) auto

lemma exec_step_advanced:
  assumes "advanced lo (length d) (Run cs trail st v cur again)" and "cur < length d"
  shows "advanced (cur + 1) (length d) (exec_step vis d (Run cs trail st v cur again))"
  using assms header_step_advanced [OF assms(2)] trail_step_advanced [of trail "cur + 1" d]
  by (auto simp: exec_step_def intro!: loop_check_advanced)

fun ready :: "nat \<Rightarrow> 'v pstate \<Rightarrow> bool" where
  "ready hi (Run cs trail st v cur again) \<longleftrightarrow>
     advanced 0 hi (Run cs trail st v cur again) \<and> cur \<noteq> hi"
| "ready hi s \<longleftrightarrow> advanced 0 hi s"

fun position :: "'v pstate \<Rightarrow> nat" where
  "position (Run cs trail st v cur again) = cur"
| "position s = 0"

lemma loop_check_ready: "advanced lo hi s \<Longrightarrow> ready hi (loop_check hi s)"
  by (cases s) auto

lemma exec_step_ready:
  assumes "ready (length d) s" and "is_run s"
  shows "ready (length d) (exec_step vis d s)"
    and "is_run (exec_step vis d s) \<Longrightarrow>
      length d - position (exec_step vis d s) < length d - position s"
proof -
  obtain cs trail st v cur again where s: "s = Run cs trail st v cur again"
    using assms(2) by (cases s) auto
  have cur: "cur < length d" using assms(1) s by simp
  have adv: "advanced (cur + 1) (length d) (exec_step vis d s)"
    unfolding s by (rule exec_step_advanced [of 0]) (use assms(1) s cur in simp_all)
  have "exec_step vis d s = loop_check (length d) (exec_step vis d s)"
    unfolding s exec_step_def by (cases "if cs = CS_HEADER then header_step vis d st v cur (d ! cur)
        else trail_step vis d cs trail st v (if again then cur + 1 else cur)") simp_all
  with loop_check_ready [OF adv] show "ready (length d) (exec_step vis d s)" by simp
  show "length d - position (exec_step vis d s) < length d - position s"
    if "is_run (exec_step vis d s)"
    using that adv cur by (cases "exec_step vis d s") (auto simp: s)
qed

lemma exec_loop_returns:
  assumes "ready (length d) s"
  shows "\<exists>s'. exec_loop vis d s = Some s' \<and> \<not> is_run s' \<and> ready (length d) s'"
proof -
  have "\<exists>s'. exec_loop vis d s = Some s'"
    unfolding exec_loop_def
    by (rule measure_while_option_Some [where P = "ready (length d)"
          and f = "\<lambda>s. if is_run s then Suc (length d - position s) else 0"])
      (use assms exec_step_ready in auto)
  moreover have "ready (length d) s'" if "exec_loop vis d s = Some s'" for s'
    by (rule while_option_rule [OF _ that [unfolded exec_loop_def], where P = "ready (length d)"])
      (use assms exec_step_ready in auto)
  ultimately show ?thesis
    unfolding exec_loop_def by (metis while_option_stop)
qed

section \<open>Appending input\<close>

fun is_continue :: "'v pstate \<Rightarrow> bool" where
  "is_continue (Done PARSE_CONTINUE off v) = True"
| "is_continue _ = False"

lemma load_at_append: "n + k \<le> length d \<Longrightarrow> load_at (d @ x) n k = load_at d n k"
  by (simp add: load_at_def)

lemma bytes_at_append: "n + k \<le> length d \<Longrightarrow> bytes_at (d @ x) n k = bytes_at d n k"
  by (simp add: bytes_at_def)

lemma trail_step_append:
  assumes "trail_needs cs \<le> trail" and "0 < trail" and "\<not> length d - n < trail"
  shows "trail_step vis (d @ x) cs trail st v n = trail_step vis d cs trail st v n"
proof -
  have "n + trail \<le> length d" using assms(2,3) by linarith
  moreover have "\<not> length (d @ x) - n < trail" using assms(3) by simp
  moreover have "trail mod 2 ^ 32 \<le> trail" by (rule mod_less_eq_dividend)
  ultimately show ?thesis
    using assms unfolding trail_step_def Let_def
    by (cases cs) (simp_all add: load_at_append bytes_at_append)
qed

lemma trail_step_continue:
  "length d - n < trail \<Longrightarrow> is_continue (trail_step vis d cs trail st v n)"
  by (simp add: trail_step_def)

lemma header_step_codes:
  assumes "0xc4 \<le> sel" and "sel \<le> 0xdf"
  shows "header_step vis d st v cur sel =
    trail_step vis d (next_cs sel) (trail_table ! unat (sel - 0xc4)) st v (cur + 1)"
proof -
  have "\<not> sel \<le> 0x7f" "\<not> 0xe0 \<le> sel" using assms by (simp_all add: word_le_nat_alt)
  with assms show ?thesis by (simp add: header_step_def)
qed

lemma header_step_fixstr:
  assumes "0xa0 \<le> sel" and "sel \<le> 0xbf" and "unat (and sel 0x1f) \<noteq> 0"
  shows "header_step vis d st v cur sel =
    trail_step vis d ACS_STR_VALUE (unat (and sel 0x1f)) st v (cur + 1)"
proof -
  have "\<not> sel \<le> 0x7f" "\<not> 0xe0 \<le> sel" "\<not> 0xc4 \<le> sel"
    using assms by (simp_all add: word_le_nat_alt)
  with assms show ?thesis by (simp add: header_step_def)
qed

lemma header_step_append:
  assumes "\<not> is_continue (header_step vis d st v cur sel)"
  shows "header_step vis (d @ x) st v cur sel = header_step vis d st v cur sel"
proof -
  consider "0xc4 \<le> sel" "sel \<le> 0xdf"
    | "0xa0 \<le> sel" "sel \<le> 0xbf" "unat (and sel 0x1f) \<noteq> 0"
    | "\<not> (0xc4 \<le> sel \<and> sel \<le> 0xdf)" "\<not> (0xa0 \<le> sel \<and> sel \<le> 0xbf \<and> unat (and sel 0x1f) \<noteq> 0)"
    by blast
  then show ?thesis
  proof cases
    case 1
    note h = header_step_codes [OF 1]
    from assms have "\<not> length d - (cur + 1) < trail_table ! unat (sel - 0xc4)"
      using trail_step_continue unfolding h by metis
    with trail_table_needs [OF 1] show ?thesis unfolding h by (simp add: trail_step_append)
  next
    case 2
    note h = header_step_fixstr [OF 2]
    from assms have "\<not> length d - (cur + 1) < unat (and sel 0x1f)"
      using trail_step_continue unfolding h by metis
    with 2(3) show ?thesis unfolding h by (simp add: trail_step_append)
  next
    case 3
    then show ?thesis by (auto simp: header_step_def)
  qed
qed

lemma exec_step_append:
  assumes "ready (length d) s" and "is_run s" and "\<not> is_continue (exec_step vis d s)"
  shows "exec_step vis (d @ x) s = exec_step vis d s"
proof -
  obtain cs trail st v cur again where s: "s = Run cs trail st v cur again"
    using assms(2) by (cases s) auto
  define r where "r = (if cs = CS_HEADER then header_step vis d st v cur (d ! cur)
    else trail_step vis d cs trail st v (cur + 1))"
  have cur: "cur < length d" and cs: "cs = CS_HEADER \<or> again \<and> 0 < trail \<and> trail_needs cs \<le> trail"
    using assms(1) s by auto
  have nth: "(d @ x) ! cur = d ! cur" using cur by (simp add: nth_append)
  have d: "exec_step vis d s = loop_check (length d) r" using cs by (auto simp: exec_step_def s r_def)
  then have nc: "\<not> is_continue r" using assms(3) by (cases r) auto
  have long: "\<not> length d - (cur + 1) < trail" if "cs \<noteq> CS_HEADER"
    using that nc trail_step_continue unfolding r_def by metis
  have "(if cs = CS_HEADER then header_step vis (d @ x) st v cur (d ! cur)
    else trail_step vis (d @ x) cs trail st v (cur + 1)) = r"
    using nc cs long by (auto simp: r_def header_step_append trail_step_append)
  then have dx: "exec_step vis (d @ x) s = loop_check (length (d @ x)) r"
    using cs by (auto simp: exec_step_def s nth)
  have "ready (length d) (loop_check (length d) r)" 
    using exec_step_ready(1) [OF assms(1,2), of vis] d by simp
  then show ?thesis using dx d assms(3) by (cases r) (auto split: if_splits)
qed

lemma exec_loop_append:
  assumes "ready (length d) s" and "exec_loop vis d s = Some r" and "\<not> is_continue r"
  shows "exec_loop vis (d @ x) s = Some r"
proof -
  have "ready (length d) r \<and> (is_continue r \<or> exec_loop vis (d @ x) s = exec_loop vis (d @ x) r)"
  proof (rule while_option_rule [OF _ assms(2) [unfolded exec_loop_def],
        where P = "\<lambda>r. ready (length d) r \<and> (is_continue r \<or> exec_loop vis (d @ x) s = exec_loop vis (d @ x) r)"])
    fix q :: "'a pstate"
    assume q: "ready (length d) q \<and> (is_continue q \<or> exec_loop vis (d @ x) s = exec_loop vis (d @ x) q)"
      "is_run q"
    then have "exec_loop vis (d @ x) s = exec_loop vis (d @ x) q" by (cases q) auto
    then have "exec_loop vis (d @ x) s = exec_loop vis (d @ x) (exec_step vis (d @ x) q)"
      using exec_loop_run [OF q(2)] by metis
    with q exec_step_append [of d q vis x] exec_step_ready(1) [of d q vis]
    show "ready (length d) (exec_step vis d q) \<and> (is_continue (exec_step vis d q) \<or>
      exec_loop vis (d @ x) s = exec_loop vis (d @ x) (exec_step vis d q))"
      by metis
  qed (use assms(1) in simp)
  moreover have "\<not> is_run r" by (rule while_option_stop [OF assms(2) [unfolded exec_loop_def]])
  ultimately show ?thesis using assms(3) exec_loop_done [of r vis "d @ x"] by auto
qed

section \<open>Whole objects and their prefixes\<close>

abbreviation start_state :: "'v \<Rightarrow> nat \<Rightarrow> 'v pstate" where
  "start_state v off \<equiv> Run CS_HEADER 0 [] v off False"

lemma exec_object:
  assumes "wf_mobj x" and "drop off d = pack_object x @ rest"
    and "run_visits vis v (visits x) = Inr (v', True)"
  shows "exec_loop vis d (start_state v off) =
    Some (Done PARSE_SUCCESS (off + length (pack_object x)) v')"
proof -
  have "0 < off + length (pack_object x)" by simp
  with parsesD [OF parses_object [OF assms(1)] assms(2,3)] show ?thesis
    by (simp add: value_done_def finish_consume_def exec_loop_done)
qed

lemma exec_prefix:
  assumes "wf_mobj x" and x: "pack_object x = p @ q" and "p \<noteq> []" and "q \<noteq> []"
    and acc: "run_visits vis v (visits x) = Inr (v', True)"
  shows "\<exists>off u. exec_loop vis p (start_state v 0) = Some (Done PARSE_CONTINUE off u)"
proof -
  have ready: "ready (length p) (start_state v 0)" using assms(3) by simp
  from exec_loop_returns [OF this, of vis] obtain r
    where r: "exec_loop vis p (start_state v 0) = Some r" "ready (length p) r" by blast
  have full: "exec_loop vis (p @ q) (start_state v 0) =
    Some (Done PARSE_SUCCESS (length (p @ q)) v')"
    using exec_object [OF assms(1) _ acc, of 0 "p @ q" "[]"] x by simp
  have "is_continue r"
  proof (rule ccontr)
    assume "\<not> is_continue r"
    with exec_loop_append [OF ready r(1), of q] full
    have "r = Done PARSE_SUCCESS (length (p @ q)) v'" by simp
    with r(2) assms(4) show False by simp
  qed
  with r(1) show ?thesis by (cases r rule: is_continue.cases) auto
qed

lemma execute_returns:
  assumes "off \<le> length d"
  obtains ret off' v' where "execute vis d off v = Inr (ret, off', v')" "off' \<le> length d"
  | e where "execute vis d off v = Inl e" "exec_loop vis d (start_state v off) = Some (Failed e)"
proof (cases "off = length d")
  case True
  then show ?thesis using that(1) by (simp add: execute_def)
next
  case False
  then have "ready (length d) (start_state v off)" using assms by simp
  from exec_loop_returns [OF this, of vis] obtain s
    where s: "exec_loop vis d (start_state v off) = Some s" "\<not> is_run s" "ready (length d) s" by blast
  with False that show ?thesis by (cases s) (auto simp: execute_def)
qed

text \<open>A throw comes from a visit or from \<open>parse_error\<close>; a visitor that never diverges keeps the run so.\<close>

lemma msgpack_parse_offset:
  assumes "msgpack_parse vis d 0 v = Inr (ok, off, v')"
  shows "off \<le> length d"
proof -
  obtain ret where p: "parse_imp vis d 0 v = Inr (ret, off, v')"
    using assms by (auto simp: msgpack_parse_def bindR_eq_Inr)
  show ?thesis
    by (rule execute_returns [of 0 d vis v])
      (use p in \<open>auto simp: parse_imp_def bindR_eq_Inr split: if_splits parse_return.splits\<close>)
qed

lemma parse_imp_object:
  assumes "wf_mobj x" and "drop off d = pack_object x @ rest"
    and "run_visits vis v (visits x) = Inr (v', True)"
  shows "parse_imp vis d off v =
    Inr (if rest = [] then PARSE_SUCCESS else PARSE_EXTRA_BYTES, off + length (pack_object x), v')"
proof -
  have "off < length d" using assms(2) by (metis append_is_Nil_conv drop_all not_less pack_object_nonempty)
  moreover have "length d = off + length (pack_object x) + length rest"
    using drop_eq_append_length [OF assms(2)] calculation by simp
  ultimately show ?thesis
    using exec_object [OF assms] by (simp add: parse_imp_def execute_def)
qed

lemma parse_imp_prefix:
  assumes "wf_mobj x" and "pack_object x = p @ q" and "q \<noteq> []"
    and "run_visits vis v (visits x) = Inr (v', True)"
  shows "\<exists>off u. parse_imp vis p 0 v =
    bindR (on_insufficient_bytes vis u) (\<lambda>u. Inr (PARSE_CONTINUE, off, u))"
proof (cases "p = []")
  case True
  then show ?thesis by (auto simp: parse_imp_def)
next
  case False
  with exec_prefix [OF assms(1,2) _ assms(3,4)] obtain off u
    where "exec_loop vis p (start_state v 0) = Some (Done PARSE_CONTINUE off u)" by blast
  with False show ?thesis by (auto simp: parse_imp_def execute_def)
qed

section \<open>Visitors with an invariant\<close>

text \<open>
  What the parser guarantees its visitor: a visit that closes an item or a container comes only
  while a container is open, and the bytes a visit carries are bytes of the input.
\<close>

fun depth_change :: "visit \<Rightarrow> nat \<Rightarrow> nat" where
  "depth_change (start_array n) k = Suc k"
| "depth_change (start_map n) k = Suc k"
| "depth_change end_array k = k - 1"
| "depth_change end_map k = k - 1"
| "depth_change w k = k"

fun closes :: "visit \<Rightarrow> bool" where
  "closes end_array_item = True"
| "closes end_array = True"
| "closes end_map_key = True"
| "closes end_map_value = True"
| "closes end_map = True"
| "closes w = False"

fun visit_size :: "visit \<Rightarrow> nat" where
  "visit_size (visit_str b) = length b"
| "visit_size (visit_bin b) = length b"
| "visit_size (visit_ext b) = length b"
| "visit_size w = 0"

locale visitor_contract =
  fixes vis :: "'v visitor"
    and I :: "nat \<Rightarrow> 'v \<Rightarrow> bool"
    and F :: "'v \<Rightarrow> bool"
    and E :: "failure \<Rightarrow> bool"
    and lim :: nat
  assumes visit:
    "I n v \<Longrightarrow> closes w \<longrightarrow> 0 < n \<Longrightarrow> visit_size w \<le> lim \<Longrightarrow>
     (\<exists>e. on_visit vis v w = Inl e \<and> E e) \<or>
     (\<exists>v' ok. on_visit vis v w = Inr (v', ok) \<and> F v' \<and> (ok \<longrightarrow> I (depth_change w n) v'))"
    and invariant_final: "I n v \<Longrightarrow> F v"
    and parse_error:
    "I n v \<Longrightarrow> (\<exists>e. on_parse_error vis v = Inl e \<and> E e) \<or> (\<exists>v'. on_parse_error vis v = Inr v' \<and> F v')"
    and insufficient:
    "F v \<Longrightarrow> (\<exists>e. on_insufficient_bytes vis v = Inl e \<and> E e) \<or>
     (\<exists>v'. on_insufficient_bytes vis v = Inr v' \<and> F v')"
begin

lemma visit_cases:
  assumes "I n v" and "closes w \<longrightarrow> 0 < n" and "visit_size w \<le> lim"
  obtains (throws) e where "on_visit vis v w = Inl e" "E e"
  | (stops) v' where "on_visit vis v w = Inr (v', False)" "F v'"
  | (goes) v' where "on_visit vis v w = Inr (v', True)" "F v'" "I (depth_change w n) v'"
  using visit [OF assms] by (metis (full_types))

definition good_consume :: "('v \<times> unpack_stack \<times> nat \<times> parse_return) result \<Rightarrow> bool" where
  "good_consume r \<longleftrightarrow>
     (case r of Inl e \<Rightarrow> E e
      | Inr (v, st, cur, ret) \<Rightarrow> F v \<and> (ret = PARSE_CONTINUE \<longrightarrow> I (length st) v))"

lemma good_consume_simps [simp]:
  "good_consume (Inl e) = E e"
  "good_consume (Inr (v, st, cur, ret)) \<longleftrightarrow> F v \<and> (ret = PARSE_CONTINUE \<longrightarrow> I (length st) v)"
  by (simp_all add: good_consume_def)

lemma good_consume_visit:
  assumes "I n v" and "closes w \<longrightarrow> 0 < n" and "visit_size w \<le> lim"
    and "\<And>u. F u \<Longrightarrow> good_consume (k (u, False))"
    and "\<And>u. I (depth_change w n) u \<Longrightarrow> good_consume (k (u, True))"
  shows "good_consume (bindR (on_visit vis v w) k)"
  using assms(1-3) by (cases rule: visit_cases) (auto simp: assms(4,5))

lemma consume_good: "I (length st) v \<Longrightarrow> good_consume (consume vis st v cur)"
proof (induction st arbitrary: v)
  case Nil
  then show ?case by (simp add: invariant_final)
next
  case (Cons e st)
  obtain ty rest where e: "e = (ty, rest)" by (cases e)
  show ?case
  proof (cases ty)
    case CT_ARRAY_ITEM
    then show ?thesis
      unfolding e by (auto intro!: good_consume_visit [OF Cons.prems] good_consume_visit [where n = "Suc (length st)"]
        simp: Cons.IH invariant_final)
  next
    case CT_MAP_KEY
    then show ?thesis
      unfolding e by (auto intro!: good_consume_visit [OF Cons.prems] good_consume_visit [where n = "Suc (length st)"]
        simp: Cons.IH invariant_final)
  next
    case CT_MAP_VALUE
    then show ?thesis
      unfolding e by (auto intro!: good_consume_visit [OF Cons.prems] good_consume_visit [where n = "Suc (length st)"]
        simp: Cons.IH invariant_final)
  qed
qed

definition good :: "'v pstate \<Rightarrow> bool" where
  "good s \<longleftrightarrow>
     (case s of Run cs trail st v cur again \<Rightarrow> I (length st) v | Done ret off v \<Rightarrow> F v | Failed e \<Rightarrow> E e)"

lemma good_simps [simp]:
  "good (Run cs trail st v cur again) \<longleftrightarrow> I (length st) v"
  "good (Done ret off v) \<longleftrightarrow> F v"
  "good (Failed e) \<longleftrightarrow> E e"
  by (simp_all add: good_def)

lemma finish_consume_good: "I (length st) v \<Longrightarrow> good (finish_consume (consume vis st v cur))"
  using consume_good [of st v cur]
  by (cases "consume vis st v cur") (auto simp: finish_consume_def)

lemma after_visit_good:
  assumes "I (length st) v" and "\<not> closes w" and "visit_size w \<le> lim" and "\<And>k. depth_change w k = k"
  shows "good (after_visit_proc vis st cur (on_visit vis v w))"
proof -
  from assms(2) have "closes w \<longrightarrow> 0 < length st" by simp
  from assms(1) this assms(3) show ?thesis
    by (cases rule: visit_cases) (simp_all add: after_visit_proc_def assms(4) finish_consume_good)
qed

lemma start_aggregate_good:
  assumes "I (length st) v"
    and "(sv, ev, ty) \<in> {(start_array n, end_array, CT_ARRAY_ITEM), (start_map n, end_map, CT_MAP_KEY)}"
  shows "good (start_aggregate vis st v cur ty sv ev n)"
proof -
  have w: "\<not> closes sv" "depth_change sv (length st) = Suc (length st)" "visit_size sv = 0" "visit_size ev = 0"
    "depth_change ev (Suc (length st)) = length st" "visit_size (first_item ty) = 0"
    "depth_change (first_item ty) k = k" "\<not> closes (first_item ty)" for k
    using assms(2) by auto
  have c: "closes sv \<longrightarrow> 0 < length st" "visit_size sv \<le> lim" by (simp_all add: w)
  show ?thesis
  proof (rule visit_cases [OF assms(1) c])
    fix v1
    assume v1: "on_visit vis v sv = Inr (v1, True)" "I (depth_change sv (length st)) v1"
    then have I1: "I (Suc (length st)) v1" by (simp add: w)
    have e: "closes ev \<longrightarrow> 0 < Suc (length st)" "visit_size ev \<le> lim"
      "closes (first_item ty) \<longrightarrow> 0 < Suc (length st)" "visit_size (first_item ty) \<le> lim"
      by (simp_all add: w)
    show ?thesis
    proof (cases "n = 0")
      case True
      show ?thesis
        by (rule visit_cases [OF I1 e(1,2)])
          (use True v1 in \<open>simp_all add: w start_aggregate_def finish_consume_good\<close>)
    next
      case False
      show ?thesis
        by (rule visit_cases [OF I1 e(3,4)]) (use False v1 in \<open>simp_all add: w start_aggregate_def\<close>)
    qed
  qed (simp_all add: start_aggregate_def)
qed

lemma report_good: "I n v \<Longrightarrow> good (report_parse_error vis v cur)"
  using parse_error [of n v] by (auto simp: report_parse_error_def)

lemma body_length_good:
  assumes "I (length st) v" and "\<not> closes w" and "visit_size w \<le> lim" and "\<And>k. depth_change w k = k"
  shows "good (body_length vis st v cur w acs trail)"
  using after_visit_good [OF assms] assms(1) by (simp add: body_length_def)

lemmas step_good = after_visit_good start_aggregate_good report_good body_length_good

lemma bytes_at_short: "length d \<le> lim \<Longrightarrow> length (bytes_at d n k) \<le> lim"
  by (simp add: bytes_at_def)

lemma trail_step_good:
  assumes "I (length st) v" and "length d \<le> lim"
  shows "good (trail_step vis d cs trail st v n)"
  unfolding trail_step_def Let_def
  by (cases cs) (simp_all add: step_good [OF assms(1)] bytes_at_short [OF assms(2)] invariant_final [OF assms(1)])

lemma header_step_good:
  assumes "I (length st) v" and "length d \<le> lim"
  shows "good (header_step vis d st v cur sel)"
  unfolding header_step_def Let_def
  by (simp add: step_good [OF assms(1)] trail_step_good [OF assms])

lemma exec_step_good:
  assumes "good s" and "length d \<le> lim"
  shows "good (exec_step vis d s)"
proof (cases s)
  case (Run cs trail st v cur again)
  let ?r = "if cs = CS_HEADER then header_step vis d st v cur (d ! cur)
    else trail_step vis d cs trail st v (if again then cur + 1 else cur)"
  have "good ?r" using assms Run by (simp add: header_step_good trail_step_good)
  then have "good (loop_check (length d) ?r)" by (cases ?r) (auto intro: invariant_final)
  then show ?thesis by (simp add: Run exec_step_def)
qed (use assms in \<open>simp_all add: exec_step_def\<close>)

lemma execute_good:
  assumes "I 0 v" and "length d \<le> lim" and "off \<le> length d"
  shows "(\<exists>e. execute vis d off v = Inl e \<and> E e) \<or>
    (\<exists>ret off' v'. execute vis d off v = Inr (ret, off', v') \<and> off' \<le> length d \<and> F v')"
proof (cases "off = length d")
  case True
  then show ?thesis by (simp add: execute_def invariant_final [OF assms(1)])
next
  case False
  then have "ready (length d) (start_state v off)" using assms(3) by simp
  from exec_loop_returns [OF this, of vis] obtain s
    where s: "exec_loop vis d (start_state v off) = Some s" "\<not> is_run s" "ready (length d) s" by blast
  have "good s"
    by (rule while_option_rule [OF _ s(1) [unfolded exec_loop_def], where P = good])
      (use assms exec_step_good in auto)
  with s False show ?thesis by (cases s) (auto simp: execute_def)
qed

lemma parse_imp_good:
  assumes "I 0 v" and "length d \<le> lim"
  shows "(\<exists>e. parse_imp vis d off v = Inl e \<and> E e) \<or>
    (\<exists>ret off' v'. parse_imp vis d off v = Inr (ret, off', v') \<and> F v' \<and>
       (off' = off \<or> off' \<le> length d))"
proof (cases "length d \<le> off")
  case True
  with insufficient [OF invariant_final [OF assms(1)]] show ?thesis by (auto simp: parse_imp_def)
next
  case False
  from execute_good [OF assms, of off] False show ?thesis
    using insufficient by (fastforce simp: parse_imp_def split: parse_return.splits)
qed

lemma msgpack_parse_good:
  assumes "I 0 v" and "length d \<le> lim"
  shows "(\<exists>e. msgpack_parse vis d off v = Inl e \<and> E e) \<or>
    (\<exists>ok off' v'. msgpack_parse vis d off v = Inr (ok, off', v') \<and> F v')"
  using parse_imp_good [OF assms, of off] by (auto simp: msgpack_parse_def)

end

end
