(* ===== verification/Msgpack_Unpack.thy ===== *)
theory Msgpack_Unpack
  imports Msgpack_Progress
begin

text \<open>
  The visitors msgpack-c comes with and \<open>msgpack::unpack\<close>
  (\<^verbatim>\<open>v2/null_visitor.hpp\<close>, \<^verbatim>\<open>v2/create_object_visitor.hpp\<close>,
  \<^verbatim>\<open>v2/unpack.hpp\<close>, \<^verbatim>\<open>v3/unpack.hpp\<close>), and the round trip of a
  packed object through them.

  \<open>create_object_visitor\<close> keeps a stack of pointers into the arrays it fills. The model keeps,
  for each open container, the slots it has filled (last first) and the slot the pointer refers to;
  a container becomes the value of its own slot when it is closed. Memory for the arrays comes from
  the zone, which is taken to have it.
\<close>

section \<open>The visitors\<close>

definition null_visitor :: "unit visitor" where
  "null_visitor =
     \<lparr>on_visit = (\<lambda>v w. Inr (v, True)), on_parse_error = Inr, on_insufficient_bytes = Inr\<rparr>"

record unpack_limit =
  limit_array :: size_t
  limit_map :: size_t
  limit_str :: size_t
  limit_bin :: size_t
  limit_ext :: size_t
  limit_depth :: size_t

definition unpack_limit_default :: unpack_limit where
  "unpack_limit_default =
     \<lparr>limit_array = 0xffffffff, limit_map = 0xffffffff, limit_str = 0xffffffff,
      limit_bin = 0xffffffff, limit_ext = 0xffffffff, limit_depth = 0xffffffff\<rparr>"

datatype cframe = Cframe (filled: "mobj list") (slot: mobj)

record object_builder =
  m_obj :: mobj
  m_stack :: "cframe list"

definition new_builder :: object_builder where
  "new_builder = \<lparr>m_obj = NIL, m_stack = []\<rparr>"

definition set_back :: "object_builder \<Rightarrow> mobj \<Rightarrow> object_builder" where
  "set_back b ob =
     (case m_stack b of
        [] \<Rightarrow> b\<lparr>m_obj := ob\<rparr>
      | f # fs \<Rightarrow> b\<lparr>m_stack := Cframe (filled f) ob # fs\<rparr>)"

definition push_frame :: "object_builder \<Rightarrow> object_builder" where
  "push_frame b = b\<lparr>m_stack := Cframe [] NIL # m_stack b\<rparr>"

definition next_slot :: "object_builder \<Rightarrow> object_builder result" where
  "next_slot b =
     (case m_stack b of
        [] \<Rightarrow> Inl Undefined
      | f # fs \<Rightarrow> Inr (b\<lparr>m_stack := Cframe (slot f # filled f) NIL # fs\<rparr>))"

definition pop_frame :: "object_builder \<Rightarrow> (mobj list \<Rightarrow> mobj) \<Rightarrow> object_builder result" where
  "pop_frame b mk =
     (case m_stack b of
        [] \<Rightarrow> Inl Undefined
      | f # fs \<Rightarrow> Inr (set_back (b\<lparr>m_stack := fs\<rparr>) (mk (rev (filled f)))))"

fun key_values :: "mobj list \<Rightarrow> (mobj \<times> mobj) list" where
  "key_values (k # v # r) = (k, v) # key_values r"
| "key_values _ = []"

definition check_size :: "size_t \<Rightarrow> nat \<Rightarrow> string \<Rightarrow> 'a result \<Rightarrow> 'a result" where
  "check_size limit n what k =
     (if n > unat limit then Inl (Throw (Msgpack_Size_Overflow what)) else k)"

fun create_object_visit :: "unpack_limit \<Rightarrow> object_builder \<Rightarrow> visit \<Rightarrow> object_builder result" where
  "create_object_visit l b visit_nil = Inr (set_back b NIL)"
| "create_object_visit l b (visit_boolean v) = Inr (set_back b (BOOLEAN v))"
| "create_object_visit l b (visit_positive_integer v) = Inr (set_back b (POSITIVE_INTEGER v))"
| "create_object_visit l b (visit_negative_integer v) =
     Inr (set_back b (if 0 \<le> sint v then POSITIVE_INTEGER v else NEGATIVE_INTEGER v))"
| "create_object_visit l b (visit_float32 v) = Inr (set_back b (FLOAT32 v))"
| "create_object_visit l b (visit_float64 v) = Inr (set_back b (FLOAT64 v))"
| "create_object_visit l b (visit_str v) =
     check_size (limit_str l) (length v) ''str size overflow'' (Inr (set_back b (STRING v)))"
| "create_object_visit l b (visit_bin v) =
     check_size (limit_bin l) (length v) ''bin size overflow'' (Inr (set_back b (BIN v)))"
| "create_object_visit l b (visit_ext v) =
     check_size (limit_ext l) (length v) ''ext size overflow'' (Inr (set_back b (EXT v)))"
| "create_object_visit l b (start_array n) =
     check_size (limit_array l) (unat n) ''array size overflow''
       (check_size (limit_depth l) (length (m_stack b) + 1) ''depth size overflow''
         (Inr (push_frame b)))"
| "create_object_visit l b start_array_item = Inr b"
| "create_object_visit l b end_array_item = next_slot b"
| "create_object_visit l b end_array = pop_frame b ARRAY"
| "create_object_visit l b (start_map n) =
     check_size (limit_map l) (unat n) ''map size overflow''
       (check_size (limit_depth l) (length (m_stack b) + 1) ''depth size overflow''
         (Inr (push_frame b)))"
| "create_object_visit l b start_map_key = Inr b"
| "create_object_visit l b end_map_key = next_slot b"
| "create_object_visit l b start_map_value = Inr b"
| "create_object_visit l b end_map_value = next_slot b"
| "create_object_visit l b end_map = pop_frame b (\<lambda>xs. MAP (key_values xs))"

definition create_object_visitor :: "unpack_limit \<Rightarrow> object_builder visitor" where
  "create_object_visitor l =
     \<lparr>on_visit = (\<lambda>b w. bindR (create_object_visit l b w) (\<lambda>b. Inr (b, True))),
      on_parse_error = (\<lambda>b. Inl (Throw Msgpack_Parse_Error)),
      on_insufficient_bytes = (\<lambda>b. Inl (Throw Msgpack_Insufficient_Bytes))\<rparr>"

section \<open>unpack\<close>

definition unpack_imp :: "bytes \<Rightarrow> nat \<Rightarrow> unpack_limit \<Rightarrow> (parse_return \<times> nat \<times> mobj) result" where
  "unpack_imp d off l =
     bindR (parse_imp (create_object_visitor l) d off new_builder) (\<lambda>(ret, off, b).
       Inr (ret, off, m_obj b))"

text \<open>An object handle without an object is a handle of \<open>NIL\<close>.\<close>

definition unpack :: "bytes \<Rightarrow> mobj result" where
  "unpack d =
     bindR (unpack_imp d 0 unpack_limit_default) (\<lambda>(ret, off, ob).
       Inr (if ret = PARSE_SUCCESS \<or> ret = PARSE_EXTRA_BYTES then ob else NIL))"

section \<open>The round trip\<close>

fun mdepth :: "mobj \<Rightarrow> nat" where
  "mdepth (ARRAY xs) = Suc (foldr (\<lambda>x n. max (mdepth x) n) xs 0)"
| "mdepth (MAP kvs) = Suc (foldr (\<lambda>kv n. max (max (mdepth (fst kv)) (mdepth (snd kv))) n) kvs 0)"
| "mdepth _ = 0"

lemma foldr_max_ge: "x \<in> set xs \<Longrightarrow> f x \<le> foldr (\<lambda>x n. max (f x) n) xs (0::nat)"
  by (induction xs) auto

definition fills :: "unpack_limit \<Rightarrow> mobj \<Rightarrow> bool" where
  "fills l x \<longleftrightarrow> (\<forall>b. length (m_stack b) + mdepth x \<le> unat (limit_depth l) \<longrightarrow>
     run_visits (create_object_visitor l) b (visits x) = Inr (set_back b x, True))"

definition within_limits :: "unpack_limit \<Rightarrow> bool" where
  "within_limits l \<longleftrightarrow> 0xffffffff \<le> limit_array l \<and> 0xffffffff \<le> limit_map l \<and> 0xffffffff \<le> limit_str l \<and>
     0xffffffff \<le> limit_bin l \<and> 0xffffffff \<le> limit_ext l"

lemma on_visit_create [simp]:
  "on_visit (create_object_visitor l) b w = bindR (create_object_visit l b w) (\<lambda>b. Inr (b, True))"
  by (simp add: create_object_visitor_def)

lemma run_create_Cons:
  "run_visits (create_object_visitor l) b (w # ws) =
   bindR (create_object_visit l b w) (\<lambda>b. run_visits (create_object_visitor l) b ws)"
  by (cases "create_object_visit l b w") (simp_all add: run_visits.simps(2))

lemma run_create_append:
  "run_visits (create_object_visitor l) b (ws @ ws') =
   bindR (run_visits (create_object_visitor l) b ws)
     (\<lambda>(b, ok). if ok then run_visits (create_object_visitor l) b ws' else Inr (b, False))"
  by (induction ws arbitrary: b) (simp_all add: run_create_Cons bindR_assoc)

lemma set_back_simps [simp]:
  "length (m_stack (set_back b x)) = length (m_stack b)"
  "set_back (set_back b x) y = set_back b y"
  by (auto simp: set_back_def split: list.splits)

lemma fill_slot:
  "fills l x \<Longrightarrow> Suc (length fs) + mdepth x \<le> unat (limit_depth l) \<Longrightarrow>
   run_visits (create_object_visitor l) (b\<lparr>m_stack := Cframe xs y # fs\<rparr>) (visits x) =
   Inr (b\<lparr>m_stack := Cframe xs x # fs\<rparr>, True)"
  by (simp add: fills_def set_back_def)

lemma run_items:
  assumes "\<forall>x \<in> set xs. fills l x \<and> Suc (length fs) + mdepth x \<le> unat (limit_depth l)"
  shows "run_visits (create_object_visitor l) (b\<lparr>m_stack := Cframe ys NIL # fs\<rparr>)
    (concat (map (\<lambda>x. start_array_item # visits x @ [end_array_item]) xs)) =
    Inr (b\<lparr>m_stack := Cframe (rev xs @ ys) NIL # fs\<rparr>, True)"
  using assms
  by (induction xs arbitrary: ys) (simp_all add: run_create_Cons run_create_append fill_slot next_slot_def)

lemma run_pairs:
  assumes "\<forall>(k, v) \<in> set kvs. fills l k \<and> fills l v \<and> Suc (length fs) + mdepth k \<le> unat (limit_depth l) \<and>
     Suc (length fs) + mdepth v \<le> unat (limit_depth l)"
  shows "run_visits (create_object_visitor l) (b\<lparr>m_stack := Cframe ys NIL # fs\<rparr>)
    (concat (map (\<lambda>(k, v). start_map_key # visits k @ [end_map_key] @
                              start_map_value # visits v @ [end_map_value]) kvs)) =
    Inr (b\<lparr>m_stack := Cframe (rev (concat (map (\<lambda>(k, v). [k, v]) kvs)) @ ys) NIL # fs\<rparr>, True)"
  using assms
  by (induction kvs arbitrary: ys) (auto simp: run_create_Cons run_create_append fill_slot next_slot_def)

lemma key_values_concat [simp]: "key_values (concat (map (\<lambda>(k, v). [k, v]) kvs)) = kvs"
  by (induction kvs) auto


lemma pop_array:
  "pop_frame (b\<lparr>m_stack := Cframe xs NIL # m_stack b\<rparr>) mk = Inr (set_back b (mk (rev xs)))"
  by (simp add: pop_frame_def)

lemma fills_array:
  assumes "\<forall>x \<in> set xs. fills l x" and "length xs < 2 ^ 32" and "within_limits l"
  shows "fills l (ARRAY xs)"
  unfolding fills_def
proof (intro allI impI)
  fix b :: object_builder
  assume d: "length (m_stack b) + mdepth (ARRAY xs) \<le> unat (limit_depth l)"
  have items: "\<forall>x \<in> set xs. fills l x \<and> Suc (length (m_stack b)) + mdepth x \<le> unat (limit_depth l)"
    using assms(1) d foldr_max_ge [of _ xs mdepth] by fastforce
  have n: "length xs \<le> unat (limit_array l)"
    using assms(2,3) by (simp add: within_limits_def word_le_nat_alt)
  from run_items [OF items, where b = b and ys = "[]"] d n assms(2)
  show "run_visits (create_object_visitor l) b (visits (ARRAY xs)) = Inr (set_back b (ARRAY xs), True)"
    by (simp add: run_create_Cons run_create_append check_size_def push_frame_def pop_array)
qed

lemma fills_map:
  assumes "\<forall>(k, v) \<in> set kvs. fills l k \<and> fills l v" and "length kvs < 2 ^ 32" and "within_limits l"
  shows "fills l (MAP kvs)"
  unfolding fills_def
proof (intro allI impI)
  fix b :: object_builder
  assume d: "length (m_stack b) + mdepth (MAP kvs) \<le> unat (limit_depth l)"
  have "Suc (length (m_stack b)) + mdepth k \<le> unat (limit_depth l) \<and>
      Suc (length (m_stack b)) + mdepth v \<le> unat (limit_depth l)" if "(k, v) \<in> set kvs" for k v
    using d foldr_max_ge [OF that, of "\<lambda>kv. max (mdepth (fst kv)) (mdepth (snd kv))"] by simp
  then have items: "\<forall>(k, v) \<in> set kvs. fills l k \<and> fills l v \<and>
      Suc (length (m_stack b)) + mdepth k \<le> unat (limit_depth l) \<and>
      Suc (length (m_stack b)) + mdepth v \<le> unat (limit_depth l)"
    using assms(1) by blast
  have n: "length kvs \<le> unat (limit_map l)"
    using assms(2,3) by (simp add: within_limits_def word_le_nat_alt)
  from run_pairs [OF items, where b = b and ys = "[]"] d n assms(2)
  show "run_visits (create_object_visitor l) b (visits (MAP kvs)) = Inr (set_back b (MAP kvs), True)"
    by (simp add: run_create_Cons run_create_append check_size_def push_frame_def pop_array)
qed

lemma fills_object: "wf_mobj x \<Longrightarrow> within_limits l \<Longrightarrow> fills l x"
proof (induction x rule: visits.induct)
  case (10 xs)
  then show ?case by (intro fills_array) simp_all
next
  case (11 kvs)
  then show ?case by (intro fills_map) auto
qed (auto simp: fills_def run_create_Cons check_size_def within_limits_def word_le_nat_alt)

lemma within_limits_default [simp]: "within_limits unpack_limit_default"
  by (simp add: within_limits_def unpack_limit_default_def)

lemma run_create_object:
  assumes "wf_mobj x" and "mdepth x < 2 ^ 32"
  shows "run_visits (create_object_visitor unpack_limit_default) new_builder (visits x) =
    Inr (\<lparr>m_obj = x, m_stack = []\<rparr>, True)"
proof -
  have "mdepth x \<le> unat (limit_depth unpack_limit_default)"
    using assms(2) by (simp add: unpack_limit_default_def)
  with fills_object [OF assms(1) within_limits_default] show ?thesis
    by (simp add: fills_def new_builder_def set_back_def)
qed

lemma unpack_packed:
  assumes "wf_mobj x" and "mdepth x < 2 ^ 32"
  shows "unpack (pack_object x @ rest) = Inr x"
  using parse_imp_object [OF assms(1) _ run_create_object [OF assms], of 0 "pack_object x @ rest" rest]
  by (simp add: unpack_def unpack_imp_def)

lemma unpack_truncated:
  assumes "wf_mobj x" and "mdepth x < 2 ^ 32" and "pack_object x = p @ q" and "q \<noteq> []"
  shows "unpack p = Inl (Throw Msgpack_Insufficient_Bytes)"
proof -
  from parse_imp_prefix [OF assms(1,3,4) run_create_object [OF assms(1,2)]] obtain off u
    where "parse_imp (create_object_visitor unpack_limit_default) p 0 new_builder =
      bindR (on_insufficient_bytes (create_object_visitor unpack_limit_default) u)
        (\<lambda>u. Inr (PARSE_CONTINUE, off, u))" by blast
  then show ?thesis by (simp add: unpack_def unpack_imp_def create_object_visitor_def)
qed

section \<open>Arbitrary input\<close>

text \<open>
  The exceptions of \<open>create_object_visitor\<close>. The visits the parser makes keep the builder's stack as
  deep as the parser's, so that no visit leaves the builder's arrays.
\<close>

definition unpack_failure :: "failure \<Rightarrow> bool" where
  "unpack_failure e \<longleftrightarrow>
     (\<exists>what. e = Throw (Msgpack_Size_Overflow what)) \<or> e = Throw Msgpack_Parse_Error \<or>
     e = Throw Msgpack_Insufficient_Bytes"

lemma create_object_visit_cases:
  assumes "closes w \<longrightarrow> m_stack b \<noteq> []"
  shows "(\<exists>e. create_object_visit l b w = Inl e \<and> unpack_failure e) \<or>
    (\<exists>b'. create_object_visit l b w = Inr b' \<and>
       length (m_stack b') = depth_change w (length (m_stack b)))"
  using assms
  by (cases w)
    (auto simp: check_size_def next_slot_def pop_frame_def push_frame_def unpack_failure_def
      split: list.splits)

interpretation builder: visitor_contract "create_object_visitor l" "\<lambda>n b. length (m_stack b) = n"
  "\<lambda>b. True" unpack_failure lim
proof
  fix n w and b :: object_builder
  assume n: "length (m_stack b) = n" and w: "closes w \<longrightarrow> 0 < n"
  show "(\<exists>e. on_visit (create_object_visitor l) b w = Inl e \<and> unpack_failure e) \<or>
    (\<exists>b' ok. on_visit (create_object_visitor l) b w = Inr (b', ok) \<and> True \<and>
       (ok \<longrightarrow> length (m_stack b') = depth_change w n))"
    using create_object_visit_cases [of w b l] n w
    by (cases "create_object_visit l b w") auto
qed (auto simp: create_object_visitor_def unpack_failure_def)

lemma unpack_returns: "(\<exists>x. unpack d = Inr x) \<or> (\<exists>e. unpack d = Inl e \<and> unpack_failure e)"
  using builder.parse_imp_good [of new_builder d "length d" unpack_limit_default 0]
  by (auto simp: unpack_def unpack_imp_def new_builder_def)

end
