(* ===== verification/Message.thy ===== *)
theory Message
  imports Msgpack_Unpack
begin

text \<open>
  MessagePack-RPC messages: \<open>message\<close> of \<^verbatim>\<open>include/mprpc/message.h\<close>, the message
  types of \<^verbatim>\<open>message_def.h\<close> and the packing functions of
  \<^verbatim>\<open>pack_data.h\<close>, with the adaptors of msgpack-c they use (integers, enumerations,
  strings, tuples).

  A parameter, result or error of a caller's own type enters as the bytes its adaptor packs, and
  leaves through a conversion the caller supplies.
\<close>

section \<open>Adaptors\<close>

definition convert_int32 :: "mobj \<Rightarrow> int result" where
  "convert_int32 ob =
     (case ob of
        POSITIVE_INTEGER v \<Rightarrow>
          if uint v > 2 ^ 31 - 1 then Inl (Throw Msgpack_Type_Error) else Inr (uint v)
      | NEGATIVE_INTEGER v \<Rightarrow>
          if sint v < - (2 ^ 31) then Inl (Throw Msgpack_Type_Error) else Inr (sint v)
      | _ \<Rightarrow> Inl (Throw Msgpack_Type_Error))"

definition convert_uint32 :: "mobj \<Rightarrow> u32 result" where
  "convert_uint32 ob =
     (case ob of
        POSITIVE_INTEGER v \<Rightarrow>
          if uint v > 2 ^ 32 - 1 then Inl (Throw Msgpack_Type_Error) else Inr (ucast v)
      | _ \<Rightarrow> Inl (Throw Msgpack_Type_Error))"

definition convert_string :: "mobj \<Rightarrow> string result" where
  "convert_string ob =
     (case ob of
        BIN b \<Rightarrow> Inr (bytes_string b)
      | STRING b \<Rightarrow> Inr (bytes_string b)
      | _ \<Rightarrow> Inl (Throw Msgpack_Type_Error))"

definition checked_get_container_size :: "nat \<Rightarrow> nat result" where
  "checked_get_container_size n =
     (if n > 0xffffffff then Inl (Throw Msgpack_Container_Size_Overflow) else Inr n)"

definition pack_string :: "string \<Rightarrow> bytes result" where
  "pack_string v =
     bindR (checked_get_container_size (length v)) (\<lambda>n. Inr (pack_str n @ string_bytes v))"

text \<open>A tuple packs its size and then its elements in order; an element may throw.\<close>

fun pack_elements :: "bytes result list \<Rightarrow> bytes result" where
  "pack_elements [] = Inr []"
| "pack_elements (e # es) =
     bindR e (\<lambda>b. bindR (pack_elements es) (\<lambda>bs. Inr (b @ bs)))"

definition pack_tuple :: "bytes result list \<Rightarrow> bytes result" where
  "pack_tuple es =
     bindR (checked_get_container_size (length es)) (\<lambda>n.
     bindR (pack_elements es) (\<lambda>bs. Inr (pack_array n @ bs)))"

section \<open>Messages\<close>

text \<open>\<open>msgtype\<close> is an enumeration over \<open>int\<close>; a message that is not yet parsed has -1.\<close>

type_synonym msgtype = int
type_synonym msgid_t = u32

definition request :: msgtype where "request = 0"
definition response :: msgtype where "response = 1"
definition notification :: msgtype where "notification = 2"

lemmas msgtype_defs = request_def response_def notification_def

record message =
  msg_data :: message_data
  msg_handle :: mobj
  msg_type :: msgtype
  msg_id :: msgid_t
  msg_method_name :: string
  msg_params_ptr :: "mobj option"
  msg_error_ptr :: "mobj option"
  msg_result_ptr :: "mobj option"

definition empty_message :: message where
  "empty_message =
     \<lparr>msg_data = None, msg_handle = NIL, msg_type = - 1, msg_id = 0, msg_method_name = [],
      msg_params_ptr = None, msg_error_ptr = None, msg_result_ptr = None\<rparr>"

definition invalid_message_error :: "string \<Rightarrow> mobj \<Rightarrow> 'a result" where
  "invalid_message_error text ob =
     throw_error (make_error_data invalid_message text (Some (pack_object ob)))"

text \<open>A conversion in a \<open>try\<close> block that turns \<open>msgpack::type_error\<close> into an error.\<close>

definition converted :: "'a result \<Rightarrow> string \<Rightarrow> mobj \<Rightarrow> 'a result" where
  "converted r text ob =
     (if r = Inl (Throw Msgpack_Type_Error) then invalid_message_error text ob else r)"

fun is_array :: "mobj \<Rightarrow> bool" where
  "is_array (ARRAY xs) = True"
| "is_array _ = False"

fun array_of :: "mobj \<Rightarrow> mobj list" where
  "array_of (ARRAY xs) = xs"
| "array_of _ = []"

definition parse_request :: "message \<Rightarrow> message result" where
  "parse_request m =
     (let h = msg_handle m; array = array_of h in
      if length array \<noteq> 4 then invalid_message_error ''request message must have 4 elements'' h
      else
        bindR (converted (convert_uint32 (array ! 1))
                 ''message ID must a 32-but unsigned integer'' h) (\<lambda>i.
        bindR (converted (convert_string (array ! 2)) ''method name must be a string'' h) (\<lambda>s.
        if \<not> is_array (array ! 3) then invalid_message_error ''paramters must be an array'' h
        else Inr (m\<lparr>msg_id := i, msg_method_name := s, msg_params_ptr := Some (array ! 3)\<rparr>))))"

definition parse_response :: "message \<Rightarrow> message result" where
  "parse_response m =
     (let h = msg_handle m; array = array_of h in
      if length array \<noteq> 4 then invalid_message_error ''response message must have 4 elements'' h
      else
        bindR (converted (convert_uint32 (array ! 1))
                 ''message ID must a 32-but unsigned integer'' h) (\<lambda>i.
        Inr (m\<lparr>msg_id := i, msg_error_ptr := Some (array ! 2),
               msg_result_ptr := Some (array ! 3)\<rparr>)))"

definition parse_notification :: "message \<Rightarrow> message result" where
  "parse_notification m =
     (let h = msg_handle m; array = array_of h in
      if length array \<noteq> 3 then
        invalid_message_error ''notification message must have 3 elements'' h
      else
        bindR (converted (convert_string (array ! 1)) ''method name must be a string'' h) (\<lambda>s.
        if \<not> is_array (array ! 2) then invalid_message_error ''paramters must be an array'' h
        else Inr (m\<lparr>msg_method_name := s, msg_params_ptr := Some (array ! 2)\<rparr>)))"

definition parse_message :: "message \<Rightarrow> mobj \<Rightarrow> message result" where
  "parse_message m h =
     (let m = m\<lparr>msg_handle := h\<rparr> in
      if \<not> is_array h then invalid_message_error ''message is not an array'' h
      else if length (array_of h) < 3 then
        invalid_message_error ''message must have at least 3 elements'' h
      else
        bindR (converted (convert_int32 (array_of h ! 0)) ''message type is not an integer'' h) (\<lambda>t.
        let m = m\<lparr>msg_type := t\<rparr> in
        if t = request then parse_request m
        else if t = response then parse_response m
        else if t = notification then parse_notification m
        else invalid_message_error ''invalid message type'' h))"

text \<open>
  The constructor. An object without data has the null pointer and size 0. Of the exceptions of
  \<open>unpack\<close>, only \<open>parse_error\<close> is caught.
\<close>

definition message_ctor :: "message_data \<Rightarrow> message result" where
  "message_ctor data =
     (let r = bindR (unpack (case data of None \<Rightarrow> [] | Some d \<Rightarrow> d))
                (parse_message (empty_message\<lparr>msg_data := data\<rparr>)) in
      if r = Inl (Throw Msgpack_Parse_Error) then
        throw_error (make_error parse_error ''parse error of message'')
      else r)"

definition msg_method :: "message \<Rightarrow> string result" where
  "msg_method m =
     (if msg_type m = response then
        invalid_message_error ''tried to access to method name of response message'' (msg_handle m)
      else Inr (msg_method_name m))"

definition msg_params :: "message \<Rightarrow> mobj result" where
  "msg_params m =
     (if msg_type m = response then
        invalid_message_error ''tried to access to parameters of response message'' (msg_handle m)
      else deref (msg_params_ptr m))"

definition msg_params_as :: "(mobj \<Rightarrow> 'a result) \<Rightarrow> message \<Rightarrow> 'a result" where
  "msg_params_as conv m =
     converted (bindR (msg_params m) conv) ''failed to convert parameters'' (msg_handle m)"

definition msg_error :: "message \<Rightarrow> mobj result" where
  "msg_error m =
     (if msg_type m \<noteq> response then
        invalid_message_error ''tried to access to error of message not a response'' (msg_handle m)
      else deref (msg_error_ptr m))"

definition msg_has_error :: "message \<Rightarrow> bool result" where
  "msg_has_error m =
     (if msg_type m \<noteq> response then
        invalid_message_error ''tried to access to error of message not a response'' (msg_handle m)
      else bindR (deref (msg_error_ptr m)) (\<lambda>e. Inr (e \<noteq> NIL)))"

definition msg_error_as :: "(mobj \<Rightarrow> 'a result) \<Rightarrow> message \<Rightarrow> 'a result" where
  "msg_error_as conv m =
     converted (bindR (msg_error m) conv) ''failed to convert error'' (msg_handle m)"

definition msg_result :: "message \<Rightarrow> mobj result" where
  "msg_result m =
     (if msg_type m \<noteq> response then
        invalid_message_error ''tried to access to result of message not a response'' (msg_handle m)
      else deref (msg_result_ptr m))"

definition msg_result_as :: "(mobj \<Rightarrow> 'a result) \<Rightarrow> message \<Rightarrow> 'a result" where
  "msg_result_as conv m =
     converted (bindR (msg_result m) conv) ''failed to convert result'' (msg_handle m)"

section \<open>Packing messages\<close>

definition pack_data :: "bytes result \<Rightarrow> message_data result" where
  "pack_data packed = bindR packed (\<lambda>b. Inr (Some b))"

definition pack_request :: "msgid_t \<Rightarrow> string \<Rightarrow> bytes result \<Rightarrow> message_data result" where
  "pack_request i method params =
     pack_data (pack_tuple
       [Inr (pack_imp_int32 request), Inr (pack_imp_uint32 (uint i)), pack_string method, params])"

definition pack_response :: "msgid_t \<Rightarrow> bytes result \<Rightarrow> message_data result" where
  "pack_response i result =
     pack_data (pack_tuple
       [Inr (pack_imp_int32 response), Inr (pack_imp_uint32 (uint i)), Inr pack_nil, result])"

definition pack_error_response :: "msgid_t \<Rightarrow> bytes result \<Rightarrow> message_data result" where
  "pack_error_response i err =
     pack_data (pack_tuple
       [Inr (pack_imp_int32 response), Inr (pack_imp_uint32 (uint i)), err, Inr pack_nil])"

definition pack_notification :: "string \<Rightarrow> bytes result \<Rightarrow> message_data result" where
  "pack_notification method params =
     pack_data (pack_tuple [Inr (pack_imp_int32 notification), pack_string method, params])"

section \<open>Packed messages are packed objects\<close>

lemma pack_imp_uint32_object: "pack_imp_uint32 (uint i) = pack_object (POSITIVE_INTEGER (ucast (i :: u32)))"
proof -
  have "uint (ucast i :: u64) = uint i"
    using uint_lt2p [of i] by (simp add: unsigned_ucast_eq take_bit_int_eq_self_iff)
  moreover have "uint i < 2 ^ 32" using uint_lt2p [of i] by simp
  ultimately show ?thesis
    by (simp add: pack_object_def pack_imp_uint32_def pack_imp_uint64_def)
qed

lemma pack_imp_int32_object:
  "0 \<le> d \<Longrightarrow> d < 128 \<Longrightarrow> pack_imp_int32 d = pack_object (POSITIVE_INTEGER (of_int d))"
  by (simp add: pack_object_def pack_imp_int32_def pack_imp_uint64_def uint_word_of_int)

lemma pack_string_object:
  "length s < 2 ^ 32 \<Longrightarrow> pack_string s = Inr (pack_object (STRING (string_bytes s)))"
  by (simp add: pack_string_def checked_get_container_size_def pack_object_def)

lemma pack_nil_object: "pack_nil = pack_object NIL"
  by (simp add: pack_object_def)

lemma pack_elements_objects: "pack_elements (map (\<lambda>x. Inr (pack_object x)) xs) = Inr (concat (map pack_object xs))"
  by (induction xs) simp_all

lemma pack_tuple_objects:
  assumes "length xs < 2 ^ 32"
  shows "pack_tuple (map (\<lambda>x. Inr (pack_object x)) xs) = Inr (pack_object (ARRAY xs))"
  using assms pack_elements_objects [of xs]
  by (simp add: pack_tuple_def checked_get_container_size_def pack_object_ARRAY)

definition request_object :: "msgid_t \<Rightarrow> string \<Rightarrow> mobj \<Rightarrow> mobj" where
  "request_object i method params =
     ARRAY [POSITIVE_INTEGER 0, POSITIVE_INTEGER (ucast i), STRING (string_bytes method), params]"

definition response_object :: "msgid_t \<Rightarrow> mobj \<Rightarrow> mobj \<Rightarrow> mobj" where
  "response_object i err result =
     ARRAY [POSITIVE_INTEGER 1, POSITIVE_INTEGER (ucast i), err, result]"

definition notification_object :: "string \<Rightarrow> mobj \<Rightarrow> mobj" where
  "notification_object method params =
     ARRAY [POSITIVE_INTEGER 2, STRING (string_bytes method), params]"

lemmas message_objects = request_object_def response_object_def notification_object_def

lemma pack_message_objects:
  "length s < 2 ^ 32 \<Longrightarrow> pack_request i s (Inr (pack_object p)) = Inr (Some (pack_object (request_object i s p)))"
  "pack_response i (Inr (pack_object r)) = Inr (Some (pack_object (response_object i NIL r)))"
  "pack_error_response i (Inr (pack_object e)) = Inr (Some (pack_object (response_object i e NIL)))"
  "length s < 2 ^ 32 \<Longrightarrow> pack_notification s (Inr (pack_object p)) = Inr (Some (pack_object (notification_object s p)))"
  using pack_tuple_objects [of "[POSITIVE_INTEGER 0, POSITIVE_INTEGER (ucast i), STRING (string_bytes s), p]"]
    pack_tuple_objects [of "[POSITIVE_INTEGER 1, POSITIVE_INTEGER (ucast i), NIL, r]"]
    pack_tuple_objects [of "[POSITIVE_INTEGER 1, POSITIVE_INTEGER (ucast i), e, NIL]"]
    pack_tuple_objects [of "[POSITIVE_INTEGER 2, STRING (string_bytes s), p]"]
  by (simp_all add: pack_request_def pack_response_def pack_error_response_def pack_notification_def
      pack_data_def message_objects msgtype_defs pack_imp_int32_object pack_imp_uint32_object
      pack_string_object pack_nil_object del: pack_object_def)

section \<open>Parsing\<close>

lemma convert_uint32_ucast [simp]: "convert_uint32 (POSITIVE_INTEGER (ucast (i :: u32))) = Inr i"
proof -
  have u: "uint (ucast i :: u64) = uint i" and "uint i < 2 ^ 32"
    using uint_lt2p [of i] by (simp_all add: unsigned_ucast_eq take_bit_int_eq_self_iff)
  moreover have "ucast (ucast i :: u64) = i" unfolding ucast_eq [of "ucast i :: u64"] u by simp
  ultimately show ?thesis by (simp add: convert_uint32_def)
qed

lemma converted_Inr [simp]: "converted (Inr a) t ob = Inr a"
  by (simp add: converted_def)

lemma invalid_message_not_parse_error [simp]:
  "invalid_message_error t ob \<noteq> Inl (Throw Msgpack_Parse_Error)"
  "invalid_message_error t ob \<noteq> Inr a"
  by (simp_all add: invalid_message_error_def throw_error_def)

definition invalid_failure :: "mobj \<Rightarrow> failure \<Rightarrow> bool" where
  "invalid_failure h e \<longleftrightarrow>
     (\<exists>text. e = Throw (Mprpc_Exception (make_error_data invalid_message text (Some (pack_object h)))))"

lemma invalid_message_failure: "invalid_message_error t h = Inl e \<Longrightarrow> invalid_failure h e"
  by (auto simp: invalid_message_error_def throw_error_def invalid_failure_def)

lemma convert_failure:
  "convert_int32 ob = Inl e \<Longrightarrow> e = Throw Msgpack_Type_Error"
  "convert_uint32 ob = Inl e \<Longrightarrow> e = Throw Msgpack_Type_Error"
  "convert_string ob = Inl e \<Longrightarrow> e = Throw Msgpack_Type_Error"
  by (auto simp: convert_int32_def convert_uint32_def convert_string_def split: mobj.splits if_splits)

lemma converted_failure:
  assumes "converted r t h = Inl e" and "\<And>e. r = Inl e \<Longrightarrow> e = Throw Msgpack_Type_Error"
  shows "invalid_failure h e"
  using assms invalid_message_failure by (cases r) (auto simp: converted_def)

lemmas parse_failures =
  invalid_message_failure
  converted_failure [OF _ convert_failure(1)]
  converted_failure [OF _ convert_failure(2)]
  converted_failure [OF _ convert_failure(3)]

lemma parse_kind_failure:
  "parse_request m = Inl e \<Longrightarrow> invalid_failure (msg_handle m) e"
  "parse_response m = Inl e \<Longrightarrow> invalid_failure (msg_handle m) e"
  "parse_notification m = Inl e \<Longrightarrow> invalid_failure (msg_handle m) e"
  by (auto simp: parse_request_def parse_response_def parse_notification_def Let_def bindR_eq_Inl
      split: if_splits intro: parse_failures)

lemma parse_message_failure: "parse_message m h = Inl e \<Longrightarrow> invalid_failure h e"
  by (auto simp: parse_message_def Let_def bindR_eq_Inl split: if_splits
      intro: parse_failures dest: parse_kind_failure)

definition wf_message :: "message \<Rightarrow> bool" where
  "wf_message m \<longleftrightarrow>
     (msg_type m = response \<and> msg_error_ptr m \<noteq> None \<and> msg_result_ptr m \<noteq> None) \<or>
     ((msg_type m = request \<or> msg_type m = notification) \<and> (\<exists>ps. msg_params_ptr m = Some (ARRAY ps)))"

lemma is_array_iff: "is_array x \<longleftrightarrow> (\<exists>xs. x = ARRAY xs)"
  by (cases x) simp_all

lemma parse_message_wf: "parse_message m h = Inr m' \<Longrightarrow> wf_message m' \<and> msg_handle m' = h \<and> msg_data m' = msg_data m"
  by (auto simp: parse_message_def parse_request_def parse_response_def parse_notification_def
      Let_def bindR_eq_Inr wf_message_def is_array_iff msgtype_defs split: if_splits)

lemma message_ctor_cases:
  obtains (ok) h m where "unpack (case d of None \<Rightarrow> [] | Some b \<Rightarrow> b) = Inr h" "message_ctor d = Inr m"
      "wf_message m" "msg_handle m = h" "msg_data m = d"
  | (invalid) h e where "unpack (case d of None \<Rightarrow> [] | Some b \<Rightarrow> b) = Inr h" "message_ctor d = Inl e"
      "invalid_failure h e"
  | (malformed) "message_ctor d = throw_error (make_error parse_error ''parse error of message'')"
  | (escapes) e where "message_ctor d = Inl e" "unpack (case d of None \<Rightarrow> [] | Some b \<Rightarrow> b) = Inl e"
      "e = Throw Msgpack_Insufficient_Bytes \<or> (\<exists>what. e = Throw (Msgpack_Size_Overflow what))"
proof -
  let ?b = "case d of None \<Rightarrow> [] | Some b \<Rightarrow> b"
  from unpack_returns [of ?b] consider h where "unpack ?b = Inr h" | e where "unpack ?b = Inl e" "unpack_failure e"
    by auto
  then show thesis
  proof cases
    case 1
    show ?thesis
    proof (cases "parse_message (empty_message\<lparr>msg_data := d\<rparr>) h")
      case (Inl e)
      then have "message_ctor d = Inl e"
        using parse_message_failure [OF Inl] 1
        by (auto simp: message_ctor_def invalid_failure_def Let_def)
      then show ?thesis by (rule invalid [OF 1 _ parse_message_failure [OF Inl]])
    next
      case (Inr m)
      from parse_message_wf [OF this] Inr 1 ok show ?thesis by (simp add: message_ctor_def Let_def)
    qed
  next
    case 2
    show ?thesis
    proof (cases "e = Throw Msgpack_Parse_Error")
      case True
      with 2 malformed show ?thesis by (simp add: message_ctor_def Let_def)
    next
      case False
      then have "message_ctor d = Inl e" using 2 by (simp add: message_ctor_def Let_def)
      from escapes [OF this 2(1)] 2(2) False show ?thesis by (auto simp: unpack_failure_def)
    qed
  qed
qed

lemma message_ctor_wf: "message_ctor d = Inr m \<Longrightarrow> wf_message m"
  by (cases d rule: message_ctor_cases) (auto simp: throw_error_def)

lemma message_ctor_object:
  assumes "wf_mobj x" and "mdepth x < 2 ^ 32"
  shows "message_ctor (Some (pack_object x @ rest)) =
    parse_message (empty_message\<lparr>msg_data := Some (pack_object x @ rest)\<rparr>) x"
  using parse_message_failure [of "empty_message\<lparr>msg_data := Some (pack_object x @ rest)\<rparr>" x]
  by (auto simp: message_ctor_def unpack_packed [OF assms] invalid_failure_def Let_def)

lemma wf_message_objects [simp]:
  "wf_mobj (request_object i s p) \<longleftrightarrow> length s < 2 ^ 32 \<and> wf_mobj p"
  "wf_mobj (response_object i e r) \<longleftrightarrow> wf_mobj e \<and> wf_mobj r"
  "wf_mobj (notification_object s p) \<longleftrightarrow> length s < 2 ^ 32 \<and> wf_mobj p"
  by (simp_all add: message_objects)

lemma mdepth_message_objects [simp]:
  "mdepth (request_object i s p) = Suc (mdepth p)"
  "mdepth (response_object i e r) = Suc (max (mdepth e) (mdepth r))"
  "mdepth (notification_object s p) = Suc (mdepth p)"
  by (simp_all add: message_objects)

lemma parse_message_objects:
  "parse_message m (request_object i s (ARRAY ps)) =
     Inr (m\<lparr>msg_handle := request_object i s (ARRAY ps), msg_type := request, msg_id := i,
            msg_method_name := s, msg_params_ptr := Some (ARRAY ps)\<rparr>)"
  "parse_message m (response_object i e r) =
     Inr (m\<lparr>msg_handle := response_object i e r, msg_type := response, msg_id := i,
            msg_error_ptr := Some e, msg_result_ptr := Some r\<rparr>)"
  "parse_message m (notification_object s (ARRAY ps)) =
     Inr (m\<lparr>msg_handle := notification_object s (ARRAY ps), msg_type := notification,
            msg_method_name := s, msg_params_ptr := Some (ARRAY ps)\<rparr>)"
  by (simp_all add: message_objects parse_message_def parse_request_def parse_response_def
      parse_notification_def Let_def msgtype_defs convert_int32_def convert_string_def)


lemma wf_message_access:
  assumes "wf_message m"
  shows "msg_type m = response \<Longrightarrow> \<exists>e r. msg_error m = Inr e \<and> msg_has_error m = Inr (e \<noteq> NIL) \<and> msg_result m = Inr r"
    and "msg_type m \<noteq> response \<Longrightarrow> \<exists>ps. msg_method m = Inr (msg_method_name m) \<and> msg_params m = Inr (ARRAY ps)"
  using assms by (auto simp: wf_message_def msg_error_def msg_has_error_def msg_result_def msg_method_def
      msg_params_def msgtype_defs)

lemma ctor_request:
  assumes "length s < 2 ^ 32" and "wf_mobj (ARRAY ps)" and "mdepth (ARRAY ps) < 2 ^ 32 - 1"
  shows "\<exists>m. message_ctor (Some (pack_object (request_object i s (ARRAY ps)) @ rest)) = Inr m \<and>
    msg_type m = request \<and> msg_id m = i \<and> msg_method m = Inr s \<and> msg_params m = Inr (ARRAY ps)"
  using assms
  by (simp add: message_ctor_object parse_message_objects msg_method_def msg_params_def msgtype_defs
      del: wf_mobj.simps(5) mdepth.simps(1))

lemma ctor_notification:
  assumes "length s < 2 ^ 32" and "wf_mobj (ARRAY ps)" and "mdepth (ARRAY ps) < 2 ^ 32 - 1"
  shows "\<exists>m. message_ctor (Some (pack_object (notification_object s (ARRAY ps)) @ rest)) = Inr m \<and>
    msg_type m = notification \<and> msg_method m = Inr s \<and> msg_params m = Inr (ARRAY ps)"
  using assms
  by (simp add: message_ctor_object parse_message_objects msg_method_def msg_params_def msgtype_defs
      del: wf_mobj.simps(5) mdepth.simps(1))

lemma ctor_response:
  assumes "wf_mobj e" and "wf_mobj r" and "mdepth e < 2 ^ 32 - 1" and "mdepth r < 2 ^ 32 - 1"
  shows "\<exists>m. message_ctor (Some (pack_object (response_object i e r) @ rest)) = Inr m \<and>
    msg_type m = response \<and> msg_id m = i \<and> msg_has_error m = Inr (e \<noteq> NIL) \<and>
    msg_error m = Inr e \<and> msg_result m = Inr r"
  using assms
  by (simp add: message_ctor_object parse_message_objects msg_error_def msg_result_def
      msg_has_error_def msgtype_defs)

section \<open>Properties\<close>

text \<open>
  C12. A request, response, error response or notification that was packed is parsed back by the
  message constructor with its type, ID, method name, parameters, error and result, also when bytes
  follow it.
\<close>

theorem message_roundtrip:
  assumes "length s < 2 ^ 32" and "wf_mobj (ARRAY ps)" and "mdepth (ARRAY ps) < 2 ^ 32 - 1"
    and "wf_mobj x" and "mdepth x < 2 ^ 32 - 1"
  shows "(\<exists>d m. pack_request i s (Inr (pack_object (ARRAY ps))) = Inr (Some d) \<and>
      message_ctor (Some (d @ rest)) = Inr m \<and> msg_type m = request \<and> msg_id m = i \<and>
      msg_method m = Inr s \<and> msg_params m = Inr (ARRAY ps)) \<and>
    (\<exists>d m. pack_response i (Inr (pack_object x)) = Inr (Some d) \<and>
      message_ctor (Some (d @ rest)) = Inr m \<and> msg_type m = response \<and> msg_id m = i \<and>
      msg_has_error m = Inr False \<and> msg_result m = Inr x) \<and>
    (\<exists>d m. pack_error_response i (Inr (pack_object x)) = Inr (Some d) \<and>
      message_ctor (Some (d @ rest)) = Inr m \<and> msg_type m = response \<and> msg_id m = i \<and>
      msg_has_error m = Inr (x \<noteq> NIL) \<and> msg_error m = Inr x) \<and>
    (\<exists>d m. pack_notification s (Inr (pack_object (ARRAY ps))) = Inr (Some d) \<and>
      message_ctor (Some (d @ rest)) = Inr m \<and> msg_type m = notification \<and>
      msg_method m = Inr s \<and> msg_params m = Inr (ARRAY ps))"
  using ctor_request [OF assms(1-3)] ctor_notification [OF assms(1-3)] ctor_response [of NIL x]
    ctor_response [of x NIL] assms(1,4,5)
  by (fastforce simp: pack_message_objects)

theorem message_roundtrip_witness:
  "\<exists>d m. pack_request 7 ''echo'' (Inr (pack_object (ARRAY [BOOLEAN True]))) = Inr (Some d) \<and>
     message_ctor (Some (d @ [1])) = Inr m \<and> msg_type m = request \<and> msg_id m = 7 \<and>
     msg_method m = Inr ''echo'' \<and> msg_params m = Inr (ARRAY [BOOLEAN True])"
  using message_roundtrip [of "''echo''" "[BOOLEAN True]" NIL 7 "[1]"] by simp


text \<open>
  The bytes of a message cut short make the constructor throw \<open>msgpack::insufficient_bytes\<close>: the
  handler in the constructor, which is for \<open>msgpack::parse_error\<close> only, does not turn it into an
  \<open>mprpc::exception\<close>.
\<close>

theorem message_truncated_escapes:
  assumes "wf_mobj x" and "mdepth x < 2 ^ 32" and "pack_object x = p @ q" and "q \<noteq> []"
  shows "message_ctor (Some p) = Inl (Throw Msgpack_Insufficient_Bytes)"
  by (simp add: message_ctor_def Let_def unpack_truncated [OF assms])

theorem message_truncated_escapes_witness:
  "message_ctor (Some [0x94, 0]) = Inl (Throw Msgpack_Insufficient_Bytes)"
  by (rule message_truncated_escapes [of "ARRAY [POSITIVE_INTEGER 0, NIL, NIL, NIL]" _ "[0xc0, 0xc0, 0xc0]"])
    (simp_all add: pack_object_def pack_array_def pack_imp_uint64_def take8_def pack_nil_def)

end
