(* ===== verification/Format_Message.thy ===== *)
theory Format_Message
  imports Message
begin

text \<open>
  Readable text for message data (\<^verbatim>\<open>include/mprpc/format_message.h\<close>,
  \<^verbatim>\<open>src/format_message.cpp\<close>): a visitor of the MessagePack parser that appends to a
  string and stops when the string gets long.

  The text of a number is what the fmt library makes of it: the argument \<open>fmt\<close> has the functions
  for the four formats the visitor uses.
\<close>

section \<open>Model\<close>

record fmt_lib =
  fmt_uint64 :: "u64 \<Rightarrow> string"
  fmt_int64 :: "u64 \<Rightarrow> string"
  fmt_float32 :: "u32 \<Rightarrow> string"
  fmt_float64 :: "u64 \<Rightarrow> string"

definition hex_digit :: "nat \<Rightarrow> char" where
  "hex_digit i = ''0123456789ABCDEF'' ! i"

definition format_hex :: "bytes \<Rightarrow> nat \<Rightarrow> string" where
  "format_hex b limit =
     concat (map (\<lambda>c. [hex_digit (unat (drop_bit 4 c)), hex_digit (unat (and c 0xf))])
       (take (min (length b) (limit div 2)) b))"

definition ellipsis :: string where
  "ellipsis = '' ...''"

definition check_length :: "nat \<Rightarrow> string \<Rightarrow> (string \<times> bool) result" where
  "check_length limit msg =
     (if length msg + 4 \<ge> limit then Inr (msg @ ellipsis, False) else Inr (msg, True))"

text \<open>The product \<open>size * 2\<close> is one of 32-bit integers.\<close>

definition too_long :: "nat \<Rightarrow> string \<Rightarrow> nat \<Rightarrow> bool" where
  "too_long limit msg n \<longleftrightarrow> length msg + (n * 2) mod 2 ^ 32 > limit"

definition close_bracket :: "nat \<Rightarrow> string \<Rightarrow> char \<Rightarrow> (string \<times> bool) result" where
  "close_bracket limit msg c =
     (if msg = [] then Inl Undefined
      else check_length limit ((if last msg = CHR '','' then butlast msg else msg) @ [c]))"

fun formatting_visit :: "fmt_lib \<Rightarrow> nat \<Rightarrow> string \<Rightarrow> visit \<Rightarrow> (string \<times> bool) result" where
  "formatting_visit fmt limit msg visit_nil = check_length limit (msg @ ''nil'')"
| "formatting_visit fmt limit msg (visit_boolean v) =
     check_length limit (msg @ (if v then ''true'' else ''false''))"
| "formatting_visit fmt limit msg (visit_positive_integer v) =
     check_length limit (msg @ fmt_uint64 fmt v)"
| "formatting_visit fmt limit msg (visit_negative_integer v) =
     check_length limit (msg @ fmt_int64 fmt v)"
| "formatting_visit fmt limit msg (visit_float32 v) =
     check_length limit (msg @ fmt_float32 fmt v)"
| "formatting_visit fmt limit msg (visit_float64 v) =
     check_length limit (msg @ fmt_float64 fmt v)"
| "formatting_visit fmt limit msg (visit_str b) =
     (if too_long limit msg (length b) then Inr (msg @ ellipsis, False)
      else check_length limit (msg @ [CHR 0x22] @ bytes_string b @ [CHR 0x22]))"
| "formatting_visit fmt limit msg (visit_bin b) =
     (if too_long limit msg (length b) then Inr (msg @ ellipsis, False)
      else check_length limit (msg @ ''hex('' @ format_hex b limit @ '')''))"
| "formatting_visit fmt limit msg (visit_ext b) =
     (if too_long limit msg (length b) then Inr (msg @ ellipsis, False)
      else check_length limit (msg @ ''ext('' @ format_hex b limit @ '')''))"
| "formatting_visit fmt limit msg (start_array n) = check_length limit (msg @ ''['')"
| "formatting_visit fmt limit msg start_array_item = Inr (msg, True)"
| "formatting_visit fmt limit msg end_array_item = check_length limit (msg @ '','')"
| "formatting_visit fmt limit msg end_array = close_bracket limit msg (CHR '']'')"
| "formatting_visit fmt limit msg (start_map n) = check_length limit (msg @ ''{'')"
| "formatting_visit fmt limit msg start_map_key = Inr (msg, True)"
| "formatting_visit fmt limit msg end_map_key = check_length limit (msg @ '':'')"
| "formatting_visit fmt limit msg start_map_value = Inr (msg, True)"
| "formatting_visit fmt limit msg end_map_value = check_length limit (msg @ '','')"
| "formatting_visit fmt limit msg end_map = close_bracket limit msg (CHR ''}'')"

definition formatting_visitor :: "fmt_lib \<Rightarrow> nat \<Rightarrow> string visitor" where
  "formatting_visitor fmt limit =
     \<lparr>on_visit = formatting_visit fmt limit,
      on_parse_error = (\<lambda>msg. Inl (Throw Msgpack_Parse_Error)),
      on_insufficient_bytes = (\<lambda>msg. Inl (Throw Msgpack_Parse_Error))\<rparr>"

definition default_formatted_data_length_limit :: nat where
  "default_formatted_data_length_limit = 100"

text \<open>The function is \<open>noexcept\<close>: a failure other than the one it catches ends the program.\<close>

definition format_message :: "fmt_lib \<Rightarrow> message_data \<Rightarrow> nat \<Rightarrow> string result" where
  "format_message fmt data length_limit =
     (let d = (case data of None \<Rightarrow> [] | Some d \<Rightarrow> d) in
      case msgpack_parse (formatting_visitor fmt length_limit) d 0 [] of
        Inr (ok, off, msg) \<Rightarrow> Inr msg
      | Inl e \<Rightarrow>
          if e = Throw Msgpack_Parse_Error then
            Inr (''invalid_data('' @ format_hex d (max length_limit 14 - 14) @ '')'')
          else Inl e)"

text \<open>What a value looks like when nothing is cut.\<close>

definition join :: "string list \<Rightarrow> string" where
  "join xs = butlast (concat (map (\<lambda>x. x @ '','') xs))"

fun render :: "fmt_lib \<Rightarrow> mobj \<Rightarrow> string" where
  "render fmt NIL = ''nil''"
| "render fmt (BOOLEAN b) = (if b then ''true'' else ''false'')"
| "render fmt (POSITIVE_INTEGER v) = fmt_uint64 fmt v"
| "render fmt (NEGATIVE_INTEGER v) = fmt_int64 fmt v"
| "render fmt (FLOAT32 v) = fmt_float32 fmt v"
| "render fmt (FLOAT64 v) = fmt_float64 fmt v"
| "render fmt (STRING b) = [CHR 0x22] @ bytes_string b @ [CHR 0x22]"
| "render fmt (BIN b) = ''hex('' @ format_hex b (2 * length b) @ '')''"
| "render fmt (EXT b) = ''ext('' @ format_hex b (2 * length b) @ '')''"
| "render fmt (ARRAY xs) = ''['' @ join (map (render fmt) xs) @ '']''"
| "render fmt (MAP kvs) =
     ''{'' @ join (map (\<lambda>(k, v). render fmt k @ '':'' @ render fmt v) kvs) @ ''}''"

section \<open>Nothing but text comes out\<close>

lemma on_visit_formatting [simp]:
  "on_visit (formatting_visitor fmt limit) = formatting_visit fmt limit"
  by (simp add: formatting_visitor_def)

interpretation formatting: visitor_contract "formatting_visitor fmt limit"
  "\<lambda>n msg. 0 < n \<longrightarrow> msg \<noteq> []" "\<lambda>msg. True" "\<lambda>e. e = Throw Msgpack_Parse_Error" lim
proof
  fix n :: nat and w and msg :: string
  assume msg: "0 < n \<longrightarrow> msg \<noteq> []" and w: "closes w \<longrightarrow> 0 < n"
  show "(\<exists>e. on_visit (formatting_visitor fmt limit) msg w = Inl e \<and> e = Throw Msgpack_Parse_Error) \<or>
    (\<exists>msg' ok. on_visit (formatting_visitor fmt limit) msg w = Inr (msg', ok) \<and> True \<and>
       (ok \<longrightarrow> 0 < depth_change w n \<longrightarrow> msg' \<noteq> []))"
    using msg w by (cases w) (auto simp: check_length_def close_bracket_def)
qed (auto simp: formatting_visitor_def)

lemma format_message_valid:
  assumes "msgpack_parse (formatting_visitor fmt limit) (case data of None \<Rightarrow> [] | Some d \<Rightarrow> d) 0 [] =
    Inr (ok, off, msg)"
  shows "format_message fmt data limit = Inr msg"
  using assms by (simp add: format_message_def)

section \<open>The length of the text\<close>

definition fmt_short :: "fmt_lib \<Rightarrow> bool" where
  "fmt_short fmt \<longleftrightarrow>
     (\<forall>v. length (fmt_uint64 fmt v) \<le> 20) \<and> (\<forall>v. length (fmt_int64 fmt v) \<le> 20) \<and>
     (\<forall>v. length (fmt_float32 fmt v) \<le> 20) \<and> (\<forall>v. length (fmt_float64 fmt v) \<le> 20)"

lemma length_format_hex: "length (format_hex b limit) = 2 * min (length b) (limit div 2)"
proof -
  have "length (concat (map (\<lambda>c. [f c, g c]) xs)) = 2 * length xs" for f g :: "byte \<Rightarrow> char" and xs
    by (induction xs) simp_all
  then show ?thesis by (simp add: format_hex_def)
qed

lemma length_ellipsis [simp]: "length ellipsis = 4"
  by (simp add: ellipsis_def)

definition short_msg :: "nat \<Rightarrow> string \<Rightarrow> bool" where
  "short_msg limit msg \<longleftrightarrow> msg = [] \<or> length msg + 4 < limit"

lemma check_length_short:
  assumes "length msg \<le> limit + 20"
  shows "\<exists>msg' ok. check_length limit msg = Inr (msg', ok) \<and> length msg' \<le> limit + 24 \<and>
    (ok \<longrightarrow> msg' = msg \<and> length msg' + 4 < limit)"
  using assms by (cases "length msg + 4 \<ge> limit") (simp_all add: check_length_def)

lemma not_too_long:
  assumes "\<not> too_long limit msg n" and "n < 2 ^ 31"
  shows "length msg + 2 * n \<le> limit"
proof -
  have "(n * 2) mod 2 ^ 32 = n * 2" using assms(2) by simp
  then show ?thesis using assms(1) by (simp add: too_long_def)
qed

lemma formatting_visit_short:
  assumes fmt: "fmt_short fmt" and msg: "(0 < n \<longrightarrow> msg \<noteq> []) \<and> short_msg limit msg"
    and w: "closes w \<longrightarrow> 0 < n" and sz: "visit_size w < 2 ^ 31"
  shows "\<exists>msg' ok. formatting_visit fmt limit msg w = Inr (msg', ok) \<and> length msg' \<le> limit + 24 \<and>
    (ok \<longrightarrow> (0 < depth_change w n \<longrightarrow> msg' \<noteq> []) \<and> short_msg limit msg')"
proof -
  have m: "length msg \<le> limit" using msg by (auto simp: short_msg_def)
  have check: "\<exists>msg' ok. check_length limit t = Inr (msg', ok) \<and> length msg' \<le> limit + 24 \<and>
      (ok \<longrightarrow> (0 < k \<longrightarrow> msg' \<noteq> []) \<and> short_msg limit msg')"
    if "length t \<le> limit + 20" "0 < k \<longrightarrow> t \<noteq> []" for t and k :: nat
    using check_length_short [OF that(1)] that(2) by (auto simp: short_msg_def)
  have stop: "length (msg @ ellipsis) \<le> limit + 24" using m by simp
  have hex: "length (format_hex b limit) \<le> 2 * length b" for b by (simp add: length_format_hex)
  have len: "length (fmt_uint64 fmt v) \<le> 20" "length (fmt_int64 fmt v) \<le> 20"
    "length (fmt_float32 fmt u) \<le> 20" "length (fmt_float64 fmt v) \<le> 20" for u v
    using fmt by (auto simp: fmt_short_def)
  show ?thesis
  proof (cases w)
    case (visit_str b)
    then show ?thesis
      using msg stop not_too_long [of limit msg "length b"] sz check [of "msg @ [CHR 0x22] @ bytes_string b @ [CHR 0x22]" n]
      by (cases "too_long limit msg (length b)") auto
  next
    case (visit_bin b)
    then show ?thesis
      using msg stop not_too_long [of limit msg "length b"] sz hex [of b] check [of "msg @ ''hex('' @ format_hex b limit @ '')''" n]
      by (cases "too_long limit msg (length b)") auto
  next
    case (visit_ext b)
    then show ?thesis
      using msg stop not_too_long [of limit msg "length b"] sz hex [of b] check [of "msg @ ''ext('' @ format_hex b limit @ '')''" n]
      by (cases "too_long limit msg (length b)") auto
  next
    case end_array
    then show ?thesis using msg w m check [of "(if last msg = CHR '','' then butlast msg else msg) @ '']''" "n - 1"]
      by (auto simp: close_bracket_def)
  next
    case end_map
    then show ?thesis using msg w m check [of "(if last msg = CHR '','' then butlast msg else msg) @ ''}''" "n - 1"]
      by (auto simp: close_bracket_def)
  next
    case (start_array k)
    then show ?thesis using m check [of "msg @ ''[''" "Suc n"] by simp
  next
    case (start_map k)
    then show ?thesis using m check [of "msg @ ''{''" "Suc n"] by simp
  qed (use m msg len in \<open>auto intro!: check add_mono simp: add.commute\<close>)
qed

lemma formatting_short_contract:
  assumes "fmt_short fmt" and "lim < 2 ^ 31"
  shows "visitor_contract (formatting_visitor fmt limit)
    (\<lambda>n msg. (0 < n \<longrightarrow> msg \<noteq> []) \<and> short_msg limit msg) (\<lambda>msg. length msg \<le> limit + 24)
    (\<lambda>e. e = Throw Msgpack_Parse_Error) lim"
proof
  fix n :: nat and w and msg :: string
  assume "(0 < n \<longrightarrow> msg \<noteq> []) \<and> short_msg limit msg" "closes w \<longrightarrow> 0 < n" "visit_size w \<le> lim"
  with formatting_visit_short [OF assms(1), of n msg limit w] assms(2)
  show "(\<exists>e. on_visit (formatting_visitor fmt limit) msg w = Inl e \<and> e = Throw Msgpack_Parse_Error) \<or>
    (\<exists>msg' ok. on_visit (formatting_visitor fmt limit) msg w = Inr (msg', ok) \<and> length msg' \<le> limit + 24 \<and>
       (ok \<longrightarrow> (0 < depth_change w n \<longrightarrow> msg' \<noteq> []) \<and> short_msg limit msg'))"
    by auto
next
  fix n :: nat and msg :: string
  assume "(0 < n \<longrightarrow> msg \<noteq> []) \<and> short_msg limit msg"
  then show "length msg \<le> limit + 24" by (auto simp: short_msg_def)
qed (auto simp: formatting_visitor_def)


section \<open>Values that fit are rendered whole\<close>

definition fits :: "fmt_lib \<Rightarrow> nat \<Rightarrow> string \<Rightarrow> mobj \<Rightarrow> bool" where
  "fits fmt limit msg x \<longleftrightarrow> length msg + 2 * length (render fmt x) + 5 < limit"

definition renders :: "fmt_lib \<Rightarrow> nat \<Rightarrow> mobj \<Rightarrow> bool" where
  "renders fmt limit x \<longleftrightarrow>
     (\<forall>msg. fits fmt limit msg x \<longrightarrow>
        run_visits (formatting_visitor fmt limit) msg (visits x) = Inr (msg @ render fmt x, True))"

lemma rendersD:
  "renders fmt limit x \<Longrightarrow> fits fmt limit msg x \<Longrightarrow>
   run_visits (formatting_visitor fmt limit) msg (visits x) = Inr (msg @ render fmt x, True)"
  by (simp add: renders_def)

lemma check_length_fits: "length msg + 4 < limit \<Longrightarrow> check_length limit msg = Inr (msg, True)"
  by (simp add: check_length_def)

lemma format_hex_whole: "2 * length b \<le> limit \<Longrightarrow> format_hex b limit = format_hex b (2 * length b)"
proof -
  assume "2 * length b \<le> limit"
  then have "length b \<le> limit div 2" by linarith
  then show ?thesis by (simp add: format_hex_def min_def)
qed

lemma too_long_fits: "length msg + 2 * n \<le> limit \<Longrightarrow> \<not> too_long limit msg n"
proof -
  assume "length msg + 2 * n \<le> limit"
  moreover have "(n * 2) mod 2 ^ 32 \<le> n * 2" by (rule mod_less_eq_dividend)
  ultimately show ?thesis unfolding too_long_def by linarith
qed

lemma run_format_Cons:
  "run_visits (formatting_visitor fmt limit) msg (w # ws) =
   bindR (formatting_visit fmt limit msg w)
     (\<lambda>(msg, ok). if ok then run_visits (formatting_visitor fmt limit) msg ws else Inr (msg, False))"
  by (simp add: run_visits.simps(2))

lemma run_format_append:
  "run_visits (formatting_visitor fmt limit) msg ws = Inr (msg', True) \<Longrightarrow>
   run_visits (formatting_visitor fmt limit) msg (ws @ ws') =
   run_visits (formatting_visitor fmt limit) msg' ws'"
proof (induction ws arbitrary: msg)
  case (Cons w ws)
  then show ?case by (cases "formatting_visit fmt limit msg w") (auto simp: run_format_Cons split: if_splits)
qed simp

definition items_text :: "string list \<Rightarrow> string" where
  "items_text xs = concat (map (\<lambda>x. x @ '','') xs)"

lemma items_text_simps [simp]:
  "items_text [] = []" "items_text (x # xs) = x @ '','' @ items_text xs"
  by (simp_all add: items_text_def)

lemma join_items: "join xs = butlast (items_text xs)"
  by (simp add: join_def items_text_def)

lemma length_join: "xs \<noteq> [] \<Longrightarrow> Suc (length (join xs)) = length (items_text xs)"
  by (cases xs) (simp_all add: join_items)

lemma renders_bytes: "renders fmt limit (BIN b)" "renders fmt limit (EXT b)"
proof -
  have h: "\<not> too_long limit msg (length b) \<and> format_hex b limit = format_hex b (2 * length b)"
    if "length msg + 2 * (2 * length b + 5) + 5 < limit" for msg
    using that too_long_fits [of msg "length b" limit] format_hex_whole [of b limit] by simp
  show "renders fmt limit (BIN b)" "renders fmt limit (EXT b)"
    using h by (auto simp: renders_def fits_def run_format_Cons length_format_hex check_length_fits)
qed

lemma renders_scalars:
  "renders fmt limit NIL" "renders fmt limit (BOOLEAN b)" "renders fmt limit (POSITIVE_INTEGER v)"
  "renders fmt limit (NEGATIVE_INTEGER v)" "renders fmt limit (FLOAT32 u)" "renders fmt limit (FLOAT64 v)"
  "renders fmt limit (STRING s)"
  by (auto simp: renders_def fits_def run_format_Cons check_length_fits too_long_fits)

lemma run_items_format:
  assumes "\<forall>x \<in> set xs. renders fmt limit x"
    and "length msg + 2 * length (items_text (map (render fmt) xs)) + 3 < limit"
  shows "run_visits (formatting_visitor fmt limit) msg
    (concat (map (\<lambda>x. start_array_item # visits x @ [end_array_item]) xs)) =
    Inr (msg @ items_text (map (render fmt) xs), True)"
  using assms
proof (induction xs arbitrary: msg)
  case (Cons x xs)
  have x: "run_visits (formatting_visitor fmt limit) msg (visits x) = Inr (msg @ render fmt x, True)"
    using Cons.prems by (intro rendersD) (simp_all add: fits_def)
  have "run_visits (formatting_visitor fmt limit) (msg @ render fmt x @ '','')
      (concat (map (\<lambda>x. start_array_item # visits x @ [end_array_item]) xs)) =
    Inr ((msg @ render fmt x @ '','') @ items_text (map (render fmt) xs), True)"
    using Cons.prems by (intro Cons.IH) simp_all
  moreover have "check_length limit (msg @ render fmt x @ '','') = Inr (msg @ render fmt x @ '','', True)"
    using Cons.prems(2) by (intro check_length_fits) simp
  ultimately show ?case by (simp add: run_format_Cons run_format_append [OF x])
qed simp

lemma run_pairs_format:
  assumes "\<forall>(k, v) \<in> set kvs. renders fmt limit k \<and> renders fmt limit v"
    and "length msg + 2 * length (items_text (map (\<lambda>(k, v). render fmt k @ '':'' @ render fmt v) kvs)) + 3 < limit"
  shows "run_visits (formatting_visitor fmt limit) msg
    (concat (map (\<lambda>(k, v). start_map_key # visits k @ [end_map_key] @
        start_map_value # visits v @ [end_map_value]) kvs)) =
    Inr (msg @ items_text (map (\<lambda>(k, v). render fmt k @ '':'' @ render fmt v) kvs), True)"
  using assms
proof (induction kvs arbitrary: msg)
  case (Cons kv kvs)
  obtain k v where kv: "kv = (k, v)" by (cases kv)
  let ?m = "msg @ render fmt k @ '':''"
  have k: "run_visits (formatting_visitor fmt limit) msg (visits k) = Inr (msg @ render fmt k, True)"
    and v: "run_visits (formatting_visitor fmt limit) ?m (visits v) = Inr (?m @ render fmt v, True)"
    using Cons.prems kv by (intro rendersD; simp add: fits_def)+
  have "run_visits (formatting_visitor fmt limit) (?m @ render fmt v @ '','')
      (concat (map (\<lambda>(k, v). start_map_key # visits k @ [end_map_key] @
        start_map_value # visits v @ [end_map_value]) kvs)) =
    Inr ((?m @ render fmt v @ '','') @ items_text (map (\<lambda>(k, v). render fmt k @ '':'' @ render fmt v) kvs), True)"
    using Cons.prems kv by (intro Cons.IH) simp_all
  moreover have "check_length limit ?m = Inr (?m, True)"
      "check_length limit (?m @ render fmt v @ '','') = Inr (?m @ render fmt v @ '','', True)"
    using Cons.prems(2) kv by (auto intro!: check_length_fits)
  ultimately show ?case
    using kv run_format_append [OF v [simplified]] by (simp add: run_format_Cons run_format_append [OF k])
qed simp

lemma close_bracket_items:
  assumes "length msg + length (join ts) + 6 < limit"
  shows "close_bracket limit (msg @ [b] @ items_text ts) c =
    (if b = CHR '','' \<and> ts = [] then close_bracket limit (msg @ [b]) c
     else Inr (msg @ [b] @ join ts @ [c], True))"
proof (cases "ts = []")
  case True
  with assms show ?thesis by (simp add: close_bracket_def check_length_fits join_items)
next
  case False
  then have "items_text ts = join ts @ '',''"
    by (cases ts rule: rev_cases) (simp_all add: join_items items_text_def butlast_append)
  with False assms show ?thesis by (simp add: close_bracket_def check_length_fits butlast_append)
qed

lemma renders_object: "renders fmt limit x"
proof (induction x rule: visits.induct)
  case (10 xs)
  let ?ts = "map (render fmt) xs"
  show ?case
    unfolding renders_def
  proof (intro allI impI)
    fix msg
    assume f: "fits fmt limit msg (ARRAY xs)"
    then have l: "length msg + 2 * length (join ?ts) + 9 < limit" by (simp add: fits_def)
    have "length (items_text ?ts) \<le> Suc (length (join ?ts))" using length_join [of ?ts] by (cases xs) simp_all
    with l 10 have items: "run_visits (formatting_visitor fmt limit) (msg @ ''['')
      (concat (map (\<lambda>x. start_array_item # visits x @ [end_array_item]) xs)) =
      Inr ((msg @ ''['') @ items_text ?ts, True)"
      by (intro run_items_format) simp_all
    have "check_length limit (msg @ ''['') = Inr (msg @ ''['', True)" using l by (intro check_length_fits) simp
    with l close_bracket_items [of msg ?ts limit "CHR ''[''" "CHR '']''"]
    show "run_visits (formatting_visitor fmt limit) msg (visits (ARRAY xs)) =
      Inr (msg @ render fmt (ARRAY xs), True)"
      by (simp add: run_format_Cons run_format_append [OF items])
  qed
next
  case (11 kvs)
  let ?ts = "map (\<lambda>(k, v). render fmt k @ '':'' @ render fmt v) kvs"
  show ?case
    unfolding renders_def
  proof (intro allI impI)
    fix msg
    assume f: "fits fmt limit msg (MAP kvs)"
    then have l: "length msg + 2 * length (join ?ts) + 9 < limit" by (simp add: fits_def)
    have "length (items_text ?ts) \<le> Suc (length (join ?ts))" using length_join [of ?ts] by (cases kvs) simp_all
    with l 11 have items: "run_visits (formatting_visitor fmt limit) (msg @ ''{'')
      (concat (map (\<lambda>(k, v). start_map_key # visits k @ [end_map_key] @
        start_map_value # visits v @ [end_map_value]) kvs)) =
      Inr ((msg @ ''{'') @ items_text ?ts, True)"
      by (intro run_pairs_format) auto
    have "check_length limit (msg @ ''{'') = Inr (msg @ ''{'', True)" using l by (intro check_length_fits) simp
    with l close_bracket_items [of msg ?ts limit "CHR ''{''" "CHR ''}''"]
    show "run_visits (formatting_visitor fmt limit) msg (visits (MAP kvs)) =
      Inr (msg @ render fmt (MAP kvs), True)"
      by (simp add: run_format_Cons run_format_append [OF items [simplified]])
  qed
qed (rule renders_scalars renders_bytes)+


section \<open>Properties\<close>

text \<open>
  \<open>format_message\<close> keeps its \<open>noexcept\<close>: for all bytes it returns a text, a parse error or a
  truncated message included.
\<close>

theorem format_message_total: "\<exists>s. format_message fmt data limit = Inr s"
  using formatting.msgpack_parse_good [where v = "[]" and d = "case data of None \<Rightarrow> [] | Some d \<Rightarrow> d"
      and fmt = fmt and limit = limit and off = 0, OF _ order_refl]
  by (auto simp: format_message_def Let_def)



text \<open>
  C27. When the texts of numbers have at most 20 characters and the data less than 2 GiB, the text
  exceeds the limit by at most 24 characters.
\<close>

theorem format_message_length:
  assumes "fmt_short fmt" and "case data of None \<Rightarrow> True | Some d \<Rightarrow> length d < 2 ^ 31"
  shows "\<exists>s. format_message fmt data limit = Inr s \<and> length s \<le> max limit 14 + 24"
proof -
  let ?d = "case data of None \<Rightarrow> [] | Some d \<Rightarrow> d"
  have d: "length ?d < 2 ^ 31" using assms(2) by (cases data) simp_all
  have invalid: "length (''invalid_data('' @ format_hex ?d (max limit 14 - 14) @ '')'') \<le> max limit 14"
    by (simp add: length_format_hex)
  from visitor_contract.msgpack_parse_good [OF formatting_short_contract [OF assms(1) d, of limit] _ order_refl, of "[]" 0]
  show ?thesis
    using invalid by (fastforce simp: format_message_def short_msg_def Let_def)
qed

theorem format_message_length_witness:
  "\<exists>s. format_message \<lparr>fmt_uint64 = \<lambda>v. ''7'', fmt_int64 = \<lambda>v. ''-1'', fmt_float32 = \<lambda>v. ''0F'', fmt_float64 = \<lambda>v. ''0''\<rparr>
     (Some [0x93, 1]) 20 = Inr s \<and> length s \<le> 44"
  using format_message_length [of "\<lparr>fmt_uint64 = \<lambda>v. ''7'', fmt_int64 = \<lambda>v. ''-1'', fmt_float32 = \<lambda>v. ''0F'', fmt_float64 = \<lambda>v. ''0''\<rparr>"
      "Some [0x93, 1]" 20]
  by (simp add: fmt_short_def)

text \<open>
  The limit can be exceeded: with a limit of 5 the text of nil has 7 characters.
\<close>

theorem format_message_exceeds_limit:
  "format_message fmt (Some (pack_object NIL)) 5 = Inr ''nil ...''"
  by (simp add: format_message_def msgpack_parse_def parse_imp_def execute_def exec_loop_header
      pack_object_def pack_nil_def header_step_simple after_visit_proc_def check_length_def ellipsis_def
      exec_loop_done)

end
