(* ===== verification/Parsers.thy ===== *)
theory Parsers
  imports Buffer Message
begin

text \<open>
  The parsers that cut a byte stream into messages: \<open>msgpack_parser\<close> and
  \<open>msgpack_streaming_parser\<close> of
  \<^verbatim>\<open>impl/mprpc/transport/parsers/impl/msgpack_parser_impl.h\<close>, behind the interface
  \<^verbatim>\<open>include/mprpc/transport/parser.h\<close>.

  The abstract class \<open>streaming_parser\<close> is a record of operations; the bytes the socket writes
  through the pointer of \<open>buffer()\<close> are the operation \<open>sp_receive\<close>. \<open>parse_next\<close> gives the
  parser's state also when it throws. The contract of the interface, as its users rely on it, is the
  locale \<open>streaming_parser\<close>.
\<close>

section \<open>The interface\<close>

record 'p streaming_parser_ops =
  sp_prepare_buffer :: "'p \<Rightarrow> size_t \<Rightarrow> 'p result"
  sp_receive :: "'p \<Rightarrow> bytes \<Rightarrow> 'p"
  sp_consumed :: "'p \<Rightarrow> size_t \<Rightarrow> 'p"
  sp_parse_next :: "'p \<Rightarrow> size_t \<Rightarrow> 'p \<times> bool result"
  sp_get :: "'p \<Rightarrow> 'p \<times> message_data"

section \<open>msgpack_parser\<close>

definition msgpack_parser_parse :: "string \<Rightarrow> bytes option \<Rightarrow> size_t \<Rightarrow> message_data result" where
  "msgpack_parser_parse fn data sz =
     bindR (require_nonull data (Some ''data'') (Some fn)) (\<lambda>d.
     if length d < unat sz then Inl Undefined else Inr (Some (take (unat sz) d)))"

section \<open>msgpack_streaming_parser\<close>

record msgpack_streaming_parser =
  mp_buffer :: buffer
  mp_consumed_buf_size :: size_t
  mp_parsed_buf_size :: size_t

definition streaming_visitor :: "unit visitor" where
  "streaming_visitor = null_visitor\<lparr>on_parse_error :=
     (\<lambda>v. throw_error (make_error parse_error ''failed to parse a message''))\<rparr>"

definition mp_create :: "allocator \<Rightarrow> msgpack_streaming_parser result" where
  "mp_create malloc =
     bindR (buffer_empty malloc) (\<lambda>b.
     Inr \<lparr>mp_buffer = b, mp_consumed_buf_size = 0, mp_parsed_buf_size = 0\<rparr>)"

definition mp_prepare_buffer ::
    "allocator \<Rightarrow> msgpack_streaming_parser \<Rightarrow> size_t \<Rightarrow> msgpack_streaming_parser result" where
  "mp_prepare_buffer malloc p sz =
     bindR (buffer_resize malloc (mp_buffer p) (mp_consumed_buf_size p + sz)) (\<lambda>b.
     Inr (p\<lparr>mp_buffer := b\<rparr>))"

definition mp_receive :: "msgpack_streaming_parser \<Rightarrow> bytes \<Rightarrow> msgpack_streaming_parser" where
  "mp_receive p bs =
     p\<lparr>mp_buffer := buffer_write (mp_buffer p) (unat (mp_consumed_buf_size p)) bs\<rparr>"

definition mp_consumed :: "msgpack_streaming_parser \<Rightarrow> size_t \<Rightarrow> msgpack_streaming_parser" where
  "mp_consumed p n = p\<lparr>mp_consumed_buf_size := mp_consumed_buf_size p + n\<rparr>"

definition mp_pending :: "msgpack_streaming_parser \<Rightarrow> bytes" where
  "mp_pending p = take (unat (mp_consumed_buf_size p)) (buf_data (mp_buffer p))"

definition mp_parse_next ::
    "msgpack_streaming_parser \<Rightarrow> size_t \<Rightarrow> msgpack_streaming_parser \<times> bool result" where
  "mp_parse_next p n =
     (let p = mp_consumed p n in
      case msgpack_parse streaming_visitor (mp_pending p) 0 () of
        Inl e \<Rightarrow> (p, Inl e)
      | Inr (parse_result, offset, v) \<Rightarrow>
          (if parse_result then p\<lparr>mp_parsed_buf_size := of_nat offset\<rparr> else p, Inr parse_result))"

definition mp_get :: "msgpack_streaming_parser \<Rightarrow> msgpack_streaming_parser \<times> message_data" where
  "mp_get p =
     (let data = Some (take (unat (mp_parsed_buf_size p)) (buf_data (mp_buffer p))) in
      (\<lparr>mp_buffer = buffer_consume (mp_buffer p) (mp_parsed_buf_size p),
        mp_consumed_buf_size = mp_consumed_buf_size p - mp_parsed_buf_size p,
        mp_parsed_buf_size = 0\<rparr>, data))"

definition msgpack_streaming_ops :: "allocator \<Rightarrow> msgpack_streaming_parser streaming_parser_ops" where
  "msgpack_streaming_ops malloc =
     \<lparr>sp_prepare_buffer = mp_prepare_buffer malloc, sp_receive = mp_receive,
      sp_consumed = mp_consumed, sp_parse_next = mp_parse_next, sp_get = mp_get\<rparr>"

section \<open>The contract\<close>

text \<open>
  \<open>pending\<close> are the bytes that have arrived and belong to no message yet, \<open>room\<close> the number of
  bytes that may be written at \<open>buffer()\<close>. A parser recognises a complete message at the front of
  its pending bytes and waits on a proper prefix of one.
\<close>

locale streaming_parser =
  fixes ops :: "'p streaming_parser_ops"
    and inv :: "'p \<Rightarrow> bool"
    and pending :: "'p \<Rightarrow> bytes"
    and room :: "'p \<Rightarrow> nat"
  assumes prepare_ok:
    "inv p \<Longrightarrow> length (pending p) + unat n < 2 ^ 64 \<Longrightarrow> sp_prepare_buffer ops p n = Inr p' \<Longrightarrow>
     inv p' \<and> pending p' = pending p \<and> room p' = unat n"
    and prepare_fails:
    "inv p \<Longrightarrow> sp_prepare_buffer ops p n = Inl e \<Longrightarrow> e = Throw Bad_Alloc"
    and receive_ok:
    "inv p \<Longrightarrow> length bs \<le> room p \<Longrightarrow>
     inv (sp_consumed ops (sp_receive ops p bs) (of_nat (length bs))) \<and>
     pending (sp_consumed ops (sp_receive ops p bs) (of_nat (length bs))) = pending p @ bs"
    and parse_next_consumes: "sp_parse_next ops p n = sp_parse_next ops (sp_consumed ops p n) 0"
    and parse_complete:
    "inv p \<Longrightarrow> wf_mobj x \<Longrightarrow> pending p = pack_object x @ rest \<Longrightarrow>
     \<exists>p' q. sp_parse_next ops p 0 = (p', Inr True) \<and> sp_get ops p' = (q, Some (pack_object x)) \<and>
       inv q \<and> pending q = rest"
    and parse_incomplete:
    "inv p \<Longrightarrow> wf_mobj x \<Longrightarrow> pack_object x = pending p @ suffix \<Longrightarrow> suffix \<noteq> [] \<Longrightarrow>
     \<exists>p'. sp_parse_next ops p 0 = (p', Inr False) \<and> inv p' \<and> pending p' = pending p"

section \<open>The streaming parser keeps the contract\<close>

definition mp_inv :: "msgpack_streaming_parser \<Rightarrow> bool" where
  "mp_inv p \<longleftrightarrow>
     wf_buffer (mp_buffer p) \<and> mp_consumed_buf_size p \<le> buf_size (mp_buffer p) \<and>
     mp_parsed_buf_size p \<le> mp_consumed_buf_size p"

definition mp_room :: "msgpack_streaming_parser \<Rightarrow> nat" where
  "mp_room p = unat (buf_size (mp_buffer p)) - unat (mp_consumed_buf_size p)"


lemma run_null_visits: "run_visits null_visitor v ws = Inr (v, True)"
  by (induction ws) (simp_all add: run_visits.simps(2) null_visitor_def)

lemma on_visit_streaming: "on_visit streaming_visitor = on_visit null_visitor"
  by (simp add: streaming_visitor_def)

lemma run_streaming_visits: "run_visits streaming_visitor v ws = Inr (v, True)"
  by (induction ws) (simp_all add: run_visits.simps(2) streaming_visitor_def null_visitor_def)

lemma streaming_parse_object:
  assumes "wf_mobj x"
  shows "msgpack_parse streaming_visitor (pack_object x @ rest) 0 v = Inr (True, length (pack_object x), v)"
  using parse_imp_object [OF assms _ run_streaming_visits, of 0 "pack_object x @ rest" rest v]
  by (simp add: msgpack_parse_def)

lemma streaming_parse_prefix:
  assumes "wf_mobj x" and "pack_object x = p @ q" and "q \<noteq> []"
  shows "\<exists>off u. msgpack_parse streaming_visitor p 0 v = Inr (False, off, u)"
  using parse_imp_prefix [OF assms run_streaming_visits, of v]
  by (auto simp: msgpack_parse_def streaming_visitor_def null_visitor_def)

interpretation streaming: visitor_contract streaming_visitor "\<lambda>n v. True" "\<lambda>v. True"
  "\<lambda>e. e = Throw (Mprpc_Exception (make_error parse_error ''failed to parse a message''))" lim
  by unfold_locales (auto simp: streaming_visitor_def null_visitor_def throw_error_def)

lemma mp_invD:
  assumes "mp_inv p"
  shows "wf_buffer (mp_buffer p)" "unat (mp_consumed_buf_size p) \<le> unat (buf_size (mp_buffer p))"
    "unat (mp_parsed_buf_size p) \<le> unat (mp_consumed_buf_size p)"
    "unat (buf_size (mp_buffer p)) \<le> length (buf_data (mp_buffer p))"
  using assms by (auto simp: mp_inv_def wf_buffer_def word_le_nat_alt)

lemma length_mp_pending: "mp_inv p \<Longrightarrow> length (mp_pending p) = unat (mp_consumed_buf_size p)"
  using mp_invD [of p] by (simp add: mp_pending_def)

lemma mp_prepare_ok:
  assumes m: "malloc_ok malloc" and p: "mp_inv p" and n: "length (mp_pending p) + unat n < 2 ^ 64"
    and r: "mp_prepare_buffer malloc p n = Inr p'"
  shows "mp_inv p' \<and> mp_pending p' = mp_pending p \<and> mp_room p' = unat n"
proof -
  let ?c = "mp_consumed_buf_size p"
  obtain b where b: "buffer_resize malloc (mp_buffer p) (?c + n) = Inr b" and p': "p' = p\<lparr>mp_buffer := b\<rparr>"
    using r by (auto simp: mp_prepare_buffer_def bindR_eq_Inr)
  have sum: "unat (?c + n) = unat ?c + unat n"
    using n length_mp_pending [OF p] by (simp add: unat_word_ariths)
  note ok = buffer_resize_ok [OF m mp_invD(1) [OF p] b]
  have "unat ?c \<le> length (buf_data (mp_buffer p))" using mp_invD(2,4) [OF p] by simp
  then have "take (unat ?c) (buf_data b) = take (unat ?c) (buf_data (mp_buffer p))"
    using ok by (metis min.absorb1 take_take)
  then show ?thesis
    using ok p' sum p by (auto simp: mp_inv_def mp_pending_def mp_room_def word_le_nat_alt)
qed

lemma mp_prepare_fails:
  assumes "mp_inv p" and "mp_prepare_buffer malloc p n = Inl e"
  shows "e = Throw Bad_Alloc"
  using assms buffer_resize_fails [OF mp_invD(1) [OF assms(1)]]
  by (auto simp: mp_prepare_buffer_def bindR_eq_Inl)

lemma mp_receive_ok:
  assumes p: "mp_inv p" and bs: "length bs \<le> mp_room p"
  defines "q \<equiv> mp_consumed (mp_receive p bs) (of_nat (length bs))"
  shows "mp_inv q \<and> mp_pending q = mp_pending p @ bs"
proof -
  let ?c = "mp_consumed_buf_size p" and ?b = "mp_buffer p"
  have fit: "unat ?c + length bs \<le> unat (buf_size ?b)" using bs mp_invD(2) [OF p] by (simp add: mp_room_def)
  note w = buffer_write_ok [OF mp_invD(1) [OF p] fit]
  have "length bs < 2 ^ 64" using fit unsigned_less [of "buf_size ?b", where ?'a = nat] by simp
  then have sum: "unat (?c + of_nat (length bs)) = unat ?c + length bs"
    using fit unsigned_less [of "buf_size ?b", where ?'a = nat] by (simp add: unat_word_ariths unat_of_nat)
  have "mp_inv q"
    using p w sum fit by (auto simp: q_def mp_consumed_def mp_receive_def mp_inv_def word_le_nat_alt)
  moreover have "mp_pending q = mp_pending p @ bs"
    using w(2) sum by (simp add: q_def mp_consumed_def mp_receive_def mp_pending_def)
  ultimately show ?thesis by simp
qed

lemma mp_get_ok:
  assumes p: "mp_inv p"
  shows "snd (mp_get p) = Some (take (unat (mp_parsed_buf_size p)) (mp_pending p))"
    and "mp_inv (fst (mp_get p))"
    and "mp_pending (fst (mp_get p)) = drop (unat (mp_parsed_buf_size p)) (mp_pending p)"
proof -
  have wf: "wf_buffer (mp_buffer p)" and le: "mp_parsed_buf_size p \<le> mp_consumed_buf_size p"
    "mp_consumed_buf_size p \<le> buf_size (mp_buffer p)"
    using p by (simp_all add: mp_inv_def)
  show "snd (mp_get p) = Some (take (unat (mp_parsed_buf_size p)) (mp_pending p))"
    using le(1) by (simp add: mp_get_def Let_def mp_pending_def min_def word_le_nat_alt)
  show "mp_inv (fst (mp_get p))"
    using buffer_consume_ok(1) [OF wf] buffer_consume_take(1) [OF wf le]
    by (simp add: mp_get_def Let_def mp_inv_def)
  show "mp_pending (fst (mp_get p)) = drop (unat (mp_parsed_buf_size p)) (mp_pending p)"
    using buffer_consume_take(2) [OF wf le] by (simp add: mp_get_def Let_def mp_pending_def)
qed

lemma mp_consumed_0 [simp]: "mp_consumed p 0 = p"
  by (simp add: mp_consumed_def)

lemma mp_parse_complete:
  assumes p: "mp_inv p" and x: "wf_mobj x" and pend: "mp_pending p = pack_object x @ rest"
  shows "\<exists>p' q. mp_parse_next p 0 = (p', Inr True) \<and> mp_get p' = (q, Some (pack_object x)) \<and>
    mp_inv q \<and> mp_pending q = rest"
proof -
  let ?p' = "p\<lparr>mp_parsed_buf_size := of_nat (length (pack_object x))\<rparr>"
  have le: "length (pack_object x) \<le> unat (mp_consumed_buf_size p)"
    using length_mp_pending [OF p] pend by simp
  have u: "unat (of_nat (length (pack_object x)) :: size_t) = length (pack_object x)"
    using le unsigned_less [of "mp_consumed_buf_size p", where ?'a = nat] by (simp add: unat_of_nat)
  have p': "mp_inv ?p'" using p le u by (simp add: mp_inv_def word_le_nat_alt)
  have "mp_parse_next p 0 = (?p', Inr True)"
    by (simp add: mp_parse_next_def Let_def pend streaming_parse_object [OF x])
  moreover have "mp_pending ?p' = pack_object x @ rest" using pend by (simp add: mp_pending_def)
  ultimately show ?thesis
    using mp_get_ok [OF p'] u by (cases "mp_get ?p'") auto
qed

lemma mp_parse_incomplete:
  assumes "mp_inv p" and "wf_mobj x" and "pack_object x = mp_pending p @ suffix" and "suffix \<noteq> []"
  shows "\<exists>p'. mp_parse_next p 0 = (p', Inr False) \<and> mp_inv p' \<and> mp_pending p' = mp_pending p"
proof -
  obtain off u where "msgpack_parse streaming_visitor (mp_pending p) 0 () = Inr (False, off, u)"
    using streaming_parse_prefix [OF assms(2-4), of "()"] by blast
  with assms(1) show ?thesis by (simp add: mp_parse_next_def Let_def)
qed

lemma mp_create_ok:
  assumes "malloc_ok malloc" and "mp_create malloc = Inr p"
  shows "mp_inv p" and "mp_pending p = []"
  using assms buffer_size_ok [OF assms(1), of 0]
  by (auto simp: mp_create_def buffer_empty_def bindR_eq_Inr mp_inv_def mp_pending_def)

interpretation mp: streaming_parser "msgpack_streaming_ops malloc"
  "\<lambda>p. malloc_ok malloc \<and> mp_inv p" mp_pending mp_room for malloc
proof unfold_locales
  fix p :: msgpack_streaming_parser and n p'
  assume "malloc_ok malloc \<and> mp_inv p" "length (mp_pending p) + unat n < 2 ^ 64"
    "sp_prepare_buffer (msgpack_streaming_ops malloc) p n = Inr p'"
  then show "(malloc_ok malloc \<and> mp_inv p') \<and> mp_pending p' = mp_pending p \<and> mp_room p' = unat n"
    using mp_prepare_ok [of malloc p n p'] by (simp add: msgpack_streaming_ops_def)
qed (use mp_prepare_fails mp_receive_ok mp_parse_complete mp_parse_incomplete
    in \<open>auto simp: msgpack_streaming_ops_def mp_parse_next_def\<close>)

lemma mp_parse_next_inv:
  assumes "mp_inv (mp_consumed p n)"
  shows "mp_inv (fst (mp_parse_next p n))" "mp_pending (fst (mp_parse_next p n)) = mp_pending (mp_consumed p n)"
proof -
  let ?q = "mp_consumed p n"
  have "mp_inv (?q\<lparr>mp_parsed_buf_size := of_nat off\<rparr>)"
    if "msgpack_parse streaming_visitor (mp_pending ?q) 0 () = Inr (ok, off, v)" for ok off v
  proof -
    have "off \<le> unat (mp_consumed_buf_size ?q)"
      using msgpack_parse_offset [OF that] length_mp_pending [OF assms] by simp
    then show ?thesis
      using assms unsigned_less [of "mp_consumed_buf_size ?q", where ?'a = nat]
      by (simp add: mp_inv_def word_le_nat_alt unat_of_nat)
  qed
  then show "mp_inv (fst (mp_parse_next p n))"
    using assms by (auto simp: mp_parse_next_def Let_def split: sum.splits prod.splits)
  show "mp_pending (fst (mp_parse_next p n)) = mp_pending ?q"
    by (auto simp: mp_parse_next_def Let_def mp_pending_def split: sum.splits prod.splits)
qed

lemma mp_parse_next_returns:
  obtains "snd (mp_parse_next p n) =
    Inl (Throw (Mprpc_Exception (make_error parse_error ''failed to parse a message'')))"
  | ok where "snd (mp_parse_next p n) = Inr ok"
  using streaming.msgpack_parse_good [where d = "mp_pending (mp_consumed p n)" and off = 0 and v = "()"
      and lim = "length (mp_pending (mp_consumed p n))"]
  by (auto simp: mp_parse_next_def Let_def split: sum.splits prod.splits)

text \<open>
  Whatever bytes have arrived, \<open>msgpack_streaming_parser::parse_next\<close> returns an answer or throws
  the parse error of the library; it never runs forever and never touches memory outside the buffer. It
  keeps the parser's invariant and consumes no byte by itself.
\<close>

theorem mp_parse_next_safe:
  assumes "mp_inv (mp_consumed p n)"
  shows "(snd (mp_parse_next p n) =
       Inl (Throw (Mprpc_Exception (make_error parse_error ''failed to parse a message''))) \<or>
     (\<exists>ok. snd (mp_parse_next p n) = Inr ok)) \<and>
    mp_inv (fst (mp_parse_next p n)) \<and>
    mp_pending (fst (mp_parse_next p n)) = mp_pending (mp_consumed p n)"
  using mp_parse_next_inv [OF assms] by (cases rule: mp_parse_next_returns [of p n]) auto

definition example_parser :: "bytes \<Rightarrow> msgpack_streaming_parser" where
  "example_parser bs =
     \<lparr>mp_buffer = example_buffer bs, mp_consumed_buf_size = 0, mp_parsed_buf_size = 0\<rparr>"

lemma example_parser_inv:
  assumes "length bs \<le> 1024"
  shows "mp_inv (mp_consumed (example_parser bs) (of_nat (length bs)))"
    and "mp_pending (mp_consumed (example_parser bs) (of_nat (length bs))) = bs"
  using assms wf_example_buffer [OF assms]
  by (simp_all add: example_parser_def example_buffer_def mp_consumed_def mp_inv_def mp_pending_def unat_of_nat)

theorem mp_parse_next_safe_witness:
  "mp_inv (fst (mp_parse_next (example_parser [0xc1, 0x92, 0x01]) 3))"
  using mp_parse_next_safe [of "example_parser [0xc1, 0x92, 0x01]" 3]
    example_parser_inv [of "[0xc1, 0x92, 0x01]"] by simp

end
