(* ===== verification/Zstd.thy ===== *)
theory Zstd
  imports Parsers
begin

text \<open>
  Compression: the null compressors of
  \<^verbatim>\<open>include/mprpc/transport/compressors/null_compressor.h\<close>, the zstd compressors of
  \<^verbatim>\<open>impl/mprpc/transport/compressors/impl/zstd_compressor_impl.h\<close> and the zstd parsers of
  \<^verbatim>\<open>impl/mprpc/transport/parsers/impl/zstd_parser_impl.h\<close>.

  The zstd library is a parameter: the record \<open>zstd_lib\<close> has one field per function the code
  calls. A call gets the context, the room in the output and the input, and gives the new context with
  either the name of an error or the bytes it wrote (and, for streams, the number of bytes it
  read). A library that writes more than the room or reads more than the input would corrupt
  memory, which the model answers with \<open>Undefined\<close>.
\<close>

record ('d, 'c) zstd_lib =
  zstd_createDCtx :: 'd
  zstd_getDecompressedSize :: "bytes \<Rightarrow> size_t"
  zstd_decompressDCtx :: "'d \<Rightarrow> size_t \<Rightarrow> bytes \<Rightarrow> 'd \<times> (string + bytes)"
  zstd_DStreamOutSize :: size_t
  zstd_decompressStream :: "'d \<Rightarrow> size_t \<Rightarrow> bytes \<Rightarrow> 'd \<times> (string + bytes \<times> nat)"
  zstd_createCCtx :: 'c
  zstd_set_compressionLevel :: "'c \<Rightarrow> int \<Rightarrow> 'c"
  zstd_reset_session_only :: "'c \<Rightarrow> 'c"
  zstd_compressBound :: "size_t \<Rightarrow> size_t"
  zstd_compress2 :: "'c \<Rightarrow> size_t \<Rightarrow> bytes \<Rightarrow> 'c \<times> (string + bytes)"
  zstd_compressStream2_end :: "'c \<Rightarrow> size_t \<Rightarrow> bytes \<Rightarrow> 'c \<times> (string + bytes \<times> nat)"

section \<open>Compressors\<close>

record 'c compressor_ops =
  cp_init :: "'c \<Rightarrow> 'c"
  cp_compress :: "'c \<Rightarrow> message_data \<Rightarrow> 'c \<times> message_data result"

definition null_compress :: "unit \<Rightarrow> message_data \<Rightarrow> unit \<times> message_data result" where
  "null_compress c data = (c, Inr data)"

definition null_streaming_ops :: "unit compressor_ops" where
  "null_streaming_ops = \<lparr>cp_init = (\<lambda>c. c), cp_compress = null_compress\<rparr>"

definition message_bytes :: "message_data \<Rightarrow> bytes" where
  "message_bytes d = (case d of None \<Rightarrow> [] | Some bs \<Rightarrow> bs)"

record 'c zstd_compressor =
  zc_buffer :: buffer
  zc_context :: 'c
  zc_level :: int

definition zstd_compressor_create ::
    "('d, 'c) zstd_lib \<Rightarrow> allocator \<Rightarrow> int \<Rightarrow> 'c zstd_compressor result" where
  "zstd_compressor_create lib malloc level =
     bindR (buffer_empty malloc) (\<lambda>b.
     Inr \<lparr>zc_buffer = b,
          zc_context = zstd_set_compressionLevel lib (zstd_createCCtx lib) level,
          zc_level = level\<rparr>)"

definition zstd_compressor_compress ::
    "('d, 'c) zstd_lib \<Rightarrow> allocator \<Rightarrow> 'c zstd_compressor \<Rightarrow> message_data \<Rightarrow>
     'c zstd_compressor \<times> message_data result" where
  "zstd_compressor_compress lib malloc c data =
     (let src = message_bytes data in
      case buffer_resize malloc (zc_buffer c) (zstd_compressBound lib (of_nat (length src))) of
        Inl e \<Rightarrow> (c, Inl e)
      | Inr b \<Rightarrow>
          (case zstd_compress2 lib (zc_context c) (buf_size b) src of
             (ctx, Inl name) \<Rightarrow>
               (c\<lparr>zc_buffer := b, zc_context := ctx\<rparr>,
                throw_error (make_error unexpected_error
                  (''error in compression with zstd library: '' @ name)))
           | (ctx, Inr out) \<Rightarrow>
               (if unat (buf_size b) < length out then (c, Inl Undefined)
                else
                  (c\<lparr>zc_buffer := buffer_write b 0 out, zc_context := ctx\<rparr>,
                   Inr (Some (take (length out) (buf_data (buffer_write b 0 out))))))))"

definition zstd_streaming_compressor_init ::
    "('d, 'c) zstd_lib \<Rightarrow> 'c zstd_compressor \<Rightarrow> 'c zstd_compressor" where
  "zstd_streaming_compressor_init lib c =
     c\<lparr>zc_context :=
       zstd_set_compressionLevel lib (zstd_reset_session_only lib (zc_context c)) (zc_level c)\<rparr>"

definition zstd_streaming_compressor_compress ::
    "('d, 'c) zstd_lib \<Rightarrow> allocator \<Rightarrow> 'c zstd_compressor \<Rightarrow> message_data \<Rightarrow>
     'c zstd_compressor \<times> message_data result" where
  "zstd_streaming_compressor_compress lib malloc c data =
     (let src = message_bytes data;
          buffer_size = zstd_compressBound lib (of_nat (length src)) in
      case buffer_resize malloc (zc_buffer c) buffer_size of
        Inl e \<Rightarrow> (c, Inl e)
      | Inr b \<Rightarrow>
          (case zstd_compressStream2_end lib (zc_context c) (buf_size b) src of
             (ctx, Inl name) \<Rightarrow>
               (c\<lparr>zc_buffer := b, zc_context := ctx\<rparr>,
                throw_error (make_error unexpected_error
                  (''error in compression with zstd library: '' @ name)))
           | (ctx, Inr (out, n)) \<Rightarrow>
               (if unat (buf_size b) < length out then (c, Inl Undefined)
                else
                  (c\<lparr>zc_buffer := buffer_write b 0 out, zc_context := ctx\<rparr>,
                   Inr (Some (take (length out) (buf_data (buffer_write b 0 out))))))))"

definition zstd_streaming_compressor_ops ::
    "('d, 'c) zstd_lib \<Rightarrow> allocator \<Rightarrow> 'c zstd_compressor compressor_ops" where
  "zstd_streaming_compressor_ops lib malloc =
     \<lparr>cp_init = zstd_streaming_compressor_init lib,
      cp_compress = zstd_streaming_compressor_compress lib malloc\<rparr>"

section \<open>zstd_parser\<close>

record 'd zstd_parser =
  zp_buffer :: buffer
  zp_context :: 'd

definition zstd_error :: "string \<Rightarrow> error_info" where
  "zstd_error name =
     make_error invalid_message (''error in decompression with zstd library: '' @ name)"

definition zstd_parser_create :: "('d, 'c) zstd_lib \<Rightarrow> allocator \<Rightarrow> 'd zstd_parser result" where
  "zstd_parser_create lib malloc =
     bindR (buffer_empty malloc) (\<lambda>b. Inr \<lparr>zp_buffer = b, zp_context = zstd_createDCtx lib\<rparr>)"

definition zstd_parser_parse ::
    "('d, 'c) zstd_lib \<Rightarrow> allocator \<Rightarrow> string \<Rightarrow> 'd zstd_parser \<Rightarrow> bytes option \<Rightarrow> size_t \<Rightarrow>
     'd zstd_parser \<times> message_data result" where
  "zstd_parser_parse lib malloc fn p data sz =
     (case require_nonull data (Some ''data'') (Some fn) of
        Inl e \<Rightarrow> (p, Inl e)
      | Inr d \<Rightarrow>
          if length d < unat sz then (p, Inl Undefined)
          else
            let src = take (unat sz) d in
            case buffer_resize malloc (zp_buffer p) (zstd_getDecompressedSize lib src) of
              Inl e \<Rightarrow> (p, Inl e)
            | Inr b \<Rightarrow>
                (case zstd_decompressDCtx lib (zp_context p) (buf_size b) src of
                   (ctx, Inl name) \<Rightarrow>
                     (p\<lparr>zp_buffer := b, zp_context := ctx\<rparr>, throw_error (zstd_error name))
                 | (ctx, Inr out) \<Rightarrow>
                     (if unat (buf_size b) < length out then (p, Inl Undefined)
                      else
                        (p\<lparr>zp_buffer := buffer_write b 0 out, zp_context := ctx\<rparr>,
                         Inr (Some (take (length out) (buf_data (buffer_write b 0 out))))))))"

section \<open>zstd_streaming_parser\<close>

record 'd zstd_streaming_parser =
  zs_buffer :: buffer
  zs_input_size :: size_t
  zs_input_pos :: size_t
  zs_msgpack_parser :: msgpack_streaming_parser
  zs_context :: 'd

definition zs_create :: "('d, 'c) zstd_lib \<Rightarrow> allocator \<Rightarrow> 'd zstd_streaming_parser result" where
  "zs_create lib malloc =
     bindR (mp_create malloc) (\<lambda>mp.
     bindR (buffer_empty malloc) (\<lambda>b.
     Inr \<lparr>zs_buffer = b, zs_input_size = 0, zs_input_pos = 0, zs_msgpack_parser = mp,
          zs_context = zstd_createDCtx lib\<rparr>))"

definition zs_prepare_buffer ::
    "allocator \<Rightarrow> 'd zstd_streaming_parser \<Rightarrow> size_t \<Rightarrow> 'd zstd_streaming_parser result" where
  "zs_prepare_buffer malloc p sz =
     bindR (buffer_resize malloc (zs_buffer p) (zs_input_size p + sz)) (\<lambda>b.
     Inr (p\<lparr>zs_buffer := b\<rparr>))"

definition zs_receive :: "'d zstd_streaming_parser \<Rightarrow> bytes \<Rightarrow> 'd zstd_streaming_parser" where
  "zs_receive p bs = p\<lparr>zs_buffer := buffer_write (zs_buffer p) (unat (zs_input_size p)) bs\<rparr>"

definition zs_consumed :: "'d zstd_streaming_parser \<Rightarrow> size_t \<Rightarrow> 'd zstd_streaming_parser" where
  "zs_consumed p n = p\<lparr>zs_input_size := zs_input_size p + n\<rparr>"

definition zs_unread :: "'d zstd_streaming_parser \<Rightarrow> bytes" where
  "zs_unread p = drop (unat (zs_input_pos p)) (take (unat (zs_input_size p)) (buf_data (zs_buffer p)))"

datatype decompression = Going | Broken | Raised failure

definition zs_decompress_step ::
    "('d, 'c) zstd_lib \<Rightarrow> allocator \<Rightarrow> 'd zstd_streaming_parser \<times> decompression \<Rightarrow>
     'd zstd_streaming_parser \<times> decompression" where
  "zs_decompress_step lib malloc = (\<lambda>(p, _).
     let zstd_default_output_size = zstd_DStreamOutSize lib in
     case mp_prepare_buffer malloc (zs_msgpack_parser p) zstd_default_output_size of
       Inl e \<Rightarrow> (p, Raised e)
     | Inr mp \<Rightarrow>
         (case zstd_decompressStream lib (zs_context p) zstd_default_output_size (zs_unread p) of
            (ctx, Inl name) \<Rightarrow>
              (p\<lparr>zs_msgpack_parser := mp, zs_context := ctx\<rparr>,
               Raised (Throw (Mprpc_Exception (zstd_error name))))
          | (ctx, Inr (out, n)) \<Rightarrow>
              if unat zstd_default_output_size < length out \<or> length (zs_unread p) < n
              then (p, Raised Undefined)
              else
                let mp = mp_receive mp out;
                    mp = (if length out > 0 then mp_consumed mp (of_nat (length out)) else mp);
                    p = p\<lparr>zs_input_pos := zs_input_pos p + of_nat n, zs_msgpack_parser := mp,
                          zs_context := ctx\<rparr>
                in (p, if zs_input_pos p = zs_input_size p \<or>
                          length out < unat zstd_default_output_size then Broken else Going)))"

definition zs_decompress ::
    "('d, 'c) zstd_lib \<Rightarrow> allocator \<Rightarrow> 'd zstd_streaming_parser \<Rightarrow>
     ('d zstd_streaming_parser \<times> decompression) option" where
  "zs_decompress lib malloc p =
     while_option (\<lambda>(p, d). d = Going \<and> zs_input_pos p < zs_input_size p)
       (zs_decompress_step lib malloc) (p, Going)"

definition zs_parse_next ::
    "('d, 'c) zstd_lib \<Rightarrow> allocator \<Rightarrow> 'd zstd_streaming_parser \<Rightarrow> size_t \<Rightarrow>
     'd zstd_streaming_parser \<times> bool result" where
  "zs_parse_next lib malloc p n =
     (let p = zs_consumed p n in
      case zs_decompress lib malloc p of
        None \<Rightarrow> (p, Inl Diverges)
      | Some (p, Raised e) \<Rightarrow> (p, Inl e)
      | Some (p, _) \<Rightarrow>
          let p = p\<lparr>zs_buffer := buffer_consume (zs_buffer p) (zs_input_pos p),
                    zs_input_size := zs_input_size p - zs_input_pos p, zs_input_pos := 0\<rparr>;
              (mp, r) = mp_parse_next (zs_msgpack_parser p) 0
          in (p\<lparr>zs_msgpack_parser := mp\<rparr>, r))"

definition zs_get :: "'d zstd_streaming_parser \<Rightarrow> 'd zstd_streaming_parser \<times> message_data" where
  "zs_get p =
     (let (mp, data) = mp_get (zs_msgpack_parser p) in (p\<lparr>zs_msgpack_parser := mp\<rparr>, data))"

definition zstd_streaming_ops ::
    "('d, 'c) zstd_lib \<Rightarrow> allocator \<Rightarrow> 'd zstd_streaming_parser streaming_parser_ops" where
  "zstd_streaming_ops lib malloc =
     \<lparr>sp_prepare_buffer = zs_prepare_buffer malloc, sp_receive = zs_receive,
      sp_consumed = zs_consumed, sp_parse_next = zs_parse_next lib malloc, sp_get = zs_get\<rparr>"

section \<open>What the code relies on of the library\<close>

text \<open>
  \<open>decoded ctx inp\<close> is what a decompression context still gives for the input \<open>inp\<close>: a call of
  \<open>ZSTD_decompressStream\<close> stays in its buffers and writes the next bytes of it.
\<close>

definition zstd_stream_ok :: "('d, 'c) zstd_lib \<Rightarrow> ('d \<Rightarrow> bytes \<Rightarrow> bytes) \<Rightarrow> bool" where
  "zstd_stream_ok lib decoded \<longleftrightarrow>
     0 < zstd_DStreamOutSize lib \<and>
     (\<forall>ctx room inp ctx' out n.
        zstd_decompressStream lib ctx room inp = (ctx', Inr (out, n)) \<longrightarrow>
        length out \<le> unat room \<and> n \<le> length inp \<and>
        decoded ctx inp = out @ decoded ctx' (drop n inp))"

text \<open>
  The one-shot functions: a frame fits into the bound, and decompressing a frame gives the bytes that
  were compressed.
\<close>

definition zstd_frames_ok :: "('d, 'c) zstd_lib \<Rightarrow> bool" where
  "zstd_frames_ok lib \<longleftrightarrow>
     (\<forall>ctx room src ctx' out dctx.
        zstd_compress2 lib ctx room src = (ctx', Inr out) \<longrightarrow>
        length out \<le> unat room \<and>
        unat (zstd_getDecompressedSize lib out) = length src \<and>
        (\<exists>dctx'. zstd_decompressDCtx lib dctx (zstd_getDecompressedSize lib out) out =
           (dctx', Inr src)))"


section \<open>The loop of the streaming parser\<close>

definition zs_inv :: "'d zstd_streaming_parser \<Rightarrow> bool" where
  "zs_inv p \<longleftrightarrow>
     wf_buffer (zs_buffer p) \<and> zs_input_size p \<le> buf_size (zs_buffer p) \<and>
     zs_input_pos p \<le> zs_input_size p \<and> mp_inv (zs_msgpack_parser p)"

definition zs_total :: "('d \<Rightarrow> bytes \<Rightarrow> bytes) \<Rightarrow> 'd zstd_streaming_parser \<Rightarrow> bytes" where
  "zs_total decoded p = mp_pending (zs_msgpack_parser p) @ decoded (zs_context p) (zs_unread p)"

definition zs_undecoded :: "('d \<Rightarrow> bytes \<Rightarrow> bytes) \<Rightarrow> 'd zstd_streaming_parser \<Rightarrow> bytes" where
  "zs_undecoded decoded p = decoded (zs_context p) (zs_unread p)"

lemma length_zs_unread:
  assumes "zs_inv p"
  shows "length (zs_unread p) = unat (zs_input_size p) - unat (zs_input_pos p)"
proof -
  have "unat (zs_input_size p) \<le> length (buf_data (zs_buffer p))"
    using assms by (auto simp: zs_inv_def wf_buffer_def word_le_nat_alt)
  then show ?thesis by (simp add: zs_unread_def)
qed

lemma mp_accept:
  assumes "mp_inv p" and "length out \<le> mp_room p"
  defines "q \<equiv> (if length out > 0 then mp_consumed (mp_receive p out) (of_nat (length out)) else mp_receive p out)"
  shows "mp_inv q \<and> mp_pending q = mp_pending p @ out"
proof -
  have "q = mp_consumed (mp_receive p out) (of_nat (length out))" by (simp add: q_def)
  then show ?thesis using mp_receive_ok [OF assms(1,2)] by simp
qed

definition decompression_failure :: "failure \<Rightarrow> bool" where
  "decompression_failure e \<longleftrightarrow>
     e = Throw Bad_Alloc \<or> (\<exists>name. e = Throw (Mprpc_Exception (zstd_error name)))"

definition zs_progress ::
    "('d \<Rightarrow> bytes \<Rightarrow> bytes) \<Rightarrow> 'd zstd_streaming_parser \<Rightarrow>
     'd zstd_streaming_parser \<times> decompression \<Rightarrow> bool" where
  "zs_progress decoded p = (\<lambda>(q, d).
     zs_inv q \<and>
     (case d of
        Raised e \<Rightarrow> decompression_failure e
      | _ \<Rightarrow> zs_total decoded q = zs_total decoded p \<and>
          (d = Going \<longrightarrow> length (zs_undecoded decoded q) < length (zs_undecoded decoded p))))"

lemma zs_accept:
  assumes p: "zs_inv p" and mp: "mp_inv mp" "mp_pending mp = mp_pending (zs_msgpack_parser p) @ out"
    and n: "n \<le> length (zs_unread p)"
    and dec: "decoded (zs_context p) (zs_unread p) = out @ decoded ctx (drop n (zs_unread p))"
  defines "q \<equiv> p\<lparr>zs_input_pos := zs_input_pos p + of_nat n, zs_msgpack_parser := mp, zs_context := ctx\<rparr>"
  shows "zs_inv q" and "zs_total decoded q = zs_total decoded p"
    and "zs_undecoded decoded p = out @ zs_undecoded decoded q"
proof -
  have pos: "unat (zs_input_pos p + of_nat n) = unat (zs_input_pos p) + n"
    "unat (zs_input_pos p) + n \<le> unat (zs_input_size p)"
    using n length_zs_unread [OF p] unsigned_less [of "zs_input_size p", where ?'a = nat] p
    by (auto simp: zs_inv_def word_le_nat_alt unat_word_ariths unat_of_nat)
  have un: "zs_unread q = drop n (zs_unread p)" using pos by (simp add: q_def zs_unread_def add.commute)
  show "zs_inv q" using p mp pos by (simp add: q_def zs_inv_def word_le_nat_alt)
  show "zs_total decoded q = zs_total decoded p" using mp(2) dec un by (simp add: zs_total_def q_def)
  show "zs_undecoded decoded p = out @ zs_undecoded decoded q"
    using dec un by (simp add: zs_undecoded_def q_def)
qed

lemma zs_decompress_step_ok:
  assumes lib: "zstd_stream_ok lib decoded" and m: "malloc_ok malloc" and p: "zs_inv p"
    and bound: "length (zs_total decoded p) + unat (zstd_DStreamOutSize lib) < 2 ^ 64"
  shows "zs_progress decoded p (zs_decompress_step lib malloc (p, d))"
proof (cases "mp_prepare_buffer malloc (zs_msgpack_parser p) (zstd_DStreamOutSize lib)")
  case (Inl f)
  have "mp_inv (zs_msgpack_parser p)" using p by (simp add: zs_inv_def)
  from mp_prepare_fails [OF this Inl] Inl p show ?thesis
    by (simp add: zs_decompress_step_def zs_progress_def decompression_failure_def)
next
  case (Inr mp)
  let ?sz = "zstd_DStreamOutSize lib"
  have mp: "mp_inv mp" "mp_pending mp = mp_pending (zs_msgpack_parser p)" "mp_room mp = unat ?sz"
    using mp_prepare_ok [OF m _ _ Inr] bound p by (auto simp: zs_total_def zs_inv_def)
  obtain ctx r where c: "zstd_decompressStream lib (zs_context p) ?sz (zs_unread p) = (ctx, r)" by fastforce
  show ?thesis
  proof (cases r)
    case (Inl name)
    then show ?thesis
      using Inr c p mp
      by (auto simp: zs_decompress_step_def zs_progress_def decompression_failure_def zs_inv_def)
  next
    case r: (Inr a)
    obtain out n where a: "a = (out, n)" by fastforce
    have ok: "length out \<le> unat ?sz" "n \<le> length (zs_unread p)"
      "decoded (zs_context p) (zs_unread p) = out @ decoded ctx (drop n (zs_unread p))"
      using lib c r a by (auto simp: zstd_stream_ok_def)
    have "0 < unat ?sz" using lib by (simp add: zstd_stream_ok_def word_less_nat_alt)
    moreover note acc = mp_accept [OF mp(1), of out, unfolded mp, OF ok(1)]
    note zs_accept [OF p acc [THEN conjunct1] acc [THEN conjunct2] ok(2,3)]
    ultimately show ?thesis
      using Inr c r a ok(1,2) by (simp add: zs_decompress_step_def Let_def zs_progress_def)
  qed
qed

lemma zs_decompress_ok:
  assumes lib: "zstd_stream_ok lib decoded" and m: "malloc_ok malloc" and p: "zs_inv p"
    and bound: "length (zs_total decoded p) + unat (zstd_DStreamOutSize lib) < 2 ^ 64"
  obtains q d where "zs_decompress lib malloc p = Some (q, d)" "zs_inv q"
    "case d of Raised e \<Rightarrow> decompression_failure e | _ \<Rightarrow> zs_total decoded q = zs_total decoded p"
proof -
  let ?P = "\<lambda>(q, d). zs_inv q \<and> (case d of Raised e \<Rightarrow> decompression_failure e
    | _ \<Rightarrow> zs_total decoded q = zs_total decoded p)"
  let ?b = "\<lambda>(q, d). d = Going \<and> zs_input_pos q < zs_input_size q"
  let ?f = "\<lambda>(q, d). if d = Going then Suc (length (zs_undecoded decoded q)) else 0"
  have step: "?P (zs_decompress_step lib malloc s) \<and> ?f (zs_decompress_step lib malloc s) < ?f s"
    if "?P s" "?b s" for s
    using that zs_decompress_step_ok [OF lib m, of "fst s" "snd s"] bound
    by (cases s; cases "zs_decompress_step lib malloc s")
      (auto simp: zs_progress_def split: decompression.splits)
  have init: "?P (p, Going)" using p by simp
  have "\<exists>s. zs_decompress lib malloc p = Some s"
    unfolding zs_decompress_def
    by (rule measure_while_option_Some [where P = ?P and f = ?f and b = ?b, OF step init])
  then obtain s where s: "zs_decompress lib malloc p = Some s" ..
  have "?P s"
    by (rule while_option_rule [where P = ?P, OF _ s [unfolded zs_decompress_def] init])
      (rule step [THEN conjunct1])
  with s that show thesis by (cases s) auto
qed

lemma zs_decompress_no_input:
  "\<not> zs_input_pos p < zs_input_size p \<Longrightarrow> zs_decompress lib malloc p = Some (p, Going)"
  unfolding zs_decompress_def by (subst while_option_unfold) simp

lemma zs_decompress_break:
  assumes "zs_input_pos p < zs_input_size p" and "zs_decompress_step lib malloc (p, Going) = (q, Broken)"
  shows "zs_decompress lib malloc p = Some (q, Broken)"
  unfolding zs_decompress_def
  by (subst while_option_unfold, simp add: assms, subst while_option_unfold, simp)

lemma zs_shift:
  assumes "zs_inv p"
  defines "q \<equiv> p\<lparr>zs_buffer := buffer_consume (zs_buffer p) (zs_input_pos p),
    zs_input_size := zs_input_size p - zs_input_pos p, zs_input_pos := 0\<rparr>"
  shows "zs_inv q" and "zs_unread q = zs_unread p"
proof -
  have wf: "wf_buffer (zs_buffer p)" and le: "zs_input_pos p \<le> zs_input_size p"
    "zs_input_size p \<le> buf_size (zs_buffer p)"
    using assms(1) by (simp_all add: zs_inv_def)
  show "zs_inv q"
    using assms(1) buffer_consume_ok(1) [OF wf] buffer_consume_take(1) [OF wf le]
    by (simp add: q_def zs_inv_def)
  show "zs_unread q = zs_unread p"
    using buffer_consume_take(2) [OF wf le] by (simp add: q_def zs_unread_def)
qed

lemma zs_parse_rest:
  assumes "zs_inv p"
  shows "case mp_parse_next (zs_msgpack_parser p) 0 of
      (mp, Inr ok) \<Rightarrow> zs_inv (p\<lparr>zs_msgpack_parser := mp\<rparr>) \<and>
        zs_total decoded (p\<lparr>zs_msgpack_parser := mp\<rparr>) = zs_total decoded p
    | (mp, Inl e) \<Rightarrow> e = Throw (Mprpc_Exception (make_error parse_error ''failed to parse a message''))"
proof -
  let ?mp = "zs_msgpack_parser p"
  have mp: "mp_inv ?mp" using assms by (simp add: zs_inv_def)
  obtain mp' r where r: "mp_parse_next ?mp 0 = (mp', r)" by fastforce
  show ?thesis
    using mp_parse_next_inv [of ?mp 0] mp r assms
    by (cases rule: mp_parse_next_returns [of ?mp 0]) (auto simp: zs_inv_def zs_total_def zs_unread_def)
qed

text \<open>
  C31. As long as the zstd library decodes streams, the decompressing loop of
  \<open>zstd_streaming_parser::parse_next\<close> ends, and \<open>parse_next\<close> throws only for lack of memory, for an
  error of zstd or for malformed MessagePack data. When it answers, the messages waiting in the
  MessagePack parser followed by what zstd has still to give are what they were: no byte of the stream is
  lost, repeated or reordered.
\<close>

theorem zs_parse_next_keeps_stream:
  assumes "zstd_stream_ok lib decoded" and "malloc_ok malloc" and "zs_inv p"
    and "length (zs_total decoded p) + unat (zstd_DStreamOutSize lib) < 2 ^ 64"
  shows "case zs_parse_next lib malloc p 0 of
      (q, Inr ok) \<Rightarrow> zs_inv q \<and> zs_total decoded q = zs_total decoded p
    | (q, Inl e) \<Rightarrow> decompression_failure e \<or>
        e = Throw (Mprpc_Exception (make_error parse_error ''failed to parse a message''))"
proof (rule zs_decompress_ok [OF assms])
  fix q d
  assume q: "zs_decompress lib malloc p = Some (q, d)" "zs_inv q"
    "case d of Raised e \<Rightarrow> decompression_failure e | _ \<Rightarrow> zs_total decoded q = zs_total decoded p"
  note q1 = zs_shift [OF q(2)]
  show ?thesis
  proof (cases d)
    case (Raised e)
    with q show ?thesis by (simp add: zs_parse_next_def zs_consumed_def)
  qed (use q q1 zs_parse_rest [OF q1(1), of decoded] in
      \<open>auto simp: zs_parse_next_def zs_consumed_def Let_def zs_total_def split: prod.splits sum.splits\<close>)
qed


section \<open>Examples\<close>

text \<open>A library that stores instead of compressing, with an output size of two bytes.\<close>

definition stored_zstd :: "(bytes, unit) zstd_lib" where
  "stored_zstd =
     \<lparr>zstd_createDCtx = [], zstd_getDecompressedSize = (\<lambda>src. of_nat (length src)),
      zstd_decompressDCtx = (\<lambda>ctx room src.
        (ctx, if length src \<le> unat room then Inr src else Inl ''Destination buffer is too small'')),
      zstd_DStreamOutSize = 2,
      zstd_decompressStream = (\<lambda>ctx room inp.
        (drop (unat room) (ctx @ inp), Inr (take (unat room) (ctx @ inp), length inp))),
      zstd_createCCtx = (), zstd_set_compressionLevel = (\<lambda>ctx level. ctx),
      zstd_reset_session_only = (\<lambda>ctx. ctx), zstd_compressBound = (\<lambda>n. n),
      zstd_compress2 = (\<lambda>ctx room src.
        (ctx, if length src \<le> unat room then Inr src else Inl ''Destination buffer is too small'')),
      zstd_compressStream2_end = (\<lambda>ctx room src.
        (ctx, if length src \<le> unat room then Inr (src, length src)
              else Inl ''Destination buffer is too small''))\<rparr>"

lemma stored_zstd_stream: "zstd_stream_ok stored_zstd (@)"
  by (auto simp: zstd_stream_ok_def stored_zstd_def simp del: take_append drop_append)

lemma stored_zstd_frames: "zstd_frames_ok stored_zstd"
proof -
  have "unat (of_nat n :: size_t) = n" if "n \<le> unat room" for n and room :: size_t
    using that unsigned_less [of room, where ?'a = nat] by (simp add: unat_of_nat)
  then show ?thesis by (auto simp: zstd_frames_ok_def stored_zstd_def split: if_splits)
qed

definition example_zs :: "bytes \<Rightarrow> bytes zstd_streaming_parser" where
  "example_zs bs =
     \<lparr>zs_buffer = example_buffer bs, zs_input_size = of_nat (length bs), zs_input_pos = 0,
      zs_msgpack_parser = example_parser [], zs_context = []\<rparr>"

lemma example_zs_ok:
  assumes "length bs \<le> 1024"
  shows "zs_inv (example_zs bs)" and "zs_unread (example_zs bs) = bs"
    and "mp_pending (zs_msgpack_parser (example_zs bs)) = []"
  using assms example_parser_inv [of "[]"] wf_example_buffer [OF assms]
  by (simp_all add: example_zs_def zs_inv_def zs_unread_def unat_of_nat example_buffer_def)

theorem zs_parse_next_keeps_stream_witness:
  "case zs_parse_next stored_zstd example_malloc (example_zs [0x92, 1, 2]) 0 of
      (q, Inr ok) \<Rightarrow> zs_inv q \<and> zs_total (@) q = zs_total (@) (example_zs [0x92, 1, 2])
    | (q, Inl e) \<Rightarrow> decompression_failure e \<or>
        e = Throw (Mprpc_Exception (make_error parse_error ''failed to parse a message''))"
  by (rule zs_parse_next_keeps_stream [OF stored_zstd_stream example_malloc_ok])
    (simp_all add: example_zs_ok zs_total_def, simp_all add: example_zs_def stored_zstd_def)

text \<open>
  \<open>zstd_streaming_parser::parse_next\<close> leaves its loop as soon as all input has been handed to zstd, even
  when the output buffer is full and zstd holds decoded bytes back. A message that has arrived
  completely is then reported as incomplete, and asking again does not help: the loop is not entered
  without new input.
\<close>

theorem zs_parse_next_holds_back:
  "zs_total (@) (example_zs [0x92, 1, 2]) = pack_object (ARRAY [POSITIVE_INTEGER 1, POSITIVE_INTEGER 2]) \<and>
   (\<exists>q. zs_parse_next stored_zstd example_malloc (example_zs [0x92, 1, 2]) 0 = (q, Inr False) \<and>
      zs_total (@) q = pack_object (ARRAY [POSITIVE_INTEGER 1, POSITIVE_INTEGER 2]) \<and>
      zs_unread q = [] \<and>
      snd (zs_parse_next stored_zstd example_malloc q 0) = Inr False)"
proof -
  let ?x = "ARRAY [POSITIVE_INTEGER 1, POSITIVE_INTEGER 2]"
  let ?p = "example_zs [0x92, 1, 2]"
  have x: "pack_object ?x = [0x92, 1] @ [2]"
    by (simp add: pack_object_def pack_array_def pack_imp_uint64_def take8_def)
  have wf: "wf_mobj ?x" by simp
  have tot: "zs_total (@) ?p = pack_object ?x" using example_zs_ok [of "[0x92, 1, 2]"]
    by (simp add: zs_total_def x example_zs_def)
  obtain q where q: "zs_decompress_step stored_zstd example_malloc (?p, Going) = (q, Broken)"
    "zs_input_pos q = 3" "zs_input_size q = 3" "mp_pending (zs_msgpack_parser q) = [0x92, 1]"
    by (simp add: zs_decompress_step_def stored_zstd_def example_zs_def mp_prepare_buffer_def example_parser_def
     example_buffer_def buffer_resize_def zs_unread_def Let_def mp_receive_def mp_consumed_def mp_pending_def buffer_write_def)
  have prog: "zs_progress (@) ?p (q, Broken)"
    unfolding q(1) [symmetric]
    by (rule zs_decompress_step_ok [OF stored_zstd_stream example_malloc_ok])
      (simp_all add: example_zs_ok tot x, simp add: stored_zstd_def)
  have dec: "zs_decompress stored_zstd example_malloc ?p = Some (q, Broken)"
    by (rule zs_decompress_break [OF _ q(1)]) (simp add: example_zs_def)
  define r where "r = q\<lparr>zs_buffer := buffer_consume (zs_buffer q) (zs_input_pos q),
    zs_input_size := zs_input_size q - zs_input_pos q, zs_input_pos := 0\<rparr>"
  have r: "zs_inv r" "zs_unread r = zs_unread q" "zs_total (@) r = pack_object ?x"
    using zs_shift [of q] prog tot by (simp_all add: r_def zs_progress_def zs_total_def)
  obtain mp where mp: "mp_parse_next (zs_msgpack_parser r) 0 = (mp, Inr False)" "mp_inv mp"
    "mp_pending mp = mp_pending (zs_msgpack_parser r)"
    using mp_parse_incomplete [OF _ wf, of "zs_msgpack_parser r" "[2]"] r(1) q(4) x
    by (auto simp: zs_inv_def r_def)
  obtain mp' where mp': "mp_parse_next mp 0 = (mp', Inr False)"
    using mp_parse_incomplete [OF mp(2) wf, of "[2]"] mp(3) q(4) x by (auto simp: r_def)
  let ?q = "r\<lparr>zs_msgpack_parser := mp\<rparr>"
  have "zs_parse_next stored_zstd example_malloc ?p 0 = (?q, Inr False)"
    using dec mp(1) by (simp add: zs_parse_next_def zs_consumed_def Let_def r_def)
  moreover have "zs_total (@) ?q = pack_object ?x" "zs_unread ?q = []"
    using r(3) mp(3) q(2,3) by (simp_all add: zs_total_def zs_unread_def r_def)
  moreover have "zs_decompress stored_zstd example_malloc ?q = Some (?q, Going)"
    by (rule zs_decompress_no_input) (simp add: r_def q(2,3))
  then have "snd (zs_parse_next stored_zstd example_malloc ?q 0) = Inr False"
    using mp' by (simp add: zs_parse_next_def zs_consumed_def Let_def)
  ultimately show ?thesis using tot by blast
qed



end
