(* ===== verification/Stream_Socket.thy ===== *)
theory Stream_Socket
  imports Zstd "HOL-Library.Sublist"
begin

text \<open>
  \<open>stream_socket_helper\<close> of
  \<^verbatim>\<open>impl/mprpc/transport/asio_helper/stream_socket_helper.h\<close>: reading messages from and writing
  messages to a stream socket.

  All functions of the helper run on one strand, one after the other, and what they ask of the
  outside is a list of actions: calls of handlers and the asynchronous operations that are started. A
  function gives the new state, its actions in order and whether it returned or let an exception
  escape. Whether a handler returns or throws is part of the environment, \<open>he_on_read\<close> and \<open>he_on_write\<close>. \<open>socket_.available()\<close> is asked of the operating system; its answers, which may be an
  exception, are arguments.

  The second half composes the functions: a \<open>connection\<close> is a helper with the operations the
  operating system has still to complete, and \<open>connection_next\<close> is one event: a posted call of
  \<open>async_read\<close> or \<open>async_write\<close> or the completion of an operation.
\<close>

section \<open>The helper\<close>

datatype asio_error = operation_aborted | asio_eof | asio_error string

primrec asio_message :: "asio_error \<Rightarrow> string" where
  "asio_message operation_aborted = ''Operation canceled''"
| "asio_message asio_eof = ''End of file''"
| "asio_message (asio_error m) = m"

datatype 'r read_action = Call_On_Read 'r error_info message_data | Start_Read_Some 'r size_t

datatype 'w write_action = Call_On_Write 'w error_info | Start_Write bytes

record ('p, 'c, 'w) stream_socket_helper =
  sh_parser :: 'p
  sh_compressor :: 'c
  sh_writing_queue :: "(message_data \<times> 'w) list"

record ('p, 'c, 'r, 'w) helper_env =
  he_parser_ops :: "'p streaming_parser_ops"
  he_compressor_ops :: "'c compressor_ops"
  he_streaming_min_buf_size :: size_t
  he_on_read :: "'r \<Rightarrow> error_info \<Rightarrow> message_data \<Rightarrow> unit result"
  he_on_write :: "'w \<Rightarrow> error_info \<Rightarrow> unit result"

definition sh_create ::
    "('p, 'c, 'r, 'w) helper_env \<Rightarrow> 'c \<Rightarrow> 'p \<Rightarrow> ('p, 'c, 'w) stream_socket_helper" where
  "sh_create env compr parser =
     \<lparr>sh_parser = parser, sh_compressor = cp_init (he_compressor_ops env) compr,
      sh_writing_queue = []\<rparr>"

definition sh_parse_next ::
    "('p, 'c, 'r, 'w) helper_env \<Rightarrow> ('p, 'c, 'w) stream_socket_helper \<Rightarrow> 'r \<Rightarrow> size_t \<Rightarrow>
     ('p, 'c, 'w) stream_socket_helper \<times> 'r read_action list \<times> bool result" where
  "sh_parse_next env s handler num_bytes =
     (case sp_parse_next (he_parser_ops env) (sh_parser s) num_bytes of
        (p, Inr True) \<Rightarrow>
          (let (p, message) = sp_get (he_parser_ops env) p in
           case he_on_read env handler None message of
             Inr _ \<Rightarrow> (s\<lparr>sh_parser := p\<rparr>, [Call_On_Read handler None message], Inr True)
           | Inl (Throw (Mprpc_Exception info)) \<Rightarrow>
               (s\<lparr>sh_parser := p\<rparr>, [Call_On_Read handler None message, Call_On_Read handler info None],
                bindR (he_on_read env handler info None) (\<lambda>_. Inr True))
           | Inl e \<Rightarrow> (s\<lparr>sh_parser := p\<rparr>, [Call_On_Read handler None message], Inl e))
      | (p, Inr False) \<Rightarrow> (s\<lparr>sh_parser := p\<rparr>, [], Inr False)
      | (p, Inl (Throw (Mprpc_Exception info))) \<Rightarrow>
          (s\<lparr>sh_parser := p\<rparr>, [Call_On_Read handler info None],
           bindR (he_on_read env handler info None) (\<lambda>_. Inr True))
      | (p, Inl e) \<Rightarrow> (s\<lparr>sh_parser := p\<rparr>, [], Inl e))"

definition sh_do_read_bytes ::
    "('p, 'c, 'r, 'w) helper_env \<Rightarrow> ('p, 'c, 'w) stream_socket_helper \<Rightarrow> size_t result \<Rightarrow> 'r \<Rightarrow>
     ('p, 'c, 'w) stream_socket_helper \<times> 'r read_action list \<times> unit result" where
  "sh_do_read_bytes env s available handler =
     (case available of
        Inl e \<Rightarrow> (s, [], Inl e)
      | Inr n \<Rightarrow>
          let buf_size = max (he_streaming_min_buf_size env) n in
          (case sp_prepare_buffer (he_parser_ops env) (sh_parser s) buf_size of
             Inl e \<Rightarrow> (s, [], Inl e)
           | Inr p \<Rightarrow> (s\<lparr>sh_parser := p\<rparr>, [Start_Read_Some handler buf_size], Inr ())))"

definition sh_do_read_message ::
    "('p, 'c, 'r, 'w) helper_env \<Rightarrow> ('p, 'c, 'w) stream_socket_helper \<Rightarrow> size_t result \<Rightarrow> 'r \<Rightarrow>
     ('p, 'c, 'w) stream_socket_helper \<times> 'r read_action list \<times> unit result" where
  "sh_do_read_message env s available handler =
     (case sh_parse_next env s handler 0 of
        (s, acts, Inl e) \<Rightarrow> (s, acts, Inl e)
      | (s, acts, Inr True) \<Rightarrow> (s, acts, Inr ())
      | (s, acts, Inr False) \<Rightarrow>
          (case sh_do_read_bytes env s available handler of (s, acts', r) \<Rightarrow> (s, acts @ acts', r)))"

text \<open>
  \<open>on_read_bytes\<close> is called with the bytes the operating system has written to the parser's buffer;
  it asks \<open>available()\<close> first for itself and then in \<open>do_read_bytes\<close>.
\<close>

definition sh_on_read_bytes ::
    "('p, 'c, 'r, 'w) helper_env \<Rightarrow> ('p, 'c, 'w) stream_socket_helper \<Rightarrow> asio_error option \<Rightarrow> bytes \<Rightarrow>
     size_t result \<Rightarrow> size_t result \<Rightarrow> 'r \<Rightarrow>
     ('p, 'c, 'w) stream_socket_helper \<times> 'r read_action list \<times> unit result" where
  "sh_on_read_bytes env s err bs available available' handler =
     (case err of
        Some operation_aborted \<Rightarrow> (s, [], Inr ())
      | Some asio_eof \<Rightarrow>
          (s, [Call_On_Read handler (make_error eof ''connection closed'') None],
           he_on_read env handler (make_error eof ''connection closed'') None)
      | Some e \<Rightarrow>
          (s, [Call_On_Read handler (make_error failed_to_read (asio_message e)) None],
           he_on_read env handler (make_error failed_to_read (asio_message e)) None)
      | None \<Rightarrow>
          (case available of
             Inl e \<Rightarrow> (s, [], Inl e)
           | Inr n \<Rightarrow>
               let s = s\<lparr>sh_parser := sp_receive (he_parser_ops env) (sh_parser s) bs\<rparr>;
                   num_bytes = of_nat (length bs) in
               (case (if n = 0 then sh_parse_next env s handler num_bytes
                      else (s\<lparr>sh_parser := sp_consumed (he_parser_ops env) (sh_parser s) num_bytes\<rparr>,
                            [], Inr False)) of
                  (s, acts, Inl e) \<Rightarrow> (s, acts, Inl e)
                | (s, acts, Inr True) \<Rightarrow> (s, acts, Inr ())
                | (s, acts, Inr False) \<Rightarrow>
                    (case sh_do_read_bytes env s available' handler of
                       (s, acts', r) \<Rightarrow> (s, acts @ acts', r)))))"

definition sh_do_write ::
    "('p, 'c, 'r, 'w) helper_env \<Rightarrow> ('p, 'c, 'w) stream_socket_helper \<Rightarrow>
     ('p, 'c, 'w) stream_socket_helper \<times> 'w write_action list \<times> unit result" where
  "sh_do_write env s =
     (case sh_writing_queue s of
        [] \<Rightarrow> (s, [], Inl Undefined)
      | (data, handler) # _ \<Rightarrow>
          (case cp_compress (he_compressor_ops env) (sh_compressor s) data of
             (c, Inl e) \<Rightarrow> (s\<lparr>sh_compressor := c\<rparr>, [], Inl e)
           | (c, Inr d) \<Rightarrow> (s\<lparr>sh_compressor := c\<rparr>, [Start_Write (message_bytes d)], Inr ())))"

definition sh_add_message_to_write ::
    "('p, 'c, 'r, 'w) helper_env \<Rightarrow> ('p, 'c, 'w) stream_socket_helper \<Rightarrow> message_data \<Rightarrow> 'w \<Rightarrow>
     ('p, 'c, 'w) stream_socket_helper \<times> 'w write_action list \<times> unit result" where
  "sh_add_message_to_write env s data handler =
     (let start_writing = (sh_writing_queue s = []);
          s = s\<lparr>sh_writing_queue := sh_writing_queue s @ [(data, handler)]\<rparr> in
      if start_writing then sh_do_write env s else (s, [], Inr ()))"

definition sh_on_write ::
    "('p, 'c, 'r, 'w) helper_env \<Rightarrow> ('p, 'c, 'w) stream_socket_helper \<Rightarrow> asio_error option \<Rightarrow>
     ('p, 'c, 'w) stream_socket_helper \<times> 'w write_action list \<times> unit result" where
  "sh_on_write env s err =
     (if err = Some operation_aborted then (s, [], Inr ())
      else
        case sh_writing_queue s of
          [] \<Rightarrow> (s, [], Inl Undefined)
        | (data, handler) # rest \<Rightarrow>
            (case err of
               Some e \<Rightarrow>
                 (s, [Call_On_Write handler (make_error failed_to_write (asio_message e))],
                  he_on_write env handler (make_error failed_to_write (asio_message e)))
             | None \<Rightarrow>
                 (case he_on_write env handler None of
                    Inl e \<Rightarrow> (s, [Call_On_Write handler None], Inl e)
                  | Inr _ \<Rightarrow>
                      let s = s\<lparr>sh_writing_queue := rest\<rparr> in
                      if rest = [] then (s, [Call_On_Write handler None], Inr ())
                      else
                        (case sh_do_write env s of
                           (s, acts, r) \<Rightarrow> (s, Call_On_Write handler None # acts, r)))))"

section \<open>The connection\<close>

datatype ('r, 'w) socket_event =
    Async_Read 'r "size_t result"
  | Async_Write message_data 'w
  | Read_Completed "asio_error option" bytes "size_t result" "size_t result"
  | Write_Completed "asio_error option"

record ('p, 'c, 'r, 'w) connection =
  cn_helper :: "('p, 'c, 'w) stream_socket_helper"
  cn_reading :: "('r \<times> size_t) option"
  cn_read_log :: "'r read_action list"
  cn_writing :: bool
  cn_write_log :: "'w write_action list"
  cn_escaped :: "failure option"

definition escaped :: "unit result \<Rightarrow> failure option" where
  "escaped r = (case r of Inl e \<Rightarrow> Some e | Inr _ \<Rightarrow> None)"

fun started_read :: "'r read_action list \<Rightarrow> ('r \<times> size_t) option" where
  "started_read [] = None"
| "started_read (Start_Read_Some h n # _) = Some (h, n)"
| "started_read (_ # acts) = started_read acts"

fun started_write :: "'w write_action list \<Rightarrow> bool" where
  "started_write [] = False"
| "started_write (Start_Write _ # _) = True"
| "started_write (_ # acts) = started_write acts"

definition finish_read ::
    "('p, 'c, 'r, 'w) connection \<Rightarrow>
     ('p, 'c, 'w) stream_socket_helper \<times> 'r read_action list \<times> unit result \<Rightarrow>
     ('p, 'c, 'r, 'w) connection" where
  "finish_read cn = (\<lambda>(s, acts, r).
     cn\<lparr>cn_helper := s, cn_reading := started_read acts, cn_read_log := cn_read_log cn @ acts,
        cn_escaped := escaped r\<rparr>)"

definition finish_write ::
    "('p, 'c, 'r, 'w) connection \<Rightarrow>
     ('p, 'c, 'w) stream_socket_helper \<times> 'w write_action list \<times> unit result \<Rightarrow>
     ('p, 'c, 'r, 'w) connection" where
  "finish_write cn = (\<lambda>(s, acts, r).
     cn\<lparr>cn_helper := s, cn_writing := cn_writing cn \<or> started_write acts,
        cn_write_log := cn_write_log cn @ acts, cn_escaped := escaped r\<rparr>)"

text \<open>
  One event. Users of a helper read one message at a time; an operation completes only when it has
  been started, and a read writes at most as many bytes as it was given room for.
\<close>

definition connection_next ::
    "('p, 'c, 'r, 'w) helper_env \<Rightarrow> ('p, 'c, 'r, 'w) connection \<Rightarrow> ('r, 'w) socket_event \<Rightarrow>
     ('p, 'c, 'r, 'w) connection option" where
  "connection_next env cn ev =
     (if cn_escaped cn \<noteq> None then None
      else
        case ev of
          Async_Read h available \<Rightarrow>
            if cn_reading cn \<noteq> None then None
            else Some (finish_read cn (sh_do_read_message env (cn_helper cn) available h))
        | Async_Write d h \<Rightarrow>
            Some (finish_write cn (sh_add_message_to_write env (cn_helper cn) d h))
        | Read_Completed err bs available available' \<Rightarrow>
            (case cn_reading cn of
               None \<Rightarrow> None
             | Some (h, room) \<Rightarrow>
                 if unat room < length bs \<or> (err \<noteq> None \<and> bs \<noteq> []) then None
                 else Some (finish_read cn
                   (sh_on_read_bytes env (cn_helper cn) err bs available available' h)))
        | Write_Completed err \<Rightarrow>
            if \<not> cn_writing cn then None
            else Some (finish_write (cn\<lparr>cn_writing := False\<rparr>) (sh_on_write env (cn_helper cn) err)))"

abbreviation connection_run ::
    "('p, 'c, 'r, 'w) helper_env \<Rightarrow> ('p, 'c, 'r, 'w) connection \<Rightarrow> ('r, 'w) socket_event list \<Rightarrow>
     ('p, 'c, 'r, 'w) connection \<Rightarrow> bool" where
  "connection_run env \<equiv> trace (connection_next env)"

definition connection_start ::
    "('p, 'c, 'r, 'w) helper_env \<Rightarrow> 'c \<Rightarrow> 'p \<Rightarrow> ('p, 'c, 'r, 'w) connection" where
  "connection_start env compr parser =
     \<lparr>cn_helper = sh_create env compr parser, cn_reading = None, cn_read_log = [],
      cn_writing = False, cn_write_log = [], cn_escaped = None\<rparr>"


section \<open>Reading\<close>

fun delivered :: "'r read_action list \<Rightarrow> message_data list" where
  "delivered [] = []"
| "delivered (Call_On_Read h None m # acts) = m # delivered acts"
| "delivered (_ # acts) = delivered acts"

fun read_failures :: "'r read_action list \<Rightarrow> error_info list" where
  "read_failures [] = []"
| "read_failures (Call_On_Read h (Some e) m # acts) = Some e # read_failures acts"
| "read_failures (_ # acts) = read_failures acts"

fun event_bytes :: "('r, 'w) socket_event \<Rightarrow> bytes" where
  "event_bytes (Read_Completed None bs _ _) = bs"
| "event_bytes _ = []"

fun event_failures :: "('r, 'w) socket_event \<Rightarrow> error_info list" where
  "event_failures (Read_Completed (Some asio_eof) _ _ _) = [make_error eof ''connection closed'']"
| "event_failures (Read_Completed (Some (asio_error m)) _ _ _) = [make_error failed_to_read m]"
| "event_failures _ = []"

definition in_range :: "nat \<Rightarrow> size_t result \<Rightarrow> bool" where
  "in_range lim r = (case r of Inr n \<Rightarrow> unat n \<le> lim | Inl _ \<Rightarrow> True)"

fun event_in_range :: "nat \<Rightarrow> ('r, 'w) socket_event \<Rightarrow> bool" where
  "event_in_range lim (Async_Read _ a) = in_range lim a"
| "event_in_range lim (Read_Completed _ _ a a') = in_range lim a'"
| "event_in_range lim _ = True"

lemma delivered_append [simp]: "delivered (xs @ ys) = delivered xs @ delivered ys"
  by (induction xs rule: delivered.induct) simp_all

lemma read_failures_append [simp]: "read_failures (xs @ ys) = read_failures xs @ read_failures ys"
  by (induction xs rule: read_failures.induct) simp_all

lemma prefix_message_cases:
  assumes "prefix p (concat (map pack_object ys))" and "list_all wf_mobj ys"
  obtains (complete) x zs rest where "ys = x # zs" "wf_mobj x" "p = pack_object x @ rest"
  | (incomplete) x more where "wf_mobj x" "pack_object x = p @ more" "more \<noteq> []"
      "ys \<noteq> [] \<longrightarrow> x = hd ys"
proof (cases ys)
  case Nil
  then show thesis
    using assms(1) incomplete [of NIL "pack_object NIL"] by (auto simp: prefix_def)
next
  case (Cons x zs)
  with assms have wf: "wf_mobj x" and "prefix p (pack_object x @ concat (map pack_object zs))" by simp_all
  then consider "prefix p (pack_object x)" | rest where "p = pack_object x @ rest"
    by (auto simp: prefix_append)
  then show thesis
  proof cases
    case 1
    then obtain more where m: "pack_object x = p @ more" by (auto elim: prefixE)
    show thesis
    proof (cases "more = []")
      case True
      with m wf Cons show thesis by (intro complete [of x zs "[]"]) simp_all
    next
      case False
      with m wf Cons show thesis by (intro incomplete [of x more]) simp_all
    qed
  next
    case 2
    with wf Cons show thesis by (intro complete [of x zs]) auto
  qed
qed

text \<open>Events after which all bytes that have arrived have been looked at.\<close>

fun looks :: "('r, 'w) socket_event \<Rightarrow> bool" where
  "looks (Async_Read _ _) = True"
| "looks (Read_Completed None _ (Inr n) _) = (n = 0)"
| "looks _ = False"

definition handlers_return :: "('p, 'c, 'r, 'w) helper_env \<Rightarrow> bool" where
  "handlers_return env \<longleftrightarrow>
     (\<forall>h err m. he_on_read env h err m = Inr ()) \<and> (\<forall>h err. he_on_write env h err = Inr ())"

definition compress_fails :: "('p, 'c, 'r, 'w) helper_env \<Rightarrow> failure \<Rightarrow> bool" where
  "compress_fails env e \<longleftrightarrow> (\<exists>c d. snd (cp_compress (he_compressor_ops env) c d) = Inl e)"

definition may_escape :: "('p, 'c, 'r, 'w) helper_env \<Rightarrow> ('r, 'w) socket_event \<Rightarrow> failure \<Rightarrow> bool" where
  "may_escape env ev e \<longleftrightarrow>
     (case ev of
        Async_Read _ a \<Rightarrow> e = Throw Bad_Alloc \<or> a = Inl e
      | Read_Completed _ _ a a' \<Rightarrow> e = Throw Bad_Alloc \<or> a = Inl e \<or> a' = Inl e
      | _ \<Rightarrow> compress_fails env e)"

definition writing_ok :: "('p, 'c, 'r, 'w) connection \<Rightarrow> bool" where
  "writing_ok cn \<longleftrightarrow> (cn_writing cn \<longrightarrow> sh_writing_queue (cn_helper cn) \<noteq> [])"

definition next_message_incomplete :: "mobj list \<Rightarrow> bytes \<Rightarrow> ('p, 'c, 'r, 'w) connection \<Rightarrow> bool" where
  "next_message_incomplete xs rcv cn \<longleftrightarrow>
     (let k = length (delivered (cn_read_log cn)) in
      k < length xs \<longrightarrow> length rcv < length (concat (map pack_object (take (Suc k) xs))))"

text \<open>What a function of the writing side may do.\<close>

definition write_outcome ::
    "('p, 'c, 'r, 'w) helper_env \<Rightarrow> ('p, 'c, 'w) stream_socket_helper \<Rightarrow>
     ('p, 'c, 'w) stream_socket_helper \<times> 'w write_action list \<times> unit result \<Rightarrow> bool" where
  "write_outcome env s = (\<lambda>(s', acts, r).
     sh_parser s' = sh_parser s \<and> (started_write acts \<longrightarrow> sh_writing_queue s' \<noteq> []) \<and>
     (\<forall>e. r = Inl e \<longrightarrow> compress_fails env e))"

lemma sh_do_write_outcome:
  assumes "sh_writing_queue s \<noteq> []"
  shows "write_outcome env s (sh_do_write env s)"
    and "sh_writing_queue (fst (sh_do_write env s)) = sh_writing_queue s"
proof -
  obtain data h rest where q: "sh_writing_queue s = (data, h) # rest" using assms by (metis list.exhaust surj_pair)
  have "compress_fails env e"
    if "cp_compress (he_compressor_ops env) (sh_compressor s) data = (c, Inl e)" for c e
    unfolding compress_fails_def by (rule exI [of _ "sh_compressor s"], rule exI [of _ data]) (simp add: that)
  then show "write_outcome env s (sh_do_write env s)"
    using q by (auto simp: sh_do_write_def write_outcome_def split: prod.splits sum.splits)
  show "sh_writing_queue (fst (sh_do_write env s)) = sh_writing_queue s"
    using q by (auto simp: sh_do_write_def split: prod.splits sum.splits)
qed

lemma sh_add_message_outcome:
  "write_outcome env s (sh_add_message_to_write env s d h)"
  "sh_writing_queue (fst (sh_add_message_to_write env s d h)) = sh_writing_queue s @ [(d, h)]"
  using sh_do_write_outcome [of "s\<lparr>sh_writing_queue := sh_writing_queue s @ [(d, h)]\<rparr>" env]
  by (auto simp: sh_add_message_to_write_def write_outcome_def Let_def)

lemma sh_on_write_outcome:
  assumes "sh_writing_queue s \<noteq> []" and "handlers_return env"
  shows "write_outcome env s (sh_on_write env s err)"
proof -
  obtain data h rest where q: "sh_writing_queue s = (data, h) # rest" using assms(1) by (metis list.exhaust surj_pair)
  show ?thesis
    using q sh_do_write_outcome [of "s\<lparr>sh_writing_queue := rest\<rparr>" env] assms(2)
    by (auto simp: sh_on_write_def write_outcome_def handlers_return_def Let_def split: prod.splits option.splits)
qed

text \<open>The write events leave the reading side alone.\<close>

fun is_write_event :: "('r, 'w) socket_event \<Rightarrow> bool" where
  "is_write_event (Async_Write _ _) = True"
| "is_write_event (Write_Completed _) = True"
| "is_write_event _ = False"

lemma write_event:
  assumes "connection_next env cn ev = Some cn'" and "writing_ok cn" and "is_write_event ev" and "handlers_return env"
  shows "sh_parser (cn_helper cn') = sh_parser (cn_helper cn) \<and> cn_reading cn' = cn_reading cn \<and>
    cn_read_log cn' = cn_read_log cn \<and> writing_ok cn' \<and>
    (\<forall>e. cn_escaped cn' = Some e \<longrightarrow> may_escape env ev e)"
proof (cases ev)
  case (Async_Write d h)
  then show ?thesis
    using assms(1) sh_add_message_outcome [of env "cn_helper cn" d h]
    by (auto simp: connection_next_def finish_write_def write_outcome_def writing_ok_def may_escape_def
        escaped_def split: if_splits prod.splits sum.splits)
next
  case (Write_Completed err)
  then show ?thesis
    using assms(1,2,4) sh_on_write_outcome [of "cn_helper cn" env err]
    by (auto simp: connection_next_def finish_write_def write_outcome_def writing_ok_def may_escape_def
        escaped_def split: if_splits prod.splits sum.splits)
qed (use assms(3) in simp_all)

context streaming_parser
begin

lemma sh_parse_next_framed:
  assumes env: "he_parser_ops env = ops" "handlers_return env" and s: "inv (sh_parser s)" and wf: "list_all wf_mobj ys"
    and pre: "prefix (pending (sh_parser s)) (concat (map pack_object ys))"
  obtains (complete) x zs p where "ys = x # zs"
      "sh_parse_next env s h 0 = (s\<lparr>sh_parser := p\<rparr>, [Call_On_Read h None (Some (pack_object x))], Inr True)"
      "inv p" "pending (sh_parser s) = pack_object x @ pending p"
  | (incomplete) p where "sh_parse_next env s h 0 = (s\<lparr>sh_parser := p\<rparr>, [], Inr False)"
      "inv p" "pending p = pending (sh_parser s)"
      "ys \<noteq> [] \<longrightarrow> length (pending p) < length (pack_object (hd ys))"
  using pre wf
proof (cases rule: prefix_message_cases)
  case (complete x zs rest)
  from parse_complete [OF s complete(2,3)] that(1) [OF complete(1)] complete(3) env show thesis
    by (auto simp: sh_parse_next_def handlers_return_def)
next
  case (incomplete x suffix)
  from parse_incomplete [OF s incomplete(1-3)] obtain p
    where "sp_parse_next ops (sh_parser s) 0 = (p, Inr False)" "inv p" "pending p = pending (sh_parser s)"
    by blast
  with that(2) [of p] env incomplete(2-4) show thesis
    by (auto simp: sh_parse_next_def)
qed

lemma sh_do_read_bytes_framed:
  assumes env: "he_parser_ops env = ops" and s: "inv (sh_parser s)"
    and lim: "length (pending (sh_parser s)) + max (unat (he_streaming_min_buf_size env)) lim < 2 ^ 64"
    "in_range lim available"
  obtains (reading) p sz where
      "sh_do_read_bytes env s available h = (s\<lparr>sh_parser := p\<rparr>, [Start_Read_Some h sz], Inr ())"
      "inv p" "pending p = pending (sh_parser s)" "room p = unat sz"
  | (escapes) e where "sh_do_read_bytes env s available h = (s, [], Inl e)"
      "e = Throw Bad_Alloc \<or> available = Inl e"
proof (cases available)
  case (Inl e)
  then show thesis by (intro escapes [of e]) (simp_all add: sh_do_read_bytes_def)
next
  case (Inr n)
  let ?sz = "max (he_streaming_min_buf_size env) n"
  have "unat ?sz \<le> max (unat (he_streaming_min_buf_size env)) lim"
    using lim(2) Inr by (auto simp: in_range_def max_def word_le_nat_alt)
  then have sz: "length (pending (sh_parser s)) + unat ?sz < 2 ^ 64" using lim(1) by linarith
  show thesis
  proof (cases "sp_prepare_buffer ops (sh_parser s) ?sz")
    case Inl': (Inl e)
    with prepare_fails [OF s Inl'] Inr env show thesis
      by (intro escapes [of e]) (simp_all add: sh_do_read_bytes_def Let_def)
  next
    case Inr': (Inr p)
    with prepare_ok [OF s sz Inr'] Inr env show thesis
      by (intro reading [of p ?sz]) (simp_all add: sh_do_read_bytes_def Let_def)
  qed
qed

lemma sh_do_read_message_framed:
  assumes env: "he_parser_ops env = ops" "handlers_return env" and s: "inv (sh_parser s)" and wf: "list_all wf_mobj ys"
    and pre: "prefix (pending (sh_parser s)) (concat (map pack_object ys))"
    and lim: "length (pending (sh_parser s)) + max (unat (he_streaming_min_buf_size env)) lim < 2 ^ 64"
    "in_range lim available"
  obtains (complete) x zs p where "ys = x # zs"
      "sh_do_read_message env s available h = (s\<lparr>sh_parser := p\<rparr>, [Call_On_Read h None (Some (pack_object x))], Inr ())"
      "inv p" "pending (sh_parser s) = pack_object x @ pending p"
  | (reading) p sz where
      "sh_do_read_message env s available h = (s\<lparr>sh_parser := p\<rparr>, [Start_Read_Some h sz], Inr ())"
      "inv p" "pending p = pending (sh_parser s)" "room p = unat sz"
      "ys \<noteq> [] \<longrightarrow> length (pending p) < length (pack_object (hd ys))"
  | (escapes) p e where "sh_do_read_message env s available h = (s\<lparr>sh_parser := p\<rparr>, [], Inl e)"
      "e = Throw Bad_Alloc \<or> available = Inl e"
  using env s wf pre
proof (cases rule: sh_parse_next_framed [where h = h])
  case (complete x zs p)
  with that(1) show thesis by (simp add: sh_do_read_message_def)
next
  case (incomplete p)
  let ?s = "s\<lparr>sh_parser := p\<rparr>"
  have "inv (sh_parser ?s)" "length (pending (sh_parser ?s)) + max (unat (he_streaming_min_buf_size env)) lim < 2 ^ 64"
    using incomplete lim by simp_all
  from env(1) this lim(2) show thesis
  proof (cases rule: sh_do_read_bytes_framed [where h = h])
    case (reading q sz)
    with incomplete show thesis by (intro that(2) [of q sz]) (simp_all add: sh_do_read_message_def)
  next
    case (escapes e)
    with incomplete show thesis by (intro that(3) [of p e]) (simp_all add: sh_do_read_message_def)
  qed
qed

lemma sh_on_read_bytes_ok:
  assumes "he_parser_ops env = ops"
  shows "sh_on_read_bytes env s None bs (Inr n) a h =
    (let s' = s\<lparr>sh_parser := sp_consumed ops (sp_receive ops (sh_parser s) bs) (of_nat (length bs))\<rparr>
     in if n = 0 then sh_do_read_message env s' a h else sh_do_read_bytes env s' a h)"
proof -
  have "sh_parse_next env s h (of_nat (length bs)) =
    sh_parse_next env (s\<lparr>sh_parser := sp_consumed ops (sh_parser s) (of_nat (length bs))\<rparr>) h 0" for s
    unfolding sh_parse_next_def assms parse_next_consumes [of "sh_parser s" "of_nat (length bs)"]
    by (simp split: prod.split sum.split failure.split exn.split bool.split)
  from this [of "s\<lparr>sh_parser := sp_receive ops (sh_parser s) bs\<rparr>"] show ?thesis
    by (auto simp: sh_on_read_bytes_def sh_do_read_message_def Let_def assms split: prod.split)
qed

definition framed :: "mobj list \<Rightarrow> bytes \<Rightarrow> ('p, 'c, 'r, 'w) connection \<Rightarrow> bool" where
  "framed xs rcv cn \<longleftrightarrow>
     (\<exists>ds ys. xs = ds @ ys \<and> delivered (cn_read_log cn) = map (\<lambda>x. Some (pack_object x)) ds \<and>
        rcv = concat (map pack_object ds) @ pending (sh_parser (cn_helper cn))) \<and>
     inv (sh_parser (cn_helper cn)) \<and>
     (\<forall>h n. cn_reading cn = Some (h, n) \<longrightarrow> room (sh_parser (cn_helper cn)) = unat n)"

lemma framedI:
  assumes "xs = ds @ ys" "delivered (cn_read_log cn) = map (\<lambda>x. Some (pack_object x)) ds"
    "rcv = concat (map pack_object ds) @ pending (sh_parser (cn_helper cn))"
    "inv (sh_parser (cn_helper cn))"
    "\<And>h n. cn_reading cn = Some (h, n) \<Longrightarrow> room (sh_parser (cn_helper cn)) = unat n"
  shows "framed xs rcv cn"
  using assms unfolding framed_def by blast

lemma framed_pending:
  assumes "xs = ds @ ys" and "rcv = concat (map pack_object ds) @ p"
    and "prefix rcv (concat (map pack_object xs))"
    and "length (concat (map pack_object xs)) + n < 2 ^ 64"
  shows "prefix p (concat (map pack_object ys))" and "length p + n < 2 ^ 64"
proof -
  show "prefix p (concat (map pack_object ys))" using assms(1-3) by simp
  have "length p \<le> length (concat (map pack_object xs))" using prefix_length_le [OF assms(3)] assms(2) by simp
  then show "length p + n < 2 ^ 64" using assms(4) by linarith
qed

text \<open>The outcome of a step of the reading side.\<close>

definition read_outcome ::
    "mobj list \<Rightarrow> bytes \<Rightarrow> ('p, 'c, 'r, 'w) connection \<Rightarrow> size_t result \<Rightarrow> bool \<Rightarrow>
     ('p, 'c, 'r, 'w) connection \<Rightarrow> bool" where
  "read_outcome xs rcv cn available looked cn' \<longleftrightarrow>
     cn_writing cn' = cn_writing cn \<and>
     sh_writing_queue (cn_helper cn') = sh_writing_queue (cn_helper cn) \<and>
     (case cn_escaped cn' of
        Some e \<Rightarrow> e = Throw Bad_Alloc \<or> available = Inl e
      | None \<Rightarrow>
          framed xs rcv cn' \<and> read_failures (cn_read_log cn') = read_failures (cn_read_log cn) \<and>
          (looked \<and> cn_reading cn' \<noteq> None \<longrightarrow> next_message_incomplete xs rcv cn'))"

lemma read_message_outcome:
  fixes cn :: "('p, 'c, 'r, 'w) connection" and h :: 'r
  assumes env: "he_parser_ops env = ops" "handlers_return env" and wf: "list_all wf_mobj xs" and s: "inv (sh_parser s)"
    and ds: "xs = ds @ ys" "delivered (cn_read_log cn) = map (\<lambda>x. Some (pack_object x)) ds"
      "rcv = concat (map pack_object ds) @ pending (sh_parser s)"
    and pre: "prefix rcv (concat (map pack_object xs))"
    and lim: "length (concat (map pack_object xs)) + max (unat (he_streaming_min_buf_size env)) lim < 2 ^ 64"
      "in_range lim available"
    and q: "sh_writing_queue s = sh_writing_queue (cn_helper cn)"
  defines "cn' \<equiv> finish_read cn (sh_do_read_message env s available h)"
  shows "read_outcome xs rcv cn available True cn'"
proof -
  have wf': "list_all wf_mobj ys" using wf ds(1) by simp
  show ?thesis
    using env s wf' framed_pending [OF ds(1,3) pre lim(1)] lim(2)
  proof (cases rule: sh_do_read_message_framed [where h = h])
    case (complete x zs p)
    have "framed xs rcv cn'"
      by (rule framedI [of _ "ds @ [x]" zs]) (use complete ds in \<open>simp_all add: cn'_def finish_read_def\<close>)
    with complete q show ?thesis by (simp add: cn'_def finish_read_def read_outcome_def escaped_def)
  next
    case (reading p sz)
    have "framed xs rcv cn'"
      by (rule framedI [of _ ds ys]) (use reading ds in \<open>simp_all add: cn'_def finish_read_def\<close>)
    moreover have "next_message_incomplete xs rcv cn'"
      using reading ds
      by (cases ys) (auto simp: next_message_incomplete_def cn'_def finish_read_def Let_def)
    ultimately show ?thesis
      using reading q by (simp add: cn'_def finish_read_def read_outcome_def escaped_def)
  next
    case (escapes p f)
    with q show ?thesis by (simp add: cn'_def finish_read_def escaped_def read_outcome_def)
  qed
qed

lemma read_bytes_outcome:
  fixes cn :: "('p, 'c, 'r, 'w) connection" and h :: 'r
  assumes env: "he_parser_ops env = ops" and s: "inv (sh_parser s)"
    and ds: "xs = ds @ ys" "delivered (cn_read_log cn) = map (\<lambda>x. Some (pack_object x)) ds"
      "rcv = concat (map pack_object ds) @ pending (sh_parser s)"
    and pre: "prefix rcv (concat (map pack_object xs))"
    and lim: "length (concat (map pack_object xs)) + max (unat (he_streaming_min_buf_size env)) lim < 2 ^ 64"
      "in_range lim available"
    and q: "sh_writing_queue s = sh_writing_queue (cn_helper cn)"
  defines "cn' \<equiv> finish_read cn (sh_do_read_bytes env s available h)"
  shows "read_outcome xs rcv cn available False cn'"
  using env s framed_pending(2) [OF ds(1,3) pre lim(1)] lim(2)
proof (cases rule: sh_do_read_bytes_framed [where h = h])
  case (reading p sz)
  have "framed xs rcv cn'"
    by (rule framedI [of _ ds ys]) (use reading ds in \<open>simp_all add: cn'_def finish_read_def\<close>)
  with reading q show ?thesis by (simp add: cn'_def finish_read_def read_outcome_def escaped_def)
next
  case (escapes f)
  with q show ?thesis by (simp add: cn'_def finish_read_def escaped_def read_outcome_def)
qed

definition step_ok ::
    "('p, 'c, 'r, 'w) helper_env \<Rightarrow> mobj list \<Rightarrow> bytes \<Rightarrow> ('p, 'c, 'r, 'w) connection \<Rightarrow>
     ('r, 'w) socket_event \<Rightarrow> ('p, 'c, 'r, 'w) connection \<Rightarrow> bool" where
  "step_ok env xs rcv cn ev cn' \<longleftrightarrow>
     writing_ok cn' \<and>
     (case cn_escaped cn' of
        Some e \<Rightarrow> may_escape env ev e
      | None \<Rightarrow>
          framed xs (rcv @ event_bytes ev) cn' \<and>
          read_failures (cn_read_log cn') = read_failures (cn_read_log cn) @ event_failures ev \<and>
          (looks ev \<and> cn_reading cn' \<noteq> None \<longrightarrow>
             next_message_incomplete xs (rcv @ event_bytes ev) cn'))"

lemma read_completed_ok:
  fixes cn :: "('p, 'c, 'r, 'w) connection"
  assumes env: "he_parser_ops env = ops" "handlers_return env" and wf: "list_all wf_mobj xs"
    and fr: "framed xs rcv cn" "writing_ok cn"
    and "next": "connection_next env cn (Read_Completed None bs a a') = Some cn'"
    and pre: "prefix (rcv @ bs) (concat (map pack_object xs))"
    and lim: "length (concat (map pack_object xs)) + max (unat (he_streaming_min_buf_size env)) lim < 2 ^ 64"
      "in_range lim a'"
  shows "step_ok env xs rcv cn (Read_Completed None bs a a') cn'"
proof -
  let ?s = "cn_helper cn" and ?n = "of_nat (length bs)"
  let ?p = "sp_consumed ops (sp_receive ops (sh_parser ?s) bs) ?n"
  obtain h r where r: "cn_reading cn = Some (h, r)" "length bs \<le> unat r"
    and cn': "cn' = finish_read cn (sh_on_read_bytes env ?s None bs a a' h)"
    using "next" by (auto simp: connection_next_def split: if_splits option.splits)
  have "length bs \<le> room (sh_parser ?s)" "inv (sh_parser ?s)" using fr(1) r by (auto simp: framed_def)
  then have p: "inv ?p" "pending ?p = pending (sh_parser ?s) @ bs" using receive_ok by blast+
  obtain ds ys where ds: "xs = ds @ ys" "delivered (cn_read_log cn) = map (\<lambda>x. Some (pack_object x)) ds"
    "rcv @ bs = concat (map pack_object ds) @ pending ?p"
    using fr(1) p by (auto simp: framed_def)
  let ?t = "?s\<lparr>sh_parser := ?p\<rparr>"
  show ?thesis
  proof (cases a)
    case (Inl e)
    then show ?thesis
      using cn' fr(2) by (simp add: sh_on_read_bytes_def finish_read_def step_ok_def writing_ok_def may_escape_def escaped_def)
  next
    case (Inr n)
    have "read_outcome xs (rcv @ bs) cn a' (n = 0) cn'"
      using cn' read_message_outcome [OF env wf, where s = ?t and cn = cn, OF _ ds(1,2) _ pre lim]
        read_bytes_outcome [OF env(1), where s = ?t and cn = cn, OF _ ds(1,2) _ pre lim] p ds(3) Inr
      by (cases "n = 0") (simp_all add: sh_on_read_bytes_ok [OF env(1)])
    with fr(2) Inr show ?thesis
      by (auto simp: read_outcome_def step_ok_def writing_ok_def may_escape_def split: option.splits)
  qed
qed

lemma read_failed_ok:
  assumes "handlers_return env" and fr: "framed xs rcv cn" "writing_ok cn"
    and "next": "connection_next env cn (Read_Completed (Some err) bs a a') = Some cn'"
  shows "step_ok env xs rcv cn (Read_Completed (Some err) bs a a') cn'"
proof -
  obtain h r where "cn_reading cn = Some (h, r)" "bs = []"
    and cn': "cn' = finish_read cn (sh_on_read_bytes env (cn_helper cn) (Some err) bs a a' h)"
    using "next" by (auto simp: connection_next_def split: if_splits option.splits)
  then show ?thesis
    using assms(1) fr
    by (cases err) (auto simp: sh_on_read_bytes_def finish_read_def step_ok_def framed_def writing_ok_def
        escaped_def make_error_def handlers_return_def)
qed

lemma connection_next_ok:
  fixes cn :: "('p, 'c, 'r, 'w) connection"
  assumes env: "he_parser_ops env = ops" "handlers_return env" and wf: "list_all wf_mobj xs"
    and fr: "framed xs rcv cn" "writing_ok cn" and "next": "connection_next env cn ev = Some cn'"
    and pre: "prefix (rcv @ event_bytes ev) (concat (map pack_object xs))"
    and lim: "length (concat (map pack_object xs)) + max (unat (he_streaming_min_buf_size env)) lim < 2 ^ 64"
      "event_in_range lim ev"
  shows "step_ok env xs rcv cn ev cn'"
proof (cases "is_write_event ev")
  case True
  from write_event [OF "next" fr(2) True env(2)] fr(1) True show ?thesis
    by (cases ev) (auto simp: step_ok_def framed_def split: option.splits)
next
  case False
  show ?thesis
  proof (cases ev)
    case (Async_Read h a)
    then have cn': "cn' = finish_read cn (sh_do_read_message env (cn_helper cn) a h)"
      using "next" by (auto simp: connection_next_def split: if_splits)
    obtain ds ys where ds: "xs = ds @ ys" "delivered (cn_read_log cn) = map (\<lambda>x. Some (pack_object x)) ds"
      "rcv = concat (map pack_object ds) @ pending (sh_parser (cn_helper cn))" "inv (sh_parser (cn_helper cn))"
      using fr(1) by (auto simp: framed_def)
    have "read_outcome xs rcv cn a True cn'"
      unfolding cn' by (rule read_message_outcome [OF env wf ds(4,1,2,3) _ lim(1)])
        (use pre lim(2) Async_Read in simp_all)
    with fr(2) Async_Read show ?thesis
      by (auto simp: read_outcome_def step_ok_def writing_ok_def may_escape_def split: option.splits)
  next
    case (Read_Completed err bs a a')
    then show ?thesis
      using read_completed_ok [OF env wf fr, of bs a a' cn' lim] read_failed_ok [OF env(2) fr] "next" pre lim
      by (cases err) auto
  qed (use False in simp_all)
qed

lemma connection_run_ok:
  fixes cn\<^sub>0 :: "('p, 'c, 'r, 'w) connection"
  assumes run: "connection_run env cn\<^sub>0 evs cn"
    and env: "he_parser_ops env = ops" "handlers_return env" and wf: "list_all wf_mobj xs"
    and init: "cn_escaped cn\<^sub>0 = None" "framed xs [] cn\<^sub>0" "writing_ok cn\<^sub>0" "cn_read_log cn\<^sub>0 = []"
    and lim: "length (concat (map pack_object xs)) + max (unat (he_streaming_min_buf_size env)) lim < 2 ^ 64"
    and "prefix (concat (map event_bytes evs)) (concat (map pack_object xs))"
    and "list_all (event_in_range lim) evs"
  shows "writing_ok cn \<and>
    (case cn_escaped cn of
       Some e \<Rightarrow> may_escape env (last evs) e
     | None \<Rightarrow>
         framed xs (concat (map event_bytes evs)) cn \<and>
         read_failures (cn_read_log cn) = concat (map event_failures evs) \<and>
         (evs \<noteq> [] \<and> looks (last evs) \<and> cn_reading cn \<noteq> None \<longrightarrow>
            next_message_incomplete xs (concat (map event_bytes evs)) cn))"
  using run assms(10-)
proof induction
  case trace_start
  then show ?case using init by simp
next
  case (trace_event evs cn' ev cn'')
  have none: "cn_escaped cn' = None" using trace_event.hyps(2) by (auto simp: connection_next_def split: if_splits)
  have "prefix (concat (map event_bytes evs)) (concat (map pack_object xs))"
    using trace_event.prems(1) by (auto dest: append_prefixD)
  with trace_event.IH trace_event.prems(2) none
  have IH: "writing_ok cn'" "framed xs (concat (map event_bytes evs)) cn'"
    "read_failures (cn_read_log cn') = concat (map event_failures evs)" by simp_all
  have "step_ok env xs (concat (map event_bytes evs)) cn' ev cn''"
    using connection_next_ok [OF env wf IH(2,1) trace_event.hyps(2) _ lim] trace_event.prems by simp
  with IH(3) show ?case by (auto simp: step_ok_def split: option.splits)
qed

end


lemma msgpack_run_ok:
  fixes cn :: "(msgpack_streaming_parser, 'c, 'r, 'w) connection"
  assumes "malloc_ok malloc" and "he_parser_ops env = msgpack_streaming_ops malloc" and "handlers_return env"
    and "mp_create malloc = Inr p" and "list_all wf_mobj xs"
    and "connection_run env (connection_start env c p) evs cn"
    and "prefix (concat (map event_bytes evs)) (concat (map pack_object xs))"
    and "list_all (event_in_range lim) evs"
    and "length (concat (map pack_object xs)) + max (unat (he_streaming_min_buf_size env)) lim < 2 ^ 64"
  shows "case cn_escaped cn of
      Some e \<Rightarrow> may_escape env (last evs) e
    | None \<Rightarrow>
        mp.framed malloc xs (concat (map event_bytes evs)) cn \<and>
        read_failures (cn_read_log cn) = concat (map event_failures evs) \<and>
        (evs \<noteq> [] \<and> looks (last evs) \<and> cn_reading cn \<noteq> None \<longrightarrow>
           next_message_incomplete xs (concat (map event_bytes evs)) cn)"
proof -
  let ?cn = "connection_start env c p :: (msgpack_streaming_parser, 'c, 'r, 'w) connection"
  have start: "cn_escaped ?cn = None" "writing_ok ?cn" "cn_read_log ?cn = []"
    "sh_parser (cn_helper ?cn) = p" "cn_reading ?cn = None"
    by (simp_all add: connection_start_def writing_ok_def sh_create_def)
  have p: "mp_inv p" "mp_pending p = []" using mp_create_ok [OF assms(1,4)] by simp_all
  have fr: "mp.framed malloc xs [] ?cn"
    by (rule mp.framedI [of _ "[]" xs]) (simp_all add: start p assms(1))
  from mp.connection_run_ok [OF assms(6,2,3,5) start(1) fr start(2,3) assms(9,7,8)] show ?thesis by blast
qed

lemma framed_delivered:
  assumes "mp.framed malloc xs bs cn"
  shows "\<exists>k \<le> length xs. delivered (cn_read_log cn) = map (\<lambda>x. Some (pack_object x)) (take k xs) \<and>
    bs = concat (map pack_object (take k xs)) @ mp_pending (sh_parser (cn_helper cn))"
  using assms unfolding mp.framed_def by (auto intro!: exI [of _ "length (delivered (cn_read_log cn))"])

text \<open>
  C17. Messages are framed correctly whatever the pieces in which the operating system hands over the
  stream: when the bytes received so far are the beginning of the concatenation of packed objects, the
  messages given to the read handlers are exactly the first of these objects, in order, each once, and the
  bytes after them are kept in the parser. Handlers see an error only for a failed read. When the data
  that has arrived has been looked at and a read is still outstanding, the next message has not
  arrived completely. If the handlers return, an exception leaves the helper only for lack of memory, a failing
  \<open>available()\<close> or a failing compressor.
\<close>

theorem messages_framed:
  fixes cn :: "(msgpack_streaming_parser, 'c, 'r, 'w) connection"
  assumes "malloc_ok malloc" and "he_parser_ops env = msgpack_streaming_ops malloc" and "handlers_return env"
    and "mp_create malloc = Inr p" and "list_all wf_mobj xs"
    and "connection_run env (connection_start env c p) evs cn"
    and "prefix (concat (map event_bytes evs)) (concat (map pack_object xs))"
    and "list_all (event_in_range lim) evs"
    and "length (concat (map pack_object xs)) + max (unat (he_streaming_min_buf_size env)) lim < 2 ^ 64"
  shows "case cn_escaped cn of
      Some e \<Rightarrow> may_escape env (last evs) e
    | None \<Rightarrow>
        (\<exists>k \<le> length xs.
           delivered (cn_read_log cn) = map (\<lambda>x. Some (pack_object x)) (take k xs) \<and>
           concat (map event_bytes evs) =
             concat (map pack_object (take k xs)) @ mp_pending (sh_parser (cn_helper cn))) \<and>
        read_failures (cn_read_log cn) = concat (map event_failures evs) \<and>
        (evs \<noteq> [] \<and> looks (last evs) \<and> cn_reading cn \<noteq> None \<longrightarrow>
           next_message_incomplete xs (concat (map event_bytes evs)) cn)"
  using msgpack_run_ok [OF assms] framed_delivered by (fastforce split: option.splits)


definition example_env :: "(msgpack_streaming_parser, unit, nat, nat) helper_env" where
  "example_env =
     \<lparr>he_parser_ops = msgpack_streaming_ops example_malloc, he_compressor_ops = null_streaming_ops,
      he_streaming_min_buf_size = 16, he_on_read = (\<lambda>h err m. Inr ()), he_on_write = (\<lambda>h err. Inr ())\<rparr>"

definition example_empty_parser :: msgpack_streaming_parser where
  "example_empty_parser =
     \<lparr>mp_buffer = example_buffer [], mp_consumed_buf_size = 0, mp_parsed_buf_size = 0\<rparr>"

lemma example_mp_create: "mp_create example_malloc = Inr example_empty_parser"
  by (simp add: mp_create_def buffer_empty_def buffer_size_def calculate_next_capacity_def max_size_def
      while_option_unfold [of _ _ 1024] allocate_def example_malloc_def example_empty_parser_def example_buffer_def)

lemma example_run:
  obtains cn :: "(msgpack_streaming_parser, unit, nat, nat) connection"
  where "connection_run example_env (connection_start example_env () example_empty_parser)
      [Async_Read 1 (Inr 0), Read_Completed None [0xc0] (Inr 0) (Inr 0)] cn" "cn_escaped cn = None"
proof -
  let ?c0 = "connection_start example_env () example_empty_parser :: (msgpack_streaming_parser, unit, nat, nat) connection"
  have parse: "msgpack_parse streaming_visitor [0xc0] 0 () = Inr (True, 1, ())"
    using streaming_parse_object [of NIL "[]" "()"] by (simp add: pack_object_def pack_nil_def)
  obtain c1 where c1: "connection_next example_env ?c0 (Async_Read 1 (Inr 0)) = Some c1"
    "cn_escaped c1 = None" "cn_reading c1 = Some (1, 16)"
    "sh_parser (cn_helper c1) = \<lparr>mp_buffer = \<lparr>buf_data = replicate 1024 0, buf_size = 16, buf_capacity = 1024\<rparr>,
       mp_consumed_buf_size = 0, mp_parsed_buf_size = 0\<rparr>"
    by (simp add: connection_next_def connection_start_def sh_create_def example_env_def sh_do_read_message_def
        sh_parse_next_def msgpack_streaming_ops_def mp_parse_next_def mp_pending_def msgpack_parse_def parse_imp_def
        example_empty_parser_def example_buffer_def streaming_visitor_def null_visitor_def finish_read_def
        sh_do_read_bytes_def mp_prepare_buffer_def buffer_resize_def escaped_def)
  obtain c2 where c2: "connection_next example_env c1 (Read_Completed None [0xc0] (Inr 0) (Inr 0)) = Some c2"
    "cn_escaped c2 = None"
    using c1(2-) by (simp add: connection_next_def sh_on_read_bytes_def sh_parse_next_def example_env_def msgpack_streaming_ops_def
        mp_receive_def buffer_write_def mp_parse_next_def mp_consumed_def mp_pending_def parse mp_get_def finish_read_def
        escaped_def)
  have "connection_run example_env ?c0 [Async_Read 1 (Inr 0), Read_Completed None [0xc0] (Inr 0) (Inr 0)] c2"
    by (rule run_events_trace) (simp only: run_events.simps Option.bind.bind_lunit c1(1) c2(1))
  then show thesis using c2(2) by (rule that)
qed

theorem messages_framed_witness:
  "\<exists>cn :: (msgpack_streaming_parser, unit, nat, nat) connection.
     connection_run example_env (connection_start example_env () example_empty_parser)
       [Async_Read 1 (Inr 0), Read_Completed None [0xc0] (Inr 0) (Inr 0)] cn \<and>
     (case cn_escaped cn of
        Some e \<Rightarrow> may_escape example_env (Read_Completed None [0xc0] (Inr 0) (Inr 0) :: (nat, nat) socket_event) e
      | None \<Rightarrow> read_failures (cn_read_log cn) = [])"
proof -
  obtain cn :: "(msgpack_streaming_parser, unit, nat, nat) connection"
    where run: "connection_run example_env (connection_start example_env () example_empty_parser)
       [Async_Read 1 (Inr 0), Read_Completed None [0xc0] (Inr 0) (Inr 0)] cn"
    by (rule example_run)
  from messages_framed [OF example_malloc_ok _ _ example_mp_create _ run, where xs = "[NIL]" and lim = 0] run
  show ?thesis
    by (auto simp: example_env_def handlers_return_def pack_object_def pack_nil_def in_range_def split: option.splits)
qed

section \<open>Writing\<close>

fun posted :: "('r, 'w) socket_event list \<Rightarrow> (message_data \<times> 'w) list" where
  "posted [] = []"
| "posted (Async_Write d h # evs) = (d, h) # posted evs"
| "posted (_ # evs) = posted evs"

fun write_calls :: "'w write_action list \<Rightarrow> ('w \<times> error_info) list" where
  "write_calls [] = []"
| "write_calls (Call_On_Write h e # acts) = (h, e) # write_calls acts"
| "write_calls (_ # acts) = write_calls acts"

fun sent :: "'w write_action list \<Rightarrow> bytes list" where
  "sent [] = []"
| "sent (Start_Write d # acts) = d # sent acts"
| "sent (_ # acts) = sent acts"

fun compress_all :: "'c compressor_ops \<Rightarrow> 'c \<Rightarrow> message_data list \<Rightarrow> bytes list \<times> 'c" where
  "compress_all ops c [] = ([], c)"
| "compress_all ops c (d # ds) =
     (case cp_compress ops c d of
        (c', Inr out) \<Rightarrow> (case compress_all ops c' ds of (outs, c'') \<Rightarrow> (message_bytes out # outs, c''))
      | (c', Inl _) \<Rightarrow> ([], c'))"

lemma posted_append [simp]: "posted (xs @ ys) = posted xs @ posted ys"
  by (induction xs rule: posted.induct) simp_all

lemma write_calls_append [simp]: "write_calls (xs @ ys) = write_calls xs @ write_calls ys"
  by (induction xs rule: write_calls.induct) simp_all

lemma sent_append [simp]: "sent (xs @ ys) = sent xs @ sent ys"
  by (induction xs rule: sent.induct) simp_all

fun write_succeeds :: "('r, 'w) socket_event \<Rightarrow> bool" where
  "write_succeeds (Write_Completed err) = (err = None)"
| "write_succeeds _ = True"

text \<open>
  The queue holds the messages that have not been reported, the first of them is being written, and the
  compressor has seen the messages up to it.
\<close>

definition queued :: "'c compressor_ops \<Rightarrow> 'c \<Rightarrow> (message_data \<times> 'w) list \<Rightarrow>
    ('p, 'c, 'r, 'w) connection \<Rightarrow> bool" where
  "queued ops c ps cn \<longleftrightarrow>
     (\<exists>ds. ps = ds @ sh_writing_queue (cn_helper cn) \<and>
        write_calls (cn_write_log cn) = map (\<lambda>(d, h). (h, None)) ds \<and>
        cn_writing cn = (sh_writing_queue (cn_helper cn) \<noteq> []) \<and>
        compress_all ops c (map fst (ds @ take 1 (sh_writing_queue (cn_helper cn)))) =
          (sent (cn_write_log cn), sh_compressor (cn_helper cn)) \<and>
        length (sent (cn_write_log cn)) = length (ds @ take 1 (sh_writing_queue (cn_helper cn))))"

lemma compress_all_snoc:
  assumes "compress_all ops c ds = (outs, c')" and "length outs = length ds"
    and "cp_compress ops c' d = (c'', Inr out)"
  shows "compress_all ops c (ds @ [d]) = (outs @ [message_bytes out], c'')"
  using assms
proof (induction ds arbitrary: c outs)
  case (Cons e ds)
  then show ?case by (auto split: prod.splits sum.splits)
qed simp

lemma sh_do_write_ok:
  assumes "sh_writing_queue s = (d, h) # rest" and "sh_do_write env s = (s', acts, Inr u)"
  obtains c out where "cp_compress (he_compressor_ops env) (sh_compressor s) d = (c, Inr out)"
    "s' = s\<lparr>sh_compressor := c\<rparr>" "acts = [Start_Write (message_bytes out)]"
  using assms by (auto simp: sh_do_write_def split: prod.splits sum.splits)

lemma queuedI:
  assumes "ps = ds @ sh_writing_queue (cn_helper cn)"
    "write_calls (cn_write_log cn) = map (\<lambda>(d, h). (h, None)) ds"
    "cn_writing cn = (sh_writing_queue (cn_helper cn) \<noteq> [])"
    "compress_all ops c (map fst (ds @ take 1 (sh_writing_queue (cn_helper cn)))) =
       (sent (cn_write_log cn), sh_compressor (cn_helper cn))"
    "length (sent (cn_write_log cn)) = length (ds @ take 1 (sh_writing_queue (cn_helper cn)))"
  shows "queued ops c ps cn"
  using assms unfolding queued_def by blast

lemma escaped_None: "escaped r = None \<longleftrightarrow> (\<exists>u. r = Inr u)"
  by (auto simp: escaped_def split: sum.splits)

lemma async_write_queued:
  assumes "queued (he_compressor_ops env) c ps cn" and "cn' = finish_write cn (sh_add_message_to_write env (cn_helper cn) d h)"
    and "cn_escaped cn' = None"
  shows "queued (he_compressor_ops env) c (ps @ [(d, h)]) cn'"
proof -
  let ?s = "cn_helper cn" and ?ops = "he_compressor_ops env"
  obtain ds where ds: "ps = ds @ sh_writing_queue ?s" "write_calls (cn_write_log cn) = map (\<lambda>(d, h). (h, None)) ds"
    "cn_writing cn = (sh_writing_queue ?s \<noteq> [])"
    "compress_all ?ops c (map fst (ds @ take 1 (sh_writing_queue ?s))) = (sent (cn_write_log cn), sh_compressor ?s)"
    "length (sent (cn_write_log cn)) = length (ds @ take 1 (sh_writing_queue ?s))"
    using assms(1) unfolding queued_def by blast
  show ?thesis
  proof (cases "sh_writing_queue ?s = []")
    case True
    let ?t = "?s\<lparr>sh_writing_queue := [(d, h)]\<rparr>"
    obtain s' acts r where r: "sh_do_write env ?t = (s', acts, r)" by (metis prod_cases3)
    then have cn': "cn' = finish_write cn (s', acts, r)" using assms(2) True by (simp add: sh_add_message_to_write_def)
    then obtain u where "r = Inr u" using assms(3) by (auto simp: finish_write_def escaped_None)
    with r have r: "sh_do_write env ?t = (s', acts, Inr u)" by simp
    obtain c' out where o: "cp_compress ?ops (sh_compressor ?t) d = (c', Inr out)" "s' = ?t\<lparr>sh_compressor := c'\<rparr>"
      "acts = [Start_Write (message_bytes out)]"
      by (rule sh_do_write_ok [of ?t d h "[]", OF _ r]) (simp, rule that)
    show ?thesis
      by (rule queuedI [of _ ds]) (use ds True cn' o compress_all_snoc [of ?ops c "map fst ds"] in
          \<open>simp_all add: finish_write_def\<close>)
  next
    case False
    then have cn': "cn' = finish_write cn (?s\<lparr>sh_writing_queue := sh_writing_queue ?s @ [(d, h)]\<rparr>, [], Inr ())"
      using assms(2) by (simp add: sh_add_message_to_write_def)
    have "take 1 (sh_writing_queue ?s @ [(d, h)]) = take 1 (sh_writing_queue ?s)" using False
      by (cases "sh_writing_queue ?s") simp_all
    then show ?thesis
      by (intro queuedI [of _ ds]) (use ds False cn' in \<open>simp_all add: finish_write_def del: take_append\<close>)
  qed
qed

lemma write_completed_queued:
  assumes "queued (he_compressor_ops env) c ps cn" and w: "cn_writing cn"
    and cn': "cn' = finish_write (cn\<lparr>cn_writing := False\<rparr>) (sh_on_write env (cn_helper cn) None)"
    and e: "cn_escaped cn' = None"
  shows "queued (he_compressor_ops env) c ps cn'"
proof -
  let ?s = "cn_helper cn" and ?ops = "he_compressor_ops env"
  obtain ds where ds: "ps = ds @ sh_writing_queue ?s" "write_calls (cn_write_log cn) = map (\<lambda>(d, h). (h, None)) ds"
    "cn_writing cn = (sh_writing_queue ?s \<noteq> [])"
    "compress_all ?ops c (map fst (ds @ take 1 (sh_writing_queue ?s))) = (sent (cn_write_log cn), sh_compressor ?s)"
    "length (sent (cn_write_log cn)) = length (ds @ take 1 (sh_writing_queue ?s))"
    using assms(1) unfolding queued_def by blast
  obtain d h rest where q: "sh_writing_queue ?s = (d, h) # rest" using ds(3) w by (metis list.exhaust surj_pair)
  have h: "he_on_write env h None = Inr ()"
    using cn' e q by (auto simp: finish_write_def sh_on_write_def escaped_def split: sum.splits)
  show ?thesis
  proof (cases rest)
    case Nil
    show ?thesis
      by (rule queuedI [of _ "ds @ [(d, h)]"])
        (use ds q h Nil cn' in \<open>simp_all add: finish_write_def sh_on_write_def\<close>)
  next
    case (Cons a rest')
    obtain d2 h2 where a: "a = (d2, h2)" by fastforce
    let ?t = "?s\<lparr>sh_writing_queue := rest\<rparr>"
    obtain s' acts r where r: "sh_do_write env ?t = (s', acts, r)" by (metis prod_cases3)
    then have cn': "cn' = finish_write (cn\<lparr>cn_writing := False\<rparr>) (s', Call_On_Write h None # acts, r)"
      using cn' q h Cons by (simp add: sh_on_write_def)
    then obtain u where "r = Inr u" using e by (auto simp: finish_write_def escaped_None)
    with r have r: "sh_do_write env ?t = (s', acts, Inr u)" by simp
    obtain c' out where o: "cp_compress ?ops (sh_compressor ?t) d2 = (c', Inr out)" "s' = ?t\<lparr>sh_compressor := c'\<rparr>"
      "acts = [Start_Write (message_bytes out)]"
      by (rule sh_do_write_ok [of ?t d2 h2 rest', OF _ r]) (simp add: Cons a, rule that)
    show ?thesis
      by (rule queuedI [of _ "ds @ [(d, h)]"])
        (use ds q Cons a cn' o compress_all_snoc [of ?ops c "map fst (ds @ [(d, h)])"] in
          \<open>simp_all add: finish_write_def\<close>)
  qed
qed

lemma sh_parse_next_frame: "\<exists>p acts r. sh_parse_next env s h n = (s\<lparr>sh_parser := p\<rparr>, acts, r)"
  by (auto simp: sh_parse_next_def Let_def split: prod.split sum.split failure.split exn.split bool.split)

lemma sh_do_read_bytes_frame: "\<exists>p acts r. sh_do_read_bytes env s a h = (s\<lparr>sh_parser := p\<rparr>, acts, r)"
  by (auto simp: sh_do_read_bytes_def Let_def split: sum.split intro: exI [of _ "sh_parser s"])

lemma parse_then_read_frame:
  "\<exists>p acts r. (case sh_parse_next env s h n of
        (s, acts, Inl e) \<Rightarrow> (s, acts, Inl e)
      | (s, acts, Inr True) \<Rightarrow> (s, acts, Inr ())
      | (s, acts, Inr False) \<Rightarrow>
          (case sh_do_read_bytes env s a h of (s, acts', r) \<Rightarrow> (s, acts @ acts', r))) =
      (s\<lparr>sh_parser := p\<rparr>, acts, r)"
proof -
  obtain p acts r where "sh_parse_next env s h n = (s\<lparr>sh_parser := p\<rparr>, acts, r)"
    using sh_parse_next_frame [of env s h n] by blast
  moreover obtain p' acts' r' where
    "sh_do_read_bytes env (s\<lparr>sh_parser := p\<rparr>) a h = (s\<lparr>sh_parser := p, sh_parser := p'\<rparr>, acts', r')"
    using sh_do_read_bytes_frame [of env "s\<lparr>sh_parser := p\<rparr>" a h] by blast
  ultimately show ?thesis by (auto split: sum.split bool.split)
qed

lemma read_keeps_writing:
  "\<exists>p acts r. sh_do_read_message env s a h = (s\<lparr>sh_parser := p\<rparr>, acts, r)"
  "\<exists>p acts r. sh_on_read_bytes env s err bs a a' h = (s\<lparr>sh_parser := p\<rparr>, acts, r)"
proof -
  show "\<exists>p acts r. sh_do_read_message env s a h = (s\<lparr>sh_parser := p\<rparr>, acts, r)"
    unfolding sh_do_read_message_def by (rule parse_then_read_frame)
  let ?p = "sp_receive (he_parser_ops env) (sh_parser s) bs"
  have ok: "\<exists>p acts r. sh_on_read_bytes env s None bs (Inr n) a' h = (s\<lparr>sh_parser := p\<rparr>, acts, r)" for n
    using parse_then_read_frame [where s = "s\<lparr>sh_parser := ?p\<rparr>" and env = env and h = h and a = a'
        and n = "of_nat (length bs)"]
      sh_do_read_bytes_frame [of env "s\<lparr>sh_parser := sp_consumed (he_parser_ops env) ?p (of_nat (length bs))\<rparr>" a' h]
    by (auto simp: sh_on_read_bytes_def Let_def)
  show "\<exists>p acts r. sh_on_read_bytes env s err bs a a' h = (s\<lparr>sh_parser := p\<rparr>, acts, r)"
  proof (cases "\<exists>n. err = None \<and> a = Inr n")
    case False
    then show ?thesis
      by (cases a) (auto simp: sh_on_read_bytes_def split: option.split asio_error.split intro: exI [of _ "sh_parser s"])
  qed (use ok in auto)
qed

lemma read_event:
  assumes "connection_next env cn ev = Some cn'" and "\<not> is_write_event ev"
  shows "cn_writing cn' = cn_writing cn \<and> cn_write_log cn' = cn_write_log cn \<and>
    sh_writing_queue (cn_helper cn') = sh_writing_queue (cn_helper cn) \<and>
    sh_compressor (cn_helper cn') = sh_compressor (cn_helper cn)"
proof (cases ev)
  case (Async_Read h a)
  then show ?thesis
    using assms read_keeps_writing(1) [of env "cn_helper cn" a h]
    by (auto simp: connection_next_def finish_read_def split: if_splits)
next
  case (Read_Completed err bs a a')
  then obtain h n where "cn_reading cn = Some (h, n)"
    using assms(1) by (auto simp: connection_next_def split: if_splits option.splits)
  with Read_Completed show ?thesis
    using assms read_keeps_writing(2) [of env "cn_helper cn" err bs a a' h]
    by (auto simp: connection_next_def finish_read_def split: if_splits)
qed (use assms(2) in simp_all)

lemma connection_next_queued:
  fixes cn :: "('p, 'c, 'r, 'w) connection"
  assumes "connection_next env cn ev = Some cn'" and "queued (he_compressor_ops env) c ps cn"
    and "write_succeeds ev" and "cn_escaped cn' = None"
  shows "queued (he_compressor_ops env) c (ps @ posted [ev]) cn'"
proof (cases ev)
  case (Async_Write d h)
  then show ?thesis
    using async_write_queued [OF assms(2) _ assms(4), of d h] assms(1)
    by (simp add: connection_next_def split: if_splits)
next
  case (Write_Completed err)
  then show ?thesis
    using write_completed_queued [OF assms(2) _ _ assms(4)] assms(1,3)
    by (simp add: connection_next_def split: if_splits)
qed (use assms(1,2) read_event [OF assms(1)] in \<open>simp_all add: queued_def\<close>)

lemma connection_run_queued:
  fixes cn :: "('p, 'c, 'r, 'w) connection"
  assumes "connection_run env (connection_start env c p) evs cn" and "list_all write_succeeds evs"
    and "cn_escaped cn = None"
  shows "queued (he_compressor_ops env) (cp_init (he_compressor_ops env) c) (posted evs) cn"
  using assms
proof induction
  case trace_start
  show ?case by (simp add: queued_def connection_start_def sh_create_def)
next
  case (trace_event evs cn' ev cn'')
  then have "cn_escaped cn' = None" by (auto simp: connection_next_def split: if_splits)
  with trace_event connection_next_queued [OF trace_event.hyps(2)] show ?case by (simp del: posted.simps)
qed

text \<open>
  C18. As long as no write fails, messages are written in the order in which \<open>async_write\<close> was called,
  each compressed and handed to the socket once; each handler is called once, without an error and in the same
  order, after its message has been written; and while messages are queued, exactly the first of them
  is being written.
\<close>

theorem writes_in_order:
  fixes cn :: "('p, 'c, 'r, 'w) connection"
  assumes "connection_run env (connection_start env c p) evs cn" and "list_all write_succeeds evs"
    and "cn_escaped cn = None"
  shows "\<exists>ds. posted evs = ds @ sh_writing_queue (cn_helper cn) \<and>
    write_calls (cn_write_log cn) = map (\<lambda>(d, h). (h, None)) ds \<and>
    sent (cn_write_log cn) = fst (compress_all (he_compressor_ops env) (cp_init (he_compressor_ops env) c)
      (map fst (ds @ take 1 (sh_writing_queue (cn_helper cn))))) \<and>
    length (sent (cn_write_log cn)) = length (ds @ take 1 (sh_writing_queue (cn_helper cn))) \<and>
    cn_writing cn = (sh_writing_queue (cn_helper cn) \<noteq> [])"
  using connection_run_queued [OF assms] unfolding queued_def by auto

text \<open>
  C37. After a failed write the helper is stuck: the failed message stays at the head of the queue, nothing is
  written any more, and the handlers of all messages queued then or later are never called.
\<close>

theorem writes_stuck_after_error:
  fixes cn :: "('p, 'c, 'r, 'w) connection"
  assumes "connection_next env cn (Write_Completed (Some e)) = Some cn'" and "writing_ok cn"
    and "connection_run env cn' evs cn''"
  shows "cn_write_log cn'' = cn_write_log cn' \<and>
    sh_writing_queue (cn_helper cn'') = sh_writing_queue (cn_helper cn) @ posted evs"
proof -
  have cn': "\<not> cn_writing cn'" "sh_writing_queue (cn_helper cn') = sh_writing_queue (cn_helper cn)"
    "sh_writing_queue (cn_helper cn) \<noteq> []"
    using assms(1,2)
    by (auto simp: connection_next_def finish_write_def writing_ok_def sh_on_write_def split: if_splits list.splits)
  from assms(3) have "\<not> cn_writing cn'' \<and> cn_write_log cn'' = cn_write_log cn' \<and>
    sh_writing_queue (cn_helper cn'') = sh_writing_queue (cn_helper cn) @ posted evs"
  proof induction
    case trace_start
    then show ?case using cn' by simp
  next
    case (trace_event evs cn1 ev cn2)
    show ?case
    proof (cases ev)
      case (Async_Write d h)
      with trace_event cn'(3) show ?thesis
        by (auto simp: connection_next_def finish_write_def sh_add_message_to_write_def Let_def split: if_splits)
    next
      case (Write_Completed err)
      with trace_event show ?thesis by (simp add: connection_next_def split: if_splits)
    qed (use trace_event.IH read_event [OF trace_event.hyps(2)] in simp_all)
  qed
  then show ?thesis by simp
qed

lemmas write_exec_simps = connection_next_def connection_start_def sh_create_def
  example_env_def null_streaming_ops_def null_compress_def sh_add_message_to_write_def sh_do_write_def
  sh_on_write_def finish_write_def escaped_def message_bytes_def Let_def

theorem writes_in_order_witness:
  "\<exists>cn :: (msgpack_streaming_parser, unit, nat, nat) connection.
     connection_run example_env (connection_start example_env () example_empty_parser)
       [Async_Write (Some [1]) 1, Async_Write (Some [2]) 2, Write_Completed None] cn \<and>
     (\<exists>ds. [(Some [1], 1), (Some [2], 2)] = ds @ sh_writing_queue (cn_helper cn))"
proof -
  let ?evs = "[Async_Write (Some [1]) 1, Async_Write (Some [2]) 2, Write_Completed None] :: (nat, nat) socket_event list"
  obtain cn where "run_events (connection_next example_env) (connection_start example_env () example_empty_parser) ?evs = Some cn"
    "cn_escaped cn = None"
    by (simp add: write_exec_simps)
  with writes_in_order [OF run_events_trace, of example_env "()" example_empty_parser ?evs cn]
    run_events_trace show ?thesis by fastforce
qed

theorem writes_stuck_after_error_witness:
  "\<exists>cn cn' cn'' :: (msgpack_streaming_parser, unit, nat, nat) connection.
     connection_next example_env cn (Write_Completed (Some (asio_error ''Broken pipe''))) = Some cn' \<and>
     connection_run example_env cn' [Async_Write (Some [2]) 2] cn'' \<and>
     cn_write_log cn'' = cn_write_log cn'"
proof -
  obtain cn :: "(msgpack_streaming_parser, unit, nat, nat) connection"
    where cn: "run_events (connection_next example_env) (connection_start example_env () example_empty_parser)
      [Async_Write (Some [1]) 1] = Some cn" "cn_escaped cn = None" "writing_ok cn" "cn_writing cn"
      "sh_writing_queue (cn_helper cn) = [(Some [1], 1)]"
    by (simp add: write_exec_simps writing_ok_def)
  obtain cn' where cn': "connection_next example_env cn (Write_Completed (Some (asio_error ''Broken pipe''))) = Some cn'"
    "cn_escaped cn' = None"
    using cn(2-) by (simp add: connection_next_def sh_on_write_def finish_write_def escaped_def example_env_def)
  obtain cn'' where cn'': "run_events (connection_next example_env) cn' [Async_Write (Some [2]) 2] = Some cn''"
    using cn'(2) by (simp add: connection_next_def)
  show ?thesis
    using writes_stuck_after_error [OF cn'(1) cn(3) run_events_trace [OF cn'']] cn'(1)
      run_events_trace [OF cn''] by blast
qed

section \<open>From one end to the other\<close>

lemma compress_all_null: "compress_all null_streaming_ops () ds = (map message_bytes ds, ())"
  by (induction ds) (simp_all add: null_streaming_ops_def null_compress_def)

lemma sent_prefix:
  fixes cn :: "('p, unit, 'r, 'w) connection"
  assumes "connection_run env (connection_start env () p) evs cn" and "list_all write_succeeds evs"
    and "cn_escaped cn = None" and "he_compressor_ops env = null_streaming_ops"
  shows "prefix (concat (sent (cn_write_log cn))) (concat (map (message_bytes \<circ> fst) (posted evs)))"
proof -
  from connection_run_queued [OF assms(1-3)] obtain ds where ds: "posted evs = ds @ sh_writing_queue (cn_helper cn)"
    "compress_all null_streaming_ops () (map fst (ds @ take 1 (sh_writing_queue (cn_helper cn)))) =
       (sent (cn_write_log cn), sh_compressor (cn_helper cn))"
    unfolding queued_def assms(4) by (auto simp: null_streaming_ops_def)
  let ?q = "sh_writing_queue (cn_helper cn)"
  have "sent (cn_write_log cn) = map (message_bytes \<circ> fst) (ds @ take 1 ?q)" using ds(2) by (simp add: compress_all_null)
  then have "concat (map (message_bytes \<circ> fst) (posted evs)) =
      concat (sent (cn_write_log cn)) @ concat (map (message_bytes \<circ> fst) (drop 1 ?q))"
    unfolding ds(1) by (metis append.assoc append_take_drop_id concat_append map_append)
  then show ?thesis by (simp add: prefix_def)
qed

lemma packed_bytes:
  assumes "map fst ps = map (\<lambda>x. Some (pack_object x)) xs"
  shows "map (message_bytes \<circ> fst) ps = map pack_object xs"
proof -
  have "map (message_bytes \<circ> fst) ps = map message_bytes (map fst ps)" by simp
  also have "\<dots> = map pack_object xs" unfolding assms by (simp add: message_bytes_def)
  finally show ?thesis .
qed

text \<open>
  C7. A stream carries messages from one helper to another: when the bytes one end has read are the beginning
  of the bytes the other end has written, cut into whatever pieces, the messages delivered are the first of the messages
  \<open>async_write\<close> was called with, unchanged, in order and each once.
\<close>

theorem stream_delivers:
  fixes sender :: "('p, unit, 'r, 'w) connection" and receiver :: "(msgpack_streaming_parser, 'c, 'r2, 'w2) connection"
  assumes "connection_run env (connection_start env () p) evs sender" and "list_all write_succeeds evs"
    and "cn_escaped sender = None" and "he_compressor_ops env = null_streaming_ops"
    and "map fst (posted evs) = map (\<lambda>x. Some (pack_object x)) xs" and "list_all wf_mobj xs"
    and "malloc_ok malloc" and "he_parser_ops env' = msgpack_streaming_ops malloc" and "handlers_return env'"
    and "mp_create malloc = Inr p'" and "connection_run env' (connection_start env' c p') evs' receiver"
    and "cn_escaped receiver = None" and "list_all (event_in_range lim) evs'"
    and "prefix (concat (map event_bytes evs')) (concat (sent (cn_write_log sender)))"
    and "length (concat (map pack_object xs)) + max (unat (he_streaming_min_buf_size env')) lim < 2 ^ 64"
  shows "\<exists>k \<le> length xs. delivered (cn_read_log receiver) = take k (map fst (posted evs))"
proof -
  have "prefix (concat (map event_bytes evs')) (concat (map pack_object xs))"
    using prefix_order.trans [OF assms(14) sent_prefix [OF assms(1-4)]] packed_bytes [OF assms(5)] by simp
  from msgpack_run_ok [OF assms(7-10,6,11) this assms(13,15)] assms(12)
  have "mp.framed malloc xs (concat (map event_bytes evs')) receiver" by simp
  from framed_delivered [OF this] show ?thesis unfolding assms(5) by (auto simp: take_map)
qed

theorem stream_delivers_witness:
  "\<exists>sender receiver :: (msgpack_streaming_parser, unit, nat, nat) connection.
     connection_run example_env (connection_start example_env () example_empty_parser)
       [Async_Write (Some (pack_object NIL)) 1] sender \<and>
     connection_run example_env (connection_start example_env () example_empty_parser)
       [Async_Read 1 (Inr 0), Read_Completed None (pack_object NIL) (Inr 0) (Inr 0)] receiver \<and>
     (\<exists>k \<le> 1. delivered (cn_read_log receiver) = take k [Some (pack_object NIL)])"
proof -
  obtain s where s: "run_events (connection_next example_env) (connection_start example_env () example_empty_parser)
      [Async_Write (Some (pack_object NIL)) 1 :: (nat, nat) socket_event] = Some s" "cn_escaped s = None"
    "sent (cn_write_log s) = [pack_object NIL]"
    by (simp add: write_exec_simps)
  obtain r :: "(msgpack_streaming_parser, unit, nat, nat) connection"
    where r: "connection_run example_env (connection_start example_env () example_empty_parser)
       [Async_Read 1 (Inr 0), Read_Completed None (pack_object NIL) (Inr 0) (Inr 0)] r" "cn_escaped r = None"
    by (rule example_run) (simp add: pack_object_def pack_nil_def)
  have "\<exists>k \<le> 1. delivered (cn_read_log r) = take k [Some (pack_object NIL)]"
    using stream_delivers [OF run_events_trace [OF s(1)] _ s(2) _ _ _ example_malloc_ok _ _ example_mp_create r, of "[NIL]" 0]
      s(3)
    by (simp add: example_env_def handlers_return_def in_range_def pack_object_def pack_nil_def)
  with run_events_trace [OF s(1)] r(1) show ?thesis by blast
qed

end
