(* ===== verification/Response_Future.thy ===== *)
theory Response_Future
  imports Message
begin

text \<open>
  \<^verbatim>\<open>include/mprpc/response_future.h\<close> and
  \<^verbatim>\<open>include/mprpc/typed_response_future.h\<close>: the state a promise and its future share, and the
  handlers that are set on it.

  A handler is a function of the error and the message; what running it does is an \<open>effect\<close>: the
  events it causes, in order, and whether it returns or throws. The mutex makes each operation atomic. An
  operation gives the new state, the tasks it posts to the thread pool and its result.
\<close>

type_synonym 'u effect = "'u list \<times> unit result"

type_synonym 'u on_response = "error_info \<Rightarrow> message \<Rightarrow> 'u effect"

definition catch_exception :: "'u effect \<Rightarrow> (error_info \<Rightarrow> 'u effect) \<Rightarrow> 'u effect" where
  "catch_exception eff handler =
     (case eff of
        (us, Inl (Throw (Mprpc_Exception info))) \<Rightarrow> (case handler info of (us', r) \<Rightarrow> (us @ us', r))
      | _ \<Rightarrow> eff)"

section \<open>response_future_data\<close>

record 'u response_future_data =
  rf_has_response :: bool
  rf_error :: error_info
  rf_msg :: message
  rf_has_handler :: bool
  rf_on_response :: "'u on_response option"

definition new_future_data :: "'u response_future_data" where
  "new_future_data =
     \<lparr>rf_has_response = False, rf_error = None, rf_msg = empty_message, rf_has_handler = False,
      rf_on_response = None\<rparr>"

type_synonym 'u future_step = "'u response_future_data \<times> 'u effect list \<times> unit result"

definition rf_set_error :: "'u response_future_data \<Rightarrow> error_info \<Rightarrow> 'u future_step" where
  "rf_set_error d err =
     (if rf_has_response d then
        (d, [], throw_error (make_error invalid_future_use
           ''this future already has a response or an error''))
      else
        let d = d\<lparr>rf_has_response := True\<rparr> in
        case rf_on_response d of
          None \<Rightarrow> (d\<lparr>rf_error := err\<rparr>, [], Inr ())
        | Some on_response \<Rightarrow> (d, [on_response err empty_message], Inr ()))"

definition rf_set_response :: "'u response_future_data \<Rightarrow> message \<Rightarrow> 'u future_step" where
  "rf_set_response d msg =
     (if rf_has_response d then
        (d, [], throw_error (make_error invalid_future_use
           ''this future already has a response or an error''))
      else
        let d = d\<lparr>rf_has_response := True\<rparr> in
        case rf_on_response d of
          None \<Rightarrow> (d\<lparr>rf_msg := msg\<rparr>, [], Inr ())
        | Some on_response \<Rightarrow> (d, [on_response None msg], Inr ()))"

definition rf_set_handler :: "'u response_future_data \<Rightarrow> 'u on_response \<Rightarrow> 'u future_step" where
  "rf_set_handler d handler =
     (if rf_has_handler d then
        (d, [], throw_error (make_error invalid_future_use ''this future already has a handler''))
      else
        let d = d\<lparr>rf_has_handler := True\<rparr> in
        if \<not> rf_has_response d then (d\<lparr>rf_on_response := Some handler\<rparr>, [], Inr ())
        else (d, [handler (rf_error d) (rf_msg d)], Inr ()))"

section \<open>response_future\<close>

text \<open>A future holds the shared state or, when it is empty, nothing.\<close>

definition require_data :: "'u response_future_data option \<Rightarrow> 'u response_future_data result" where
  "require_data data =
     (case data of
        None \<Rightarrow> throw_error (make_error invalid_future_use ''tried to use empty future'')
      | Some d \<Rightarrow> Inr d)"

definition future_then ::
    "'u response_future_data option \<Rightarrow> 'u on_response \<Rightarrow> 'u future_step result" where
  "future_then data handler = bindR (require_data data) (\<lambda>d. Inr (rf_set_handler d handler))"

definition two_handlers ::
    "(message \<Rightarrow> 'u effect) \<Rightarrow> (error_info \<Rightarrow> 'u effect) \<Rightarrow> 'u on_response" where
  "two_handlers on_success on_failure err msg =
     (if has_error err then on_failure err else on_success msg)"

definition future_then_two ::
    "'u response_future_data option \<Rightarrow> (message \<Rightarrow> 'u effect) \<Rightarrow> (error_info \<Rightarrow> 'u effect) \<Rightarrow>
     'u future_step result" where
  "future_then_two data on_success on_failure =
     bindR (require_data data) (\<lambda>d. Inr (rf_set_handler d (two_handlers on_success on_failure)))"

text \<open>
  The handler of \<open>get_future\<close> completes a \<open>std::promise\<close>; completing it is an event. An empty
  future is dereferenced.
\<close>

datatype 'a completion = Set_Value 'a | Set_Exception error_info

definition future_get_future ::
    "message completion response_future_data option \<Rightarrow> message completion future_step result" where
  "future_get_future data =
     bindR (deref data) (\<lambda>d. Inr (rf_set_handler d (\<lambda>err msg.
       if has_error err then ([Set_Exception err], Inr ()) else ([Set_Value msg], Inr ()))))"

section \<open>typed_response_future\<close>

text \<open>The argument \<open>conv\<close> is the conversion of an object to the result type.\<close>

definition typed_on_message ::
    "(mobj \<Rightarrow> 'a result) \<Rightarrow> ('a \<Rightarrow> 'u effect) \<Rightarrow> (error_info \<Rightarrow> 'u effect) \<Rightarrow> message \<Rightarrow> 'u effect" where
  "typed_on_message conv on_success on_failure msg =
     catch_exception
       (case msg_has_error msg of
          Inl e \<Rightarrow> ([], Inl e)
        | Inr True \<Rightarrow>
            (case bindR (msg_error msg) (\<lambda>err. pack_data (Inr (pack_object err))) of
               Inl e \<Rightarrow> ([], Inl e)
             | Inr d \<Rightarrow> on_failure (make_error_data unexpected_error ''error on server'' d))
        | Inr False \<Rightarrow>
            (case msg_result_as conv msg of
               Inl e \<Rightarrow> ([], Inl e)
             | Inr r \<Rightarrow> on_success r))
       on_failure"

definition typed_then_two ::
    "(mobj \<Rightarrow> 'a result) \<Rightarrow> 'u response_future_data option \<Rightarrow> ('a \<Rightarrow> 'u effect) \<Rightarrow>
     (error_info \<Rightarrow> 'u effect) \<Rightarrow> 'u future_step result" where
  "typed_then_two conv data on_success on_failure =
     future_then_two data (typed_on_message conv on_success on_failure) on_failure"

definition typed_then ::
    "(mobj \<Rightarrow> 'a result) \<Rightarrow> 'a \<Rightarrow> 'u response_future_data option \<Rightarrow> (error_info \<Rightarrow> 'a \<Rightarrow> 'u effect) \<Rightarrow>
     'u future_step result" where
  "typed_then conv dflt data handler =
     typed_then_two conv data (\<lambda>r. handler None r) (\<lambda>err. handler err dflt)"

definition typed_get_future ::
    "(mobj \<Rightarrow> 'a result) \<Rightarrow> 'a completion response_future_data option \<Rightarrow>
     'a completion future_step result" where
  "typed_get_future conv data =
     typed_then_two conv data (\<lambda>r. ([Set_Value r], Inr ())) (\<lambda>err. ([Set_Exception err], Inr ()))"

text \<open>The specialisation for \<open>void\<close> does not look at the result of the message.\<close>

definition void_on_message ::
    "'u effect \<Rightarrow> (error_info \<Rightarrow> 'u effect) \<Rightarrow> message \<Rightarrow> 'u effect" where
  "void_on_message on_success on_failure msg =
     catch_exception
       (case msg_has_error msg of
          Inl e \<Rightarrow> ([], Inl e)
        | Inr True \<Rightarrow>
            (case bindR (msg_error msg) (\<lambda>err. pack_data (Inr (pack_object err))) of
               Inl e \<Rightarrow> ([], Inl e)
             | Inr d \<Rightarrow> on_failure (make_error_data unexpected_error ''error on server'' d))
        | Inr False \<Rightarrow> on_success)
       on_failure"

definition void_then_two ::
    "'u response_future_data option \<Rightarrow> 'u effect \<Rightarrow> (error_info \<Rightarrow> 'u effect) \<Rightarrow> 'u future_step result" where
  "void_then_two data on_success on_failure =
     future_then_two data (void_on_message on_success on_failure) on_failure"

definition void_then ::
    "'u response_future_data option \<Rightarrow> (error_info \<Rightarrow> 'u effect) \<Rightarrow> 'u future_step result" where
  "void_then data handler = void_then_two data (handler None) handler"

definition void_get_future ::
    "unit completion response_future_data option \<Rightarrow> unit completion future_step result" where
  "void_get_future data =
     void_then_two data ([Set_Value ()], Inr ()) (\<lambda>err. ([Set_Exception err], Inr ()))"

section \<open>Once\<close>

text \<open>
  The promise and the future are used by different threads. Whatever the order of their operations,
  the outcome is that of the first response and the first handler.
\<close>

datatype 'u future_op = Set_Error error_info | Set_Response message | Set_Handler "'u on_response"

fun future_op_step :: "'u future_op \<Rightarrow> 'u response_future_data \<Rightarrow> 'u future_step" where
  "future_op_step (Set_Error e) d = rf_set_error d e"
| "future_op_step (Set_Response m) d = rf_set_response d m"
| "future_op_step (Set_Handler h) d = rf_set_handler d h"

fun run_future ::
    "'u future_op list \<Rightarrow> 'u response_future_data \<Rightarrow>
     'u response_future_data \<times> 'u effect list \<times> unit result list" where
  "run_future [] d = (d, [], [])"
| "run_future (x # xs) d =
     (case future_op_step x d of
        (d, posts, r) \<Rightarrow>
          (case run_future xs d of (d, posts', rs) \<Rightarrow> (d, posts @ posts', r # rs)))"

fun first_response :: "'u future_op list \<Rightarrow> (error_info \<times> message) option" where
  "first_response [] = None"
| "first_response (Set_Error e # xs) = Some (e, empty_message)"
| "first_response (Set_Response m # xs) = Some (None, m)"
| "first_response (_ # xs) = first_response xs"

fun first_handler :: "'u future_op list \<Rightarrow> 'u on_response option" where
  "first_handler [] = None"
| "first_handler (Set_Handler h # xs) = Some h"
| "first_handler (_ # xs) = first_handler xs"

definition outcome :: "'u future_op list \<Rightarrow> 'u effect list" where
  "outcome ops =
     (case (first_response ops, first_handler ops) of
        (Some (e, m), Some h) \<Rightarrow> [h e m]
      | _ \<Rightarrow> [])"


definition response_thrown :: "unit result" where
  "response_thrown = throw_error (make_error invalid_future_use ''this future already has a response or an error'')"

definition handler_thrown :: "unit result" where
  "handler_thrown = throw_error (make_error invalid_future_use ''this future already has a handler'')"

fun op_results :: "bool \<Rightarrow> bool \<Rightarrow> 'u future_op list \<Rightarrow> unit result list" where
  "op_results responded handled [] = []"
| "op_results responded handled (Set_Handler h # xs) =
     (if handled then handler_thrown else Inr ()) # op_results responded True xs"
| "op_results responded handled (_ # xs) =
     (if responded then response_thrown else Inr ()) # op_results True handled xs"

text \<open>The state after a first response \<open>resp\<close> and a first handler \<open>hdl\<close>, if any.\<close>

definition future_state ::
    "(error_info \<times> message) option \<Rightarrow> 'u on_response option \<Rightarrow> 'u response_future_data \<Rightarrow> bool" where
  "future_state resp hdl d \<longleftrightarrow>
     rf_has_response d = (resp \<noteq> None) \<and> rf_has_handler d = (hdl \<noteq> None) \<and>
     (case resp of
        None \<Rightarrow> rf_on_response d = hdl \<and> rf_error d = None \<and> rf_msg d = empty_message
      | Some (e, m) \<Rightarrow> hdl = None \<longrightarrow> rf_on_response d = None \<and> rf_error d = e \<and> rf_msg d = m)"

fun both :: "(error_info \<times> message) option \<Rightarrow> 'u on_response option \<Rightarrow> 'u effect list" where
  "both (Some (e, m)) (Some h) = [h e m]"
| "both _ _ = []"

lemma run_future_state:
  assumes "future_state resp hdl d" and "run_future ops d = (d', posts, rs)"
  shows "rs = op_results (resp \<noteq> None) (hdl \<noteq> None) ops \<and>
    both resp hdl @ posts =
      both (if resp = None then first_response ops else resp) (if hdl = None then first_handler ops else hdl)"
  using assms
proof (induction ops arbitrary: resp hdl d posts rs)
  case Nil
  then show ?case by simp
next
  case (Cons x xs)
  obtain d1 p1 r1 where 1: "future_op_step x d = (d1, p1, r1)" by (metis prod_cases3)
  obtain p2 rs2 where 2: "run_future xs d1 = (d', p2, rs2)" and eq: "posts = p1 @ p2" "rs = r1 # rs2"
    using Cons.prems(2) 1 by (auto split: prod.splits)
  show ?case
  proof (cases x)
    case (Set_Handler h)
    have st: "future_state resp (if hdl = None then Some h else hdl) d1"
      and out: "r1 = (if hdl \<noteq> None then handler_thrown else Inr ())"
        "p1 = (if hdl = None then both resp (Some h) else [])"
      using Cons.prems(1) 1 Set_Handler
      by (auto simp: future_state_def rf_set_handler_def handler_thrown_def Let_def split: option.splits if_splits)
    from Cons.IH [OF st 2] out eq Set_Handler show ?thesis by (auto split: if_splits)
  next
    case (Set_Error e)
    have st: "future_state (if resp = None then Some (e, empty_message) else resp) hdl d1"
      and out: "r1 = (if resp \<noteq> None then response_thrown else Inr ())"
        "p1 = (if resp = None then both (Some (e, empty_message)) hdl else [])"
      using Cons.prems(1) 1 Set_Error
      by (auto simp: future_state_def rf_set_error_def response_thrown_def Let_def split: option.splits if_splits)
    from Cons.IH [OF st 2] out eq Set_Error show ?thesis by (auto split: if_splits)
  next
    case (Set_Response m)
    have st: "future_state (if resp = None then Some (None, m) else resp) hdl d1"
      and out: "r1 = (if resp \<noteq> None then response_thrown else Inr ())"
        "p1 = (if resp = None then both (Some (None, m)) hdl else [])"
      using Cons.prems(1) 1 Set_Response
      by (auto simp: future_state_def rf_set_response_def response_thrown_def Let_def split: option.splits if_splits)
    from Cons.IH [OF st 2] out eq Set_Response show ?thesis by (auto split: if_splits)
  qed
qed

lemma new_future_state: "future_state None None new_future_data"
  by (simp add: future_state_def new_future_data_def)

text \<open>
  C20. Whatever the order in which responses, errors and handlers are set on a future, from whatever
  threads, the handler is called exactly once when both a response (or error) and a handler have been set, and never
  before: the first handler with the first response or error. Every later one throws
  \<open>invalid_future_use\<close> and changes nothing.
\<close>

theorem future_handler_once:
  "snd (run_future ops new_future_data) = (outcome ops, op_results False False ops)"
proof -
  obtain d posts rs where run: "run_future ops new_future_data = (d, posts, rs)" by (metis prod_cases3)
  from run_future_state [OF new_future_state run] run show ?thesis
    by (cases "first_response ops"; cases "first_handler ops") (auto simp: outcome_def)
qed

section \<open>Typed futures\<close>

text \<open>A conversion that fails only as the MessagePack library documents it.\<close>

definition converts :: "(mobj \<Rightarrow> 'a result) \<Rightarrow> bool" where
  "converts conv \<longleftrightarrow> (\<forall>ob e. conv ob = Inl e \<longrightarrow> e = Throw Msgpack_Type_Error)"

definition completes :: "'a completion effect \<Rightarrow> bool" where
  "completes eff \<longleftrightarrow> (\<exists>c. eff = ([c], Inr ()))"

definition typed_completion :: "(mobj \<Rightarrow> 'a result) \<Rightarrow> message \<Rightarrow> 'a completion" where
  "typed_completion conv m =
     (case (msg_error m, msg_result m) of
        (Inr err, Inr res) \<Rightarrow>
          if err \<noteq> NIL then
            Set_Exception (make_error_data unexpected_error ''error on server'' (Some (pack_object err)))
          else
            (case conv res of
               Inr r \<Rightarrow> Set_Value r
             | Inl _ \<Rightarrow> Set_Exception (make_error_data invalid_message ''failed to convert result''
                 (Some (pack_object (msg_handle m)))))
      | _ \<Rightarrow> Set_Exception (make_error_data invalid_message
            ''tried to access to error of message not a response'' (Some (pack_object (msg_handle m)))))"

lemma catch_exception_simps [simp]:
  "catch_exception (us, Inr u) h = (us, Inr u)"
  "catch_exception (us, throw_error info) h = (us @ fst (h info), snd (h info))"
  by (simp_all add: catch_exception_def throw_error_def split: prod.split)

lemma typed_on_message_completes:
  assumes "converts conv" and "wf_message m \<or> m = empty_message"
  shows "typed_on_message conv (\<lambda>r. ([Set_Value r], Inr ())) (\<lambda>e. ([Set_Exception e], Inr ())) m =
    ([typed_completion conv m], Inr ())"
proof (cases "msg_type m = response")
  case True
  then obtain err res where m: "msg_error_ptr m = Some err" "msg_result_ptr m = Some res"
    using assms(2) by (auto simp: wf_message_def msgtype_defs empty_message_def)
  show ?thesis
  proof (cases "conv res")
    case (Inl e)
    then have "conv res = Inl (Throw Msgpack_Type_Error)" using assms(1) by (auto simp: converts_def)
    with True m show ?thesis
      by (cases "err = NIL") (auto simp: typed_on_message_def typed_completion_def msg_has_error_def msg_error_def
          msg_result_def msg_result_as_def converted_def invalid_message_error_def pack_data_def throw_error_def
          catch_exception_def)
  next
    case (Inr r)
    with True m show ?thesis
      by (cases "err = NIL") (auto simp: typed_on_message_def typed_completion_def msg_has_error_def msg_error_def
          msg_result_def msg_result_as_def converted_def pack_data_def)
  qed
next
  case False
  then show ?thesis
    by (simp add: typed_on_message_def typed_completion_def msg_has_error_def msg_error_def
        invalid_message_error_def throw_error_def catch_exception_def)
qed

text \<open>
  The \<open>std::future\<close> of a typed future is completed exactly once, whether the response arrives before or
  after \<open>get_future\<close>: with the converted result of a response without error, with
  \<open>unexpected_error\<close> carrying the packed error of an error response, with
  \<open>invalid_message\<close> when the result cannot be converted or the message is no response, and with the
  error when the request failed.
\<close>

theorem typed_future_completed:
  assumes "converts conv" and "wf_message m \<or> m = empty_message"
  shows "(\<exists>d. typed_get_future conv (Some new_future_data) = Inr (d, [], Inr ()) \<and>
      snd (rf_set_response d m) = ([([typed_completion conv m], Inr ())], Inr ()) \<and>
      snd (rf_set_error d (Some i)) = ([([Set_Exception (Some i)], Inr ())], Inr ())) \<and>
    (\<exists>d. typed_get_future conv (Some (fst (rf_set_response new_future_data m))) =
      Inr (d, [([typed_completion conv m], Inr ())], Inr ())) \<and>
    (\<exists>d. typed_get_future conv (Some (fst (rf_set_error new_future_data (Some i)))) =
      Inr (d, [([Set_Exception (Some i)], Inr ())], Inr ()))"
  using typed_on_message_completes [OF assms]
  by (simp add: typed_get_future_def typed_then_two_def future_then_two_def require_data_def
      rf_set_handler_def rf_set_response_def rf_set_error_def new_future_data_def two_handlers_def has_error_def Let_def)

definition example_response :: message where
  "example_response =
     empty_message\<lparr>msg_type := response, msg_error_ptr := Some NIL, msg_result_ptr := Some (BOOLEAN True)\<rparr>"

theorem typed_future_completed_witness:
  "\<exists>d. typed_get_future Inr (Some (fst (rf_set_response new_future_data example_response))) =
     Inr (d, [([Set_Value (BOOLEAN True)], Inr ())], Inr ())"
proof -
  have "converts Inr" "wf_message example_response"
    by (simp_all add: converts_def wf_message_def example_response_def)
  moreover have "typed_completion Inr example_response = Set_Value (BOOLEAN True)"
    by (simp add: typed_completion_def example_response_def msg_error_def msg_result_def)
  ultimately show ?thesis using typed_future_completed [of Inr example_response undefined] by auto
qed

text \<open>
  When the success handler of a typed future throws an \<open>mprpc\<close> exception, the failure handler
  is called as well: for one response, both handlers run.
\<close>

theorem typed_then_calls_both:
  assumes "msg_type m = response" and "msg_error m = Inr NIL" and "msg_result m = Inr res" and "conv res = Inr r"
    and "on_success r = (us, Inl (Throw (Mprpc_Exception info)))" and "on_failure info = (us', r')"
  shows "typed_on_message conv on_success on_failure m = (us @ us', r')"
  using assms
  by (auto simp: typed_on_message_def msg_has_error_def msg_error_def msg_result_as_def converted_def
      catch_exception_def)

theorem typed_then_calls_both_witness:
  "typed_on_message Inr (\<lambda>r. ([''success''], Inl (Throw (Mprpc_Exception (make_error unexpected_error [])))))
     (\<lambda>e. ([''failure''], Inr ())) example_response = ([''success''] @ [''failure''], Inr ())"
  by (rule typed_then_calls_both)
    (simp_all add: example_response_def msg_error_def msg_result_def)

end
