(* ===== verification/Execution.thy ===== *)
theory Execution
  imports Response_Future
begin

text \<open>
  The execution of methods on a server:
  \<^verbatim>\<open>include/mprpc/execution/function_method_executor.h\<close>, which makes a method of a function,
  and \<^verbatim>\<open>include/mprpc/execution/simple_method_server.h\<close>, which finds the method of a
  message.

  The function a method calls belongs to the user of the library. It works on a state of its own, the type
  parameter \<open>'u\<close>, and may throw. Its parameter types enter as the conversions of their adaptors and its
  result type as the adaptor that packs it. Of the sessions only the addresses are used, in log messages.
\<close>

section \<open>Converting a tuple of parameters\<close>

text \<open>
  \<open>StdTupleConverter\<close> converts the elements from left to right. An element for which the
  array is too short keeps the value of its default constructor; additional elements of the array
  are ignored.
\<close>

fun convert_elements :: "(mobj \<Rightarrow> 'v result) list \<Rightarrow> 'v list \<Rightarrow> mobj list \<Rightarrow> 'v list result" where
  "convert_elements (c # cs) (v # vs) (x # xs) =
     bindR (c x) (\<lambda>w. bindR (convert_elements cs vs xs) (\<lambda>ws. Inr (w # ws)))"
| "convert_elements (c # cs) (v # vs) [] =
     bindR (convert_elements cs vs []) (\<lambda>ws. Inr (v # ws))"
| "convert_elements _ _ _ = Inr []"

definition convert_tuple :: "(mobj \<Rightarrow> 'v result) list \<Rightarrow> 'v list \<Rightarrow> mobj \<Rightarrow> 'v list result" where
  "convert_tuple cs defaults ob =
     (if \<not> is_array ob then Inl (Throw Msgpack_Type_Error)
      else convert_elements cs defaults (array_of ob))"

section \<open>Methods\<close>

record 'u method_executor =
  me_name :: string
  me_process_request :: "message \<Rightarrow> 'u \<Rightarrow> 'u \<times> message_data result"
  me_process_notification :: "message \<Rightarrow> 'u \<Rightarrow> 'u \<times> unit result"

record ('u, 'v, 'r) user_function =
  uf_convert :: "(mobj \<Rightarrow> 'v result) list"
  uf_defaults :: "'v list"
  uf_function :: "'v list \<Rightarrow> 'u \<Rightarrow> 'u \<times> 'r result"
  uf_pack :: "'r \<Rightarrow> bytes result"

definition fm_invoke :: "('u, 'v, 'r) user_function \<Rightarrow> message \<Rightarrow> 'u \<Rightarrow> 'u \<times> 'r result" where
  "fm_invoke f msg u =
     (case msg_params_as (convert_tuple (uf_convert f) (uf_defaults f)) msg of
        Inl e \<Rightarrow> (u, Inl e)
      | Inr params \<Rightarrow> uf_function f params u)"

text \<open>The handler of the functions below: \<open>catch (const std::exception& e)\<close>.\<close>

definition error_response :: "message \<Rightarrow> message_data result \<Rightarrow> message_data result" where
  "error_response msg r =
     (case r of
        Inl (Throw x) \<Rightarrow> pack_error_response (msg_id msg) (pack_string (exn_what x))
      | _ \<Rightarrow> r)"

definition fm_process_request ::
    "('u, 'v, 'r) user_function \<Rightarrow> message \<Rightarrow> 'u \<Rightarrow> 'u \<times> message_data result" where
  "fm_process_request f msg u =
     (case fm_invoke f msg u of
        (u, r) \<Rightarrow>
          (u, error_response msg (bindR r (\<lambda>v. pack_response (msg_id msg) (uf_pack f v)))))"

definition fm_process_notification ::
    "('u, 'v, 'r) user_function \<Rightarrow> message \<Rightarrow> 'u \<Rightarrow> 'u \<times> unit result" where
  "fm_process_notification f msg u =
     (case fm_invoke f msg u of
        (u, Inl (Throw x)) \<Rightarrow> (u, Inr ())
      | (u, Inl e) \<Rightarrow> (u, Inl e)
      | (u, Inr _) \<Rightarrow> (u, Inr ()))"

definition function_method_executor ::
    "string \<Rightarrow> ('u, 'v, 'r) user_function \<Rightarrow> 'u method_executor" where
  "function_method_executor name f =
     \<lparr>me_name = name, me_process_request = fm_process_request f,
      me_process_notification = fm_process_notification f\<rparr>"

text \<open>The specialisation for functions without a result answers with nil.\<close>

definition void_process_request ::
    "('u, 'v, 'r) user_function \<Rightarrow> message \<Rightarrow> 'u \<Rightarrow> 'u \<times> message_data result" where
  "void_process_request f msg u =
     (case fm_invoke f msg u of
        (u, r) \<Rightarrow> (u, error_response msg (bindR r (\<lambda>_. pack_response (msg_id msg) (Inr pack_nil)))))"

definition void_method_executor ::
    "string \<Rightarrow> ('u, 'v, 'r) user_function \<Rightarrow> 'u method_executor" where
  "void_method_executor name f =
     \<lparr>me_name = name, me_process_request = void_process_request f,
      me_process_notification = fm_process_notification f\<rparr>"

section \<open>The method server\<close>

type_synonym 'u methods = "string \<rightharpoonup> 'u method_executor"

text \<open>\<open>emplace\<close> keeps the method that is already there; a null pointer throws.\<close>

fun add_methods :: "string \<Rightarrow> 'u method_executor option list \<Rightarrow> 'u methods \<Rightarrow> 'u methods result" where
  "add_methods fn [] ms = Inr ms"
| "add_methods fn (p # ps) ms =
     bindR (require_nonull p (Some ''method'') (Some fn)) (\<lambda>m.
     add_methods fn ps (if ms (me_name m) = None then ms(me_name m \<mapsto> m) else ms))"

definition simple_method_server :: "string \<Rightarrow> 'u method_executor option list \<Rightarrow> 'u methods result" where
  "simple_method_server fn ps = add_methods fn ps Map.empty"

text \<open>The call of the handler \<open>on_message_processed_handler\<close>.\<close>

record processed =
  pr_error :: error_info
  pr_response_exists :: bool
  pr_response :: message_data

definition not_found :: "string \<Rightarrow> processed" where
  "not_found name =
     \<lparr>pr_error = make_error method_not_found (''method '' @ name @ '' not found''),
      pr_response_exists = False, pr_response = None\<rparr>"

text \<open>
  \<open>do_process_message\<close> gives the calls of the handler and whether it returned. The messages of the
  log read the method name and the parameters before the method is looked up.
\<close>

definition do_process_message ::
    "'u methods \<Rightarrow> message \<Rightarrow> 'u \<Rightarrow> 'u \<times> processed list \<times> unit result" where
  "do_process_message ms msg u =
     (if msg_type msg = request then
        (case bindR (msg_method msg) (\<lambda>name. bindR (msg_params msg) (\<lambda>_. Inr name)) of
           Inl e \<Rightarrow> (u, [], Inl e)
         | Inr name \<Rightarrow>
             (case ms name of
                None \<Rightarrow> (u, [not_found name], Inr ())
              | Some m \<Rightarrow>
                  (case me_process_request m msg u of
                     (u, Inl e) \<Rightarrow> (u, [], Inl e)
                   | (u, Inr resp) \<Rightarrow>
                       (u, [\<lparr>pr_error = None, pr_response_exists = True, pr_response = resp\<rparr>], Inr ()))))
      else if msg_type msg = notification then
        (case bindR (msg_method msg) (\<lambda>name. bindR (msg_params msg) (\<lambda>_. Inr name)) of
           Inl e \<Rightarrow> (u, [], Inl e)
         | Inr name \<Rightarrow>
             (case ms name of
                None \<Rightarrow> (u, [not_found name], Inr ())
              | Some m \<Rightarrow>
                  (case me_process_notification m msg u of
                     (u, Inl e) \<Rightarrow> (u, [], Inl e)
                   | (u, Inr _) \<Rightarrow>
                       (u, [\<lparr>pr_error = None, pr_response_exists = False, pr_response = None\<rparr>], Inr ()))))
      else
        (u, [\<lparr>pr_error = make_error invalid_message ''invalid message type'',
               pr_response_exists = False, pr_response = None\<rparr>], Inr ()))"


section \<open>The table of methods\<close>

lemma add_methods_find:
  "add_methods fn (map Some xs) ms =
   Inr (\<lambda>name. case ms name of Some m \<Rightarrow> Some m | None \<Rightarrow> find (\<lambda>m. me_name m = name) xs)"
proof (induction xs arbitrary: ms)
  case Nil
  show ?case by (auto split: option.split)
next
  case (Cons x xs)
  then show ?case by (auto simp: fun_eq_iff split: option.split)
qed

text \<open>
  The method server finds for a name the first method that was registered under it; when a null pointer
  was registered, construction fails.
\<close>

theorem methods_first_registered:
  "simple_method_server fn ps =
     (if None \<in> set ps then
        throw_error (make_error unexpected_nullptr (''unexpected null pointer for method at '' @ fn))
      else Inr (\<lambda>name. find (\<lambda>m. me_name m = name) (map the ps)))"
proof (cases "None \<in> set ps")
  case True
  have "None \<in> set ps \<Longrightarrow> add_methods fn ps ms =
    throw_error (make_error unexpected_nullptr (''unexpected null pointer for method at '' @ fn))" for ms
  proof (induction ps arbitrary: ms)
    case (Cons p ps)
    then show ?case by (cases p) (auto simp: throw_error_def)
  qed simp
  with True show ?thesis by (simp add: simple_method_server_def)
next
  case False
  then have "map Some (map the ps) = ps" by (induction ps) auto
  with add_methods_find [of fn "map the ps" Map.empty] False show ?thesis
    by (simp add: simple_method_server_def)
qed

section \<open>Parameters\<close>

lemma convert_elements_typed:
  assumes "list_all2 (\<lambda>c T. \<forall>x v. c x = Inr v \<longrightarrow> T v) cs Ts" and "list_all2 (\<lambda>T v. T v) Ts vs"
    and "convert_elements cs vs xs = Inr ws"
  shows "list_all2 (\<lambda>T v. T v) Ts ws"
  using assms
proof (induction cs vs xs arbitrary: Ts ws rule: convert_elements.induct)
  case (1 c cs v vs x xs)
  then show ?case by (fastforce simp: bindR_eq_Inr list_all2_Cons1 list_all2_Cons2)
next
  case (2 c cs v vs)
  then show ?case by (fastforce simp: bindR_eq_Inr list_all2_Cons1 list_all2_Cons2)
qed (auto simp: list_all2_Cons1 list_all2_Cons2)

text \<open>The parameter types of a function, as predicates on their values.\<close>

definition has_parameter_types :: "('u, 'v, 'r) user_function \<Rightarrow> ('v \<Rightarrow> bool) list \<Rightarrow> bool" where
  "has_parameter_types f Ts \<longleftrightarrow>
     list_all2 (\<lambda>c T. \<forall>x v. c x = Inr v \<longrightarrow> T v) (uf_convert f) Ts \<and>
     list_all2 (\<lambda>T v. T v) Ts (uf_defaults f)"

lemma convert_tuple_typed:
  assumes "has_parameter_types f Ts" and "convert_tuple (uf_convert f) (uf_defaults f) ob = Inr ps"
  shows "list_all2 (\<lambda>T v. T v) Ts ps"
  using assms convert_elements_typed by (auto simp: has_parameter_types_def convert_tuple_def split: if_splits)


section \<open>Answers\<close>

text \<open>
  \<open>object_of\<close> is the object the adaptor of the result type packs. A function is well behaved when it
  and its conversions return or throw, with texts a MessagePack string can hold.
\<close>

definition packs_as :: "('u, 'v, 'r) user_function \<Rightarrow> ('r \<Rightarrow> mobj) \<Rightarrow> bool" where
  "packs_as f object_of \<longleftrightarrow> (\<forall>v. uf_pack f v = Inr (pack_object (object_of v)))"

definition throws_text :: "'a result \<Rightarrow> bool" where
  "throws_text r \<longleftrightarrow> (\<forall>e. r = Inl e \<longrightarrow> (\<exists>x. e = Throw x \<and> length (exn_what x) < 2 ^ 32))"

definition well_behaved :: "('u, 'v, 'r) user_function \<Rightarrow> bool" where
  "well_behaved f \<longleftrightarrow>
     (\<forall>ps u. throws_text (snd (uf_function f ps u))) \<and>
     (\<forall>c x. c \<in> set (uf_convert f) \<longrightarrow> throws_text (c x))"

definition answer ::
    "('u, 'v, 'r) user_function \<Rightarrow> ('r \<Rightarrow> mobj) \<Rightarrow> message \<Rightarrow> 'u \<Rightarrow> 'u \<times> (string + mobj)" where
  "answer f object_of msg u =
     (case fm_invoke f msg u of
        (u, Inr v) \<Rightarrow> (u, Inr (object_of v))
      | (u, Inl (Throw x)) \<Rightarrow> (u, Inl (exn_what x))
      | (u, _) \<Rightarrow> (u, Inl []))"

definition answer_object :: "msgid_t \<Rightarrow> string + mobj \<Rightarrow> mobj" where
  "answer_object i a =
     (case a of
        Inr r \<Rightarrow> response_object i NIL r
      | Inl what \<Rightarrow> response_object i (STRING (string_bytes what)) NIL)"

lemma throws_text_Inr [simp]: "throws_text (Inr v)"
  by (simp add: throws_text_def)

lemma throws_text_bindR:
  "throws_text r \<Longrightarrow> (\<And>v. throws_text (f v)) \<Longrightarrow> throws_text (bindR r f)"
  by (cases r) (auto simp: throws_text_def)

lemma convert_elements_throws:
  assumes "\<And>c x. c \<in> set cs \<Longrightarrow> throws_text (c x)"
  shows "throws_text (convert_elements cs vs xs)"
  using assms
  by (induction cs vs xs rule: convert_elements.induct) (auto intro!: throws_text_bindR)

lemma fm_invoke_throws:
  assumes "well_behaved f" and "wf_message msg" and "msg_type msg \<noteq> response"
  shows "throws_text (snd (fm_invoke f msg u))"
proof -
  obtain ob where ob: "msg_params msg = Inr ob"
    using assms(2,3) by (auto simp: wf_message_def msg_params_def)
  have "throws_text (convert_tuple (uf_convert f) (uf_defaults f) ob)"
    using assms(1) convert_elements_throws [of "uf_convert f"]
    by (auto simp: well_behaved_def convert_tuple_def throws_text_def)
  then have "throws_text (msg_params_as (convert_tuple (uf_convert f) (uf_defaults f)) msg)"
    using ob by (auto simp: msg_params_as_def converted_def invalid_message_error_def throw_error_def
        throws_text_def make_error_data_def error_info_message_def)
  then show ?thesis
    using assms(1) by (auto simp: fm_invoke_def well_behaved_def throws_text_def split: sum.splits)
qed

lemma fm_process_request_answer:
  assumes "well_behaved f" and "packs_as f object_of" and "wf_message msg" and "msg_type msg \<noteq> response"
  shows "fm_process_request f msg u =
    (fst (answer f object_of msg u),
     Inr (Some (pack_object (answer_object (msg_id msg) (snd (answer f object_of msg u))))))"
proof -
  obtain u' r where r: "fm_invoke f msg u = (u', r)" by fastforce
  show ?thesis
  proof (cases r)
    case (Inl e)
    with r fm_invoke_throws [OF assms(1,3,4), of u] obtain x where "e = Throw x" "length (exn_what x) < 2 ^ 32"
      by (auto simp: throws_text_def)
    with r Inl show ?thesis
      by (simp add: fm_process_request_def answer_def answer_object_def error_response_def
          pack_string_object pack_message_objects)
  next
    case (Inr v)
    with r assms(2) show ?thesis
      by (simp add: fm_process_request_def answer_def answer_object_def error_response_def packs_as_def
          pack_message_objects)
  qed
qed

lemma do_process_request_answer:
  assumes "well_behaved f" and "packs_as f object_of" and "wf_message msg" and "msg_type msg = request"
    and "msg_method msg = Inr name" and "ms name = Some (function_method_executor name f)"
  shows "do_process_message ms msg u =
    (fst (answer f object_of msg u),
     [\<lparr>pr_error = None, pr_response_exists = True,
        pr_response = Some (pack_object (answer_object (msg_id msg) (snd (answer f object_of msg u))))\<rparr>],
     Inr ())"
proof -
  have "msg_type msg \<noteq> response" using assms(4) by (simp add: msgtype_defs)
  moreover obtain ob where "msg_params msg = Inr ob"
    using assms(3,4) by (auto simp: wf_message_def msg_params_def msgtype_defs)
  ultimately show ?thesis
    using fm_process_request_answer [OF assms(1-3), of u] assms(4-6)
    by (simp add: do_process_message_def function_method_executor_def)
qed


text \<open>
  A notification is never answered: whatever the method does, the handler is called once, without a
  response.
\<close>

theorem notification_not_answered:
  assumes "well_behaved f" and "wf_message msg" and "msg_type msg = notification"
    and "msg_method msg = Inr name" and "ms name = Some (function_method_executor name f)"
  shows "do_process_message ms msg u =
    (fst (fm_invoke f msg u),
     [\<lparr>pr_error = None, pr_response_exists = False, pr_response = None\<rparr>], Inr ())"
proof -
  have t: "msg_type msg \<noteq> response" "msg_type msg \<noteq> request" using assms(3) by (simp_all add: msgtype_defs)
  moreover obtain ob where "msg_params msg = Inr ob"
    using assms(2,3) t by (auto simp: wf_message_def msg_params_def)
  moreover obtain u' r where r: "fm_invoke f msg u = (u', r)" by fastforce
  moreover have "fm_process_notification f msg u = (u', Inr ())"
    using fm_invoke_throws [OF assms(1,2) t(1), of u] r
    by (cases r) (auto simp: fm_process_notification_def throws_text_def)
  ultimately show ?thesis
    using assms(3-5) by (simp add: do_process_message_def function_method_executor_def)
qed

text \<open>
  A request for a method that does not exist is reported with an error and without a response; its sender
  gets no answer.
\<close>

theorem unknown_method_no_response:
  assumes "wf_message msg" and "msg_type msg = request" and "msg_method msg = Inr name" and "ms name = None"
  shows "\<exists>p. do_process_message ms msg u = (u, [p], Inr ()) \<and> has_error (pr_error p) \<and>
    error_info_code (pr_error p) = error_code_value method_not_found \<and> \<not> pr_response_exists p"
proof -
  obtain ob where "msg_params msg = Inr ob"
    using assms(1,2) by (auto simp: wf_message_def msg_params_def msgtype_defs)
  with assms show ?thesis by (simp add: do_process_message_def not_found_def)
qed

text \<open>
  A message with fewer parameters than the method has is not rejected: the function is called with the
  default values of the missing ones. Additional parameters are ignored.
\<close>

theorem missing_parameters_default:
  assumes "msg_params msg = Inr (ARRAY xs)" and "list_all2 (\<lambda>c v. \<forall>x. c x = Inr x) (uf_convert f) (uf_defaults f)"
  shows "fm_invoke f msg u =
    uf_function f (take (length (uf_defaults f)) xs @ drop (length xs) (uf_defaults f)) u"
proof -
  have "convert_elements cs vs xs = Inr (take (length vs) xs @ drop (length xs) vs)"
    if "list_all2 (\<lambda>c v. \<forall>x. c x = Inr x) cs vs" for cs :: "(mobj \<Rightarrow> mobj result) list" and vs xs
    using that by (induction cs vs xs rule: convert_elements.induct) auto
  from this [OF assms(2)] assms(1) show ?thesis
    by (simp add: fm_invoke_def msg_params_as_def converted_def convert_tuple_def)
qed

section \<open>Examples\<close>

definition echo :: "(nat, mobj, mobj) user_function" where
  "echo = \<lparr>uf_convert = [Inr], uf_defaults = [NIL],
     uf_function = (\<lambda>ps u. (u + 1, Inr (hd ps))), uf_pack = (\<lambda>v. Inr (pack_object v))\<rparr>"

definition example_request :: "msgtype \<Rightarrow> mobj list \<Rightarrow> message" where
  "example_request ty ps =
     empty_message\<lparr>msg_type := ty, msg_id := 7, msg_method_name := ''echo'', msg_params_ptr := Some (ARRAY ps)\<rparr>"

lemma echo_ok: "well_behaved echo" "packs_as echo id" "has_parameter_types echo [\<lambda>_. True]"
  by (auto simp: echo_def well_behaved_def packs_as_def has_parameter_types_def)

lemma example_request_ok:
  "wf_message (example_request request ps)" "wf_message (example_request notification ps)"
  "msg_method (example_request request ps) = Inr ''echo''" "msg_method (example_request notification ps) = Inr ''echo''"
  by (simp_all add: example_request_def wf_message_def msg_method_def msgtype_defs)

lemma invoke_echo: "fm_invoke echo (example_request request [BOOLEAN True]) 0 = (1, Inr (BOOLEAN True))"
  by (simp add: fm_invoke_def echo_def example_request_def msg_params_as_def msg_params_def converted_def
      convert_tuple_def msgtype_defs)



theorem notification_not_answered_witness:
  "snd (do_process_message [''echo'' \<mapsto> function_method_executor ''echo'' echo] (example_request notification []) 0) =
    ([\<lparr>pr_error = None, pr_response_exists = False, pr_response = None\<rparr>], Inr ())"
  using notification_not_answered [OF echo_ok(1) example_request_ok(2) _ example_request_ok(4),
      of "[]" "[''echo'' \<mapsto> function_method_executor ''echo'' echo]" 0]
  by (simp add: example_request_def)

theorem unknown_method_no_response_witness:
  "\<exists>p. do_process_message Map.empty (example_request request []) (0 :: nat) = (0, [p], Inr ()) \<and>
    has_error (pr_error p) \<and> error_info_code (pr_error p) = error_code_value method_not_found \<and>
    \<not> pr_response_exists p"
  by (rule unknown_method_no_response [OF example_request_ok(1) _ example_request_ok(3)])
    (simp_all add: example_request_def)

theorem missing_parameters_default_witness:
  "fm_invoke echo (example_request request []) 0 = uf_function echo [NIL] 0"
  using missing_parameters_default [of "example_request request []" "[]" echo 0]
  by (simp add: echo_def example_request_def msg_params_def msgtype_defs)

end
