(* ===== verification/Thread_Pool.thy ===== *)
theory Thread_Pool
  imports Errors
begin

text \<open>
  \<open>thread_pool\<close> of \<^verbatim>\<open>src/thread_pool.cpp\<close>: threads that run \<open>io_context::run\<close>.

  Of the \<open>io_context\<close> the pool uses a queue of functions, whether it is stopped, and the work guard that keeps
  \<open>run\<close> from returning. A function runs to its end in one step; it returns or throws. The handler set
  with \<open>on_error\<close> is represented by the errors it is called with.

  The functions \<open>start\<close>, \<open>stop\<close> and \<open>post\<close> and the steps of the threads are interleaved in any
  order. Thread number \<open>i\<close> makes a step when it takes a function from the queue or returns from
  \<open>run\<close>.
\<close>

datatype thread_state = Running | Finished

record 'f thread_pool =
  tp_queue :: "'f list"
  tp_stopped :: bool
  tp_work_guard :: bool
  tp_num_threads :: nat
  tp_threads :: "thread_state list"
  tp_executed :: "'f list"
  tp_errors :: "error_info list"

definition tp_create :: "nat \<Rightarrow> 'f thread_pool" where
  "tp_create num_threads =
     \<lparr>tp_queue = [], tp_stopped = False, tp_work_guard = True, tp_num_threads = num_threads,
      tp_threads = [], tp_executed = [], tp_errors = []\<rparr>"

definition tp_start :: "'f thread_pool \<Rightarrow> 'f thread_pool" where
  "tp_start p =
     (if tp_threads p = [] then p\<lparr>tp_threads := replicate (tp_num_threads p) Running\<rparr> else p)"

text \<open>\<open>join\<close> waits until \<open>run\<close> has returned in every thread, which it does on a stopped context.\<close>

definition tp_stop :: "'f thread_pool \<Rightarrow> 'f thread_pool" where
  "tp_stop p =
     (if tp_stopped p then p
      else p\<lparr>tp_work_guard := False, tp_stopped := True, tp_threads := []\<rparr>)"

definition tp_post :: "'f thread_pool \<Rightarrow> 'f \<Rightarrow> 'f thread_pool" where
  "tp_post p f = p\<lparr>tp_queue := tp_queue p @ [f]\<rparr>"

definition process_thread_error :: "'f thread_pool \<Rightarrow> error_info \<Rightarrow> 'f thread_pool" where
  "process_thread_error p err = p\<lparr>tp_errors := tp_errors p @ [err]\<rparr>"

text \<open>The end of \<open>process_in_thread\<close> after an exception.\<close>

definition thread_error :: "exn \<Rightarrow> error_info" where
  "thread_error x =
     (case x of
        Mprpc_Exception info \<Rightarrow> info
      | _ \<Rightarrow> make_error unexpected_error (exn_what x))"

text \<open>
  One step of \<open>process_in_thread\<close> in thread \<open>i\<close>. \<open>run\<close> returns when the context is stopped; it stops
  the context when there is neither a function nor a guard.
\<close>

definition tp_thread_step ::
    "('f \<Rightarrow> unit result) \<Rightarrow> nat \<Rightarrow> 'f thread_pool \<Rightarrow> 'f thread_pool option" where
  "tp_thread_step run i p =
     (if i < length (tp_threads p) \<and> tp_threads p ! i = Running then
        if tp_stopped p then Some (p\<lparr>tp_threads := (tp_threads p)[i := Finished]\<rparr>)
        else
          (case tp_queue p of
             [] \<Rightarrow>
               if tp_work_guard p then None
               else Some (p\<lparr>tp_stopped := True, tp_threads := (tp_threads p)[i := Finished]\<rparr>)
           | f # fs \<Rightarrow>
               let p = p\<lparr>tp_queue := fs, tp_executed := tp_executed p @ [f]\<rparr> in
               (case run f of
                  Inr _ \<Rightarrow> Some p
                | Inl (Throw x) \<Rightarrow>
                    Some (process_thread_error (p\<lparr>tp_threads := (tp_threads p)[i := Finished]\<rparr>)
                      (thread_error x))
                | Inl _ \<Rightarrow> None))
      else None)"

datatype 'f pool_event = Start | Stop | Post 'f | Thread nat

fun pool_next :: "('f \<Rightarrow> unit result) \<Rightarrow> 'f thread_pool \<Rightarrow> 'f pool_event \<Rightarrow> 'f thread_pool option" where
  "pool_next run p Start = Some (tp_start p)"
| "pool_next run p Stop = Some (tp_stop p)"
| "pool_next run p (Post f) = Some (tp_post p f)"
| "pool_next run p (Thread i) = tp_thread_step run i p"

abbreviation pool_run ::
    "('f \<Rightarrow> unit result) \<Rightarrow> 'f thread_pool \<Rightarrow> 'f pool_event list \<Rightarrow> 'f thread_pool \<Rightarrow> bool" where
  "pool_run run \<equiv> trace (pool_next run)"

fun posted_functions :: "'f pool_event list \<Rightarrow> 'f list" where
  "posted_functions [] = []"
| "posted_functions (Post f # evs) = f # posted_functions evs"
| "posted_functions (_ # evs) = posted_functions evs"

definition running :: "'f thread_pool \<Rightarrow> nat" where
  "running p = length (filter (\<lambda>t. t = Running) (tp_threads p))"

definition throwing :: "('f \<Rightarrow> unit result) \<Rightarrow> 'f list \<Rightarrow> 'f list" where
  "throwing run fs = filter (\<lambda>f. \<exists>e. run f = Inl e) fs"


definition errors_of :: "('f \<Rightarrow> unit result) \<Rightarrow> 'f list \<Rightarrow> error_info list" where
  "errors_of run fs =
     concat (map (\<lambda>f. case run f of Inl (Throw x) \<Rightarrow> [thread_error x] | _ \<Rightarrow> []) fs)"

lemma posted_functions_append [simp]: "posted_functions (xs @ ys) = posted_functions xs @ posted_functions ys"
  by (induction xs rule: posted_functions.induct) simp_all

lemma tp_thread_stepE:
  assumes "tp_thread_step run i p = Some q"
  obtains (leaves) s where "q = p\<lparr>tp_stopped := s, tp_threads := (tp_threads p)[i := Finished]\<rparr>"
      "tp_stopped p \<or> \<not> tp_work_guard p" "tp_stopped p \<longrightarrow> s"
  | (executes) f fs where "tp_queue p = f # fs" "\<not> tp_stopped p" "run f = Inr ()"
      "q = p\<lparr>tp_queue := fs, tp_executed := tp_executed p @ [f]\<rparr>"
  | (throws) f fs x where "tp_queue p = f # fs" "\<not> tp_stopped p" "run f = Inl (Throw x)"
      "i < length (tp_threads p)" "tp_threads p ! i = Running"
      "q = p\<lparr>tp_queue := fs, tp_executed := tp_executed p @ [f], tp_threads := (tp_threads p)[i := Finished],
         tp_errors := tp_errors p @ [thread_error x]\<rparr>"
proof -
  have i: "i < length (tp_threads p)" "tp_threads p ! i = Running"
    using assms by (auto simp: tp_thread_step_def split: if_splits)
  show thesis
  proof (cases "tp_stopped p \<or> tp_queue p = []")
    case True
    with assms i show thesis
      by (intro leaves [of True]) (auto simp: tp_thread_step_def split: if_splits)
  next
    case False
    then obtain f fs where q: "tp_queue p = f # fs" by (cases "tp_queue p") auto
    show thesis
    proof (cases "run f")
      case (Inl e)
      with assms i False q throws show thesis
        by (cases e) (auto simp: tp_thread_step_def process_thread_error_def Let_def)
    next
      case (Inr u)
      with assms i False q executes show thesis by (auto simp: tp_thread_step_def Let_def)
    qed
  qed
qed


definition alive :: "('f \<Rightarrow> unit result) \<Rightarrow> nat \<Rightarrow> 'f thread_pool \<Rightarrow> bool" where
  "alive run n p \<longleftrightarrow>
     \<not> tp_stopped p \<and> tp_work_guard p \<and> tp_num_threads p = n \<and>
     (tp_threads p = [] \<longrightarrow> tp_executed p = []) \<and>
     (tp_threads p \<noteq> [] \<longrightarrow> running p + length (throwing run (tp_executed p)) = n)"

lemma running_finish:
  assumes "i < length (tp_threads p)" and "tp_threads p ! i = Running"
  shows "Suc (running (p\<lparr>tp_threads := (tp_threads p)[i := Finished]\<rparr>)) = running p"
proof -
  let ?ts = "tp_threads p"
  have ts: "?ts = take i ?ts @ Running # drop (Suc i) ?ts" using assms by (metis id_take_nth_drop)
  have "running p = length (filter (\<lambda>t. t = Running) (take i ?ts @ Running # drop (Suc i) ?ts))"
    unfolding running_def using ts by simp
  moreover have "?ts[i := Finished] = take i ?ts @ Finished # drop (Suc i) ?ts"
    using assms(1) by (simp add: upd_conv_take_nth_drop)
  ultimately show ?thesis by (simp add: running_def)
qed

lemma alive_step:
  assumes "alive run n p" and "pool_next run p ev = Some q" and "ev \<noteq> Stop"
  shows "alive run n q"
proof (cases ev)
  case (Thread i)
  with assms(2) have "tp_thread_step run i p = Some q" by simp
  then show ?thesis
  proof (cases rule: tp_thread_stepE)
    case (leaves s)
    with assms(1) show ?thesis by (simp add: alive_def)
  next
    case (executes f fs)
    from \<open>tp_thread_step run i p = Some q\<close> have "tp_threads p \<noteq> []"
      by (auto simp: tp_thread_step_def split: if_splits)
    with assms(1) executes show ?thesis by (simp add: alive_def running_def throwing_def)
  next
    case (throws f fs x)
    then have "tp_threads p \<noteq> []" by auto
    with assms(1) throws running_finish [OF throws(4,5)] show ?thesis
      by (simp add: alive_def running_def throwing_def)
  qed
next
  case Start
  with assms show ?thesis by (auto simp: alive_def tp_start_def running_def throwing_def split: if_splits)
qed (use assms in \<open>auto simp: alive_def tp_post_def running_def\<close>)

lemma alive_run:
  assumes "pool_run run (tp_create n) evs p" and "Stop \<notin> set evs"
  shows "alive run n p \<and> (Start \<in> set evs \<and> 0 < n \<longrightarrow> tp_threads p \<noteq> [])"
  using assms
proof induction
  case trace_start
  show ?case by (simp add: alive_def tp_create_def)
next
  case (trace_event evs q ev r)
  then have IH: "alive run n q" "Start \<in> set evs \<and> 0 < n \<longrightarrow> tp_threads q \<noteq> []" and ev: "ev \<noteq> Stop" by auto
  have num: "tp_num_threads q = n" using IH(1) by (simp add: alive_def)
  have "tp_threads r \<noteq> []" if "tp_threads q \<noteq> [] \<or> (ev = Start \<and> 0 < n)"
    using that trace_event.hyps(2) ev num
    by (cases ev) (auto simp: tp_start_def tp_post_def elim: tp_thread_stepE split: if_splits)
  with IH(2) alive_step [OF IH(1) trace_event.hyps(2) ev] show ?case by auto
qed


lemma stopped_run:
  assumes "pool_run run p evs q" and "tp_stopped p"
  shows "tp_stopped q \<and> tp_executed q = tp_executed p"
  using assms
proof induction
  case (trace_event evs q ev r)
  then show ?case
    by (cases ev) (auto simp: tp_start_def tp_stop_def tp_post_def elim: tp_thread_stepE)
qed simp

text \<open>
  A pool that is started again after \<open>stop\<close> is dead: its threads execute no function, and a
  second \<open>stop\<close> returns without joining them.
\<close>

theorem pool_restart_dead:
  assumes "pool_run run (tp_start (tp_stop p)) evs q"
  shows "tp_executed q = tp_executed p \<and> tp_stop q = q \<and>
    (tp_stopped p \<or> tp_threads (tp_stop (tp_start (tp_stop p))) = replicate (tp_num_threads p) Running)"
proof -
  have "tp_stopped (tp_start (tp_stop p))" "tp_executed (tp_start (tp_stop p)) = tp_executed p"
    by (simp_all add: tp_start_def tp_stop_def)
  with stopped_run [OF assms] show ?thesis by (simp add: tp_stop_def tp_start_def)
qed

section \<open>Examples\<close>

definition example_run_function :: "nat \<Rightarrow> unit result" where
  "example_run_function f = (if f = 0 then Inl (Throw Bad_Alloc) else Inr ())"

lemmas pool_exec_simps = tp_create_def tp_start_def tp_stop_def tp_post_def tp_thread_step_def
  process_thread_error_def example_run_function_def replicate_app_Cons_same

lemma example_pool:
  "\<exists>p. pool_run example_run_function (tp_create 2) [Start, Post 0, Post 1, Thread 1] p \<and>
     tp_queue p = [1] \<and> tp_executed p = [0]"
proof -
  have "\<exists>p. run_events (pool_next example_run_function) (tp_create 2) [Start, Post 0, Post 1, Thread 1] = Some p \<and>
     tp_queue p = [1] \<and> tp_executed p = [0]"
    by (simp add: pool_exec_simps numeral_2_eq_2)
  then show ?thesis by (blast intro: run_events_trace)
qed



theorem pool_restart_dead_witness:
  "\<exists>q. pool_run example_run_function (tp_start (tp_stop (tp_create 2))) [Post 1] q \<and> tp_executed q = []"
proof -
  obtain q where q: "pool_run example_run_function (tp_start (tp_stop (tp_create 2))) [Post 1] q"
    using run_events_trace [of "pool_next example_run_function" "tp_start (tp_stop (tp_create 2))" "[Post 1]"] by simp
  from pool_restart_dead [OF q] q show ?thesis by (auto simp: tp_create_def)
qed

end
