(* ===== verification/Client.thy ===== *)
theory Client
  imports Execution Thread_Pool
begin

text \<open>
  \<open>client\<close> of \<^verbatim>\<open>include/mprpc/client.h\<close>: requests that wait for their responses, found by
  message ID.

  The promise of a request and the futures made of it share a \<open>response_future_data\<close>; these are kept in a
  list, and a reference is a position in it. What the client asks of its connector and its thread pool is a
  list of actions, and the tasks its futures post are collected. The order in which an
  \<open>unordered_map\<close> is traversed is not specified; it is the parameter \<open>order\<close>, a list of the keys of the map.
\<close>

datatype client_action =
    Threads_Start
  | Threads_Stop
  | Connector_Shutdown
  | Connector_Read
  | Connector_Write message_data "msgid_t option"

record 'u client =
  cl_next_msgid :: msgid_t
  cl_requests :: "msgid_t \<rightharpoonup> nat"
  cl_futures :: "'u response_future_data list"
  cl_posted :: "'u effect list"

definition new_client :: "'u client" where
  "new_client = \<lparr>cl_next_msgid = 0, cl_requests = Map.empty, cl_futures = [], cl_posted = []\<rparr>"

definition client_start :: "'u client \<Rightarrow> 'u client \<times> client_action list" where
  "client_start c = (c, [Threads_Start, Connector_Read])"

definition client_stop :: "'u client \<Rightarrow> 'u client \<times> client_action list" where
  "client_stop c = (c, [Connector_Shutdown, Threads_Stop])"

text \<open>An operation on the shared data of a promise or future.\<close>

definition on_future ::
    "'u client \<Rightarrow> nat \<Rightarrow> ('u response_future_data \<Rightarrow> 'u future_step) \<Rightarrow> 'u client \<times> unit result" where
  "on_future c ref step =
     (if ref < length (cl_futures c) then
        (case step (cl_futures c ! ref) of
           (d, posts, r) \<Rightarrow>
             (c\<lparr>cl_futures := (cl_futures c)[ref := d], cl_posted := cl_posted c @ posts\<rparr>, r))
      else (c, Inl Undefined))"

section \<open>Requests\<close>

text \<open>
  One iteration of the loop of \<open>async_request\<close>; the second component is the result when the loop is
  left.
\<close>

definition request_step ::
    "string \<Rightarrow> bytes result \<Rightarrow> nat \<Rightarrow> 'u client \<times> (msgid_t \<times> message_data) result option \<Rightarrow>
     'u client \<times> (msgid_t \<times> message_data) result option" where
  "request_step method params ref = (\<lambda>(c, _).
     let msgid = cl_next_msgid c;
         c = c\<lparr>cl_next_msgid := msgid + 1\<rparr> in
     case pack_request msgid method params of
       Inl e \<Rightarrow> (c, Some (Inl e))
     | Inr msg \<Rightarrow>
         if cl_requests c msgid = None
         then (c\<lparr>cl_requests := (cl_requests c)(msgid \<mapsto> ref)\<rparr>, Some (Inr (msgid, msg)))
         else (c, None))"

definition do_write_request :: "msgid_t \<Rightarrow> message_data \<Rightarrow> client_action list" where
  "do_write_request msgid msg = [Connector_Write msg (Some msgid)]"

definition client_async_request ::
    "'u client \<Rightarrow> string \<Rightarrow> bytes result \<Rightarrow> 'u client \<times> client_action list \<times> nat result" where
  "client_async_request c method params =
     (let ref = length (cl_futures c);
          c = c\<lparr>cl_futures := cl_futures c @ [new_future_data]\<rparr> in
      case while_option (\<lambda>(c, r). r = None) (request_step method params ref) (c, None) of
        Some (c, Some (Inr (msgid, msg))) \<Rightarrow> (c, do_write_request msgid msg, Inr ref)
      | Some (c, Some (Inl e)) \<Rightarrow> (c, [], Inl e)
      | _ \<Rightarrow> (c, [], Inl Diverges))"

text \<open>
  \<open>request\<close> sends the request and takes the \<open>std::future\<close> of its typed future, which has the converter
  \<open>conv\<close> of the result type.
\<close>

definition client_get_future ::
    "(mobj \<Rightarrow> 'a result) \<Rightarrow> 'a completion client \<Rightarrow> nat \<Rightarrow> 'a completion client \<times> unit result" where
  "client_get_future conv c ref =
     on_future c ref (\<lambda>d. case typed_get_future conv (Some d) of Inl e \<Rightarrow> (d, [], Inl e) | Inr st \<Rightarrow> st)"

definition client_request ::
    "(mobj \<Rightarrow> 'a result) \<Rightarrow> 'a completion client \<Rightarrow> string \<Rightarrow> bytes result \<Rightarrow>
     'a completion client \<times> client_action list \<times> unit result" where
  "client_request conv c method params =
     (case client_async_request c method params of
        (c, acts, Inl e) \<Rightarrow> (c, acts, Inl e)
      | (c, acts, Inr ref) \<Rightarrow>
          (case client_get_future conv c ref of (c, r) \<Rightarrow> (c, acts, r)))"

text \<open>
  Then \<open>request\<close> waits for the \<open>std::future\<close> of the typed future; \<open>waited\<close> is its completion, or
  \<open>None\<close> when the timeout is over first.
\<close>

definition client_request_result :: "string \<Rightarrow> 'a completion option \<Rightarrow> 'a result" where
  "client_request_result method waited =
     (case waited of
        None \<Rightarrow> throw_error (make_error timeout (''timeout in synchronous request for '' @ method))
      | Some (Set_Value v) \<Rightarrow> Inr v
      | Some (Set_Exception err) \<Rightarrow> throw_error err)"

definition client_notify ::
    "'u client \<Rightarrow> string \<Rightarrow> bytes result \<Rightarrow> 'u client \<times> client_action list \<times> unit result" where
  "client_notify c method params =
     (case pack_notification method params of
        Inl e \<Rightarrow> (c, [], Inl e)
      | Inr msg \<Rightarrow> (c, [Connector_Write msg None], Inr ()))"

text \<open>The handler \<open>do_write_request\<close> passes to the connector.\<close>

definition on_request_written :: "'u client \<Rightarrow> msgid_t \<Rightarrow> error_info \<Rightarrow> 'u client \<times> unit result" where
  "on_request_written c msgid err =
     (if has_error err then
        (case cl_requests c msgid of
           None \<Rightarrow> (c, Inl (Throw Out_Of_Range))
         | Some ref \<Rightarrow>
             (case on_future c ref (\<lambda>d. rf_set_error d err) of
                (c, Inl e) \<Rightarrow> (c, Inl e)
              | (c, Inr _) \<Rightarrow> (c\<lparr>cl_requests := (cl_requests c)(msgid := None)\<rparr>, Inr ())))
      else (c, Inr ()))"

section \<open>Responses\<close>

fun set_errors :: "'u client \<Rightarrow> error_info \<Rightarrow> msgid_t list \<Rightarrow> 'u client \<times> unit result" where
  "set_errors c err [] = (c, Inr ())"
| "set_errors c err (i # ids) =
     (case cl_requests c i of
        None \<Rightarrow> set_errors c err ids
      | Some ref \<Rightarrow>
          (case on_future c ref (\<lambda>d. rf_set_error d err) of
             (c, Inl e) \<Rightarrow> (c, Inl e)
           | (c, Inr _) \<Rightarrow> set_errors c err ids))"

text \<open>The \<open>try\<close> block of \<open>on_read\<close>.\<close>

definition receive_response :: "'u client \<Rightarrow> message_data \<Rightarrow> 'u client \<times> unit result" where
  "receive_response c data =
     (case message_ctor data of
        Inl e \<Rightarrow> (c, Inl e)
      | Inr msg \<Rightarrow>
          if msg_type msg \<noteq> response then
            (c, throw_error (make_error invalid_message ''message type is not response''))
          else
            (case cl_requests c (msg_id msg) of
               None \<Rightarrow> (c, Inr ())
             | Some ref \<Rightarrow> on_future c ref (\<lambda>d. rf_set_response d msg)))"

definition client_on_read ::
    "((msgid_t \<rightharpoonup> nat) \<Rightarrow> msgid_t list) \<Rightarrow> 'u client \<Rightarrow> error_info \<Rightarrow> message_data \<Rightarrow>
     'u client \<times> client_action list \<times> unit result" where
  "client_on_read order c err data =
     (if has_error err then
        (case set_errors c err (order (cl_requests c)) of (c, r) \<Rightarrow> (c, [], r))
      else
        (case receive_response c data of
           (c, Inl (Throw (Mprpc_Exception info))) \<Rightarrow>
             (case set_errors c err (order (cl_requests c)) of (c, r) \<Rightarrow> (c, [Connector_Read], r))
         | (c, r) \<Rightarrow> (c, [Connector_Read], r)))"

section \<open>The invariant\<close>

definition order_ok :: "((msgid_t \<rightharpoonup> nat) \<Rightarrow> msgid_t list) \<Rightarrow> bool" where
  "order_ok order \<longleftrightarrow> (\<forall>m. distinct (order m) \<and> set (order m) = dom m)"

definition client_inv :: "'u client \<Rightarrow> bool" where
  "client_inv c \<longleftrightarrow>
     (\<forall>i ref. cl_requests c i = Some ref \<longrightarrow> ref < length (cl_futures c)) \<and>
     (\<forall>i j ref. cl_requests c i = Some ref \<and> cl_requests c j = Some ref \<longrightarrow> i = j)"

definition pending :: "'u client \<Rightarrow> msgid_t \<Rightarrow> bool" where
  "pending c i \<longleftrightarrow>
     (\<exists>ref. cl_requests c i = Some ref \<and> \<not> rf_has_response (cl_futures c ! ref))"


section \<open>Message IDs\<close>

lemma client_invD:
  assumes "client_inv c" and "cl_requests c i = Some ref"
  shows "ref < length (cl_futures c)" and "cl_requests c j = Some ref \<Longrightarrow> i = j"
  using assms by (auto simp: client_inv_def)

text \<open>The loop ends at the first unused ID, counting from the next one and wrapping around.\<close>

definition first_free :: "(msgid_t \<rightharpoonup> nat) \<Rightarrow> msgid_t \<Rightarrow> nat \<Rightarrow> bool" where
  "first_free m i k \<longleftrightarrow> m (i + of_nat k) = None \<and> (\<forall>j < k. m (i + of_nat j) \<noteq> None)"

lemma first_free_exists:
  assumes "m j = None"
  shows "\<exists>k. first_free m i k"
proof -
  have "m (i + of_nat (unat (j - i))) = None" using assms by simp
  then show ?thesis
    unfolding first_free_def
    using exists_least_iff [of "\<lambda>k. m (i + of_nat k) = None"] by blast
qed

lemma first_free_Suc:
  assumes "first_free m i (Suc k)"
  shows "first_free m (i + 1) k" and "m i \<noteq> None"
proof -
  have "m (i + of_nat (Suc j)) \<noteq> None" if "j < k" for j using assms that unfolding first_free_def by blast
  moreover have "m (i + of_nat (Suc k)) = None" using assms unfolding first_free_def by blast
  ultimately show "first_free m (i + 1) k" by (simp add: first_free_def add.assoc)
  have "m (i + of_nat 0) \<noteq> None" using assms unfolding first_free_def by blast
  then show "m i \<noteq> None" by simp
qed

lemma request_loop:
  assumes "first_free (cl_requests c) (cl_next_msgid c) k"
    and "\<And>i. pack_request i method params = Inr (msg i)"
  shows "while_option (\<lambda>(c, r). r = None) (request_step method params ref) (c, None) =
    (let i = cl_next_msgid c + of_nat k in
     Some (c\<lparr>cl_next_msgid := i + 1, cl_requests := (cl_requests c)(i \<mapsto> ref)\<rparr>, Some (Inr (i, msg i))))"
  using assms(1)
proof (induction k arbitrary: c)
  case 0
  then show ?case
    by (subst while_option_unfold, simp add: request_step_def assms(2) first_free_def Let_def)
      (subst while_option_unfold, simp)
next
  case (Suc k)
  let ?c = "c\<lparr>cl_next_msgid := cl_next_msgid c + 1\<rparr>"
  have "first_free (cl_requests ?c) (cl_next_msgid ?c) k" using first_free_Suc(1) [OF Suc.prems] by simp
  note IH = Suc.IH [OF this]
  have "cl_requests c (cl_next_msgid c) \<noteq> None" using first_free_Suc(2) [OF Suc.prems] .
  then have "while_option (\<lambda>(c, r). r = None) (request_step method params ref) (c, None) =
    while_option (\<lambda>(c, r). r = None) (request_step method params ref) (?c, None)"
    by (subst while_option_unfold) (auto simp: request_step_def assms(2) Let_def)
  with IH show ?case by (simp add: Let_def algebra_simps)
qed

lemma request_loop_full:
  assumes "\<And>i. cl_requests c i \<noteq> None" and "\<And>i. pack_request i method params = Inr (msg i)"
  shows "while_option (\<lambda>(c, r). r = None) (request_step method params ref) (c, None) = None"
proof -
  let ?P = "\<lambda>(c :: 'a client, r :: (msgid_t \<times> message_data) result option). r = None \<and> (\<forall>i. cl_requests c i \<noteq> None)"
  have "False" if "while_option (\<lambda>(c, r). r = None) (request_step method params ref) (c, None) = Some s" for s
  proof -
    have "?P s"
    proof (rule while_option_rule [OF _ that, where P = ?P])
      show "?P (c, None)" using assms(1) by simp
    next
      fix s
      assume "?P s"
      moreover from this have "cl_requests (fst s) (cl_next_msgid (fst s)) \<noteq> None" by auto
      ultimately show "?P (request_step method params ref s)"
        by (auto simp: request_step_def assms(2) Let_def split: prod.splits)
    qed
    with while_option_stop [OF that] show False by auto
  qed
  then show ?thesis by (cases "while_option (\<lambda>(c, r). r = None) (request_step method params ref) (c, None)") auto
qed

lemma pack_request_cases:
  obtains msg where "\<And>i. pack_request i method params = Inr (msg i)"
  | e where "\<And>i. pack_request i method params = Inl e"
proof (cases "pack_string method")
  case (Inl e)
  with that(2) [of e] show thesis
    by (simp add: pack_request_def pack_data_def pack_tuple_def checked_get_container_size_def)
next
  case Inr: (Inr s)
  show thesis
  proof (cases params)
    case (Inl e)
    with Inr that(2) [of e] show thesis
      by (simp add: pack_request_def pack_data_def pack_tuple_def checked_get_container_size_def)
  next
    case (Inr p)
    with \<open>pack_string method = Inr s\<close> show thesis
      by (intro that(1) [of "\<lambda>i. Some (pack_array (Suc (Suc (Suc (Suc 0)))) @ pack_imp_int32 request @ pack_imp_uint32 (uint i) @ s @ p)"])
        (simp add: pack_request_def pack_data_def pack_tuple_def checked_get_container_size_def)
  qed
qed

text \<open>
  C16. \<open>async_request\<close> returns unless all message IDs are in use by requests the client has kept: it then
  searches forever. It never returns with an ID that is in use.
\<close>

theorem async_request_returns:
  assumes "\<And>i e. pack_request i method params \<noteq> Inl e"
  shows "snd (snd (client_async_request c method params)) =
    (if \<exists>i. cl_requests c i = None then Inr (length (cl_futures c)) else Inl Diverges)"
proof -
  obtain msg where msg: "\<And>i. pack_request i method params = Inr (msg i)"
    using pack_request_cases [of "method" "params"] assms by metis
  let ?c = "c\<lparr>cl_futures := cl_futures c @ [new_future_data]\<rparr>"
  show ?thesis
  proof (cases "\<exists>i. cl_requests c i = None")
    case True
    then obtain j where "cl_requests ?c j = None" by auto
    then obtain k where "first_free (cl_requests ?c) (cl_next_msgid ?c) k"
      using first_free_exists [of "cl_requests ?c" j] by blast
    from request_loop [OF this msg] True show ?thesis by (simp add: client_async_request_def Let_def)
  next
    case False
    with request_loop_full [of ?c, OF _ msg] show ?thesis by (auto simp: client_async_request_def Let_def)
  qed
qed

lemma async_request_free:
  assumes "client_inv c" and "cl_requests c j = None" and "length method < 2 ^ 32"
  shows "\<exists>i. cl_requests c i = None \<and>
    client_async_request c method (Inr (pack_object p)) =
      (c\<lparr>cl_futures := cl_futures c @ [new_future_data], cl_next_msgid := i + 1,
         cl_requests := (cl_requests c)(i \<mapsto> length (cl_futures c))\<rparr>,
       [Connector_Write (Some (pack_object (request_object i method p))) (Some i)],
       Inr (length (cl_futures c))) \<and>
    client_inv (fst (client_async_request c method (Inr (pack_object p))))"
proof -
  let ?c = "c\<lparr>cl_futures := cl_futures c @ [new_future_data]\<rparr>"
  obtain k where k: "first_free (cl_requests ?c) (cl_next_msgid ?c) k"
    using first_free_exists [of "cl_requests c" j] assms(2) by auto
  let ?i = "cl_next_msgid c + of_nat k"
  have free: "cl_requests c ?i = None" using k by (simp add: first_free_def)
  have eq: "client_async_request c method (Inr (pack_object p)) =
      (c\<lparr>cl_futures := cl_futures c @ [new_future_data], cl_next_msgid := ?i + 1,
         cl_requests := (cl_requests c)(?i \<mapsto> length (cl_futures c))\<rparr>,
       [Connector_Write (Some (pack_object (request_object ?i method p))) (Some ?i)],
       Inr (length (cl_futures c)))"
    using request_loop [OF k pack_message_objects(1) [OF assms(3)], where ref = "length (cl_futures c)"]
    by (simp add: client_async_request_def do_write_request_def Let_def)
  have "ref < length (cl_futures c)" if "cl_requests c i = Some ref" for i ref
    using client_invD(1) [OF assms(1) that] .
  then have "client_inv (fst (client_async_request c method (Inr (pack_object p))))"
    using assms(1) unfolding eq
    by (auto simp: client_inv_def less_Suc_eq)
  with eq free show ?thesis by blast
qed


section \<open>Responses\<close>

lemma client_on_read_response:
  assumes "client_inv c" and "message_ctor data = Inr msg" and "msg_type msg = response"
    and "cl_requests c (msg_id msg) = Some ref" and "\<not> rf_has_response (cl_futures c ! ref)"
  shows "client_on_read order c None data =
    (c\<lparr>cl_futures := (cl_futures c)[ref := fst (rf_set_response (cl_futures c ! ref) msg)],
       cl_posted := cl_posted c @ fst (snd (rf_set_response (cl_futures c ! ref) msg))\<rparr>,
     [Connector_Read], Inr ())"
proof -
  have "ref < length (cl_futures c)" using client_invD(1) [OF assms(1,4)] .
  with assms(2-5) show ?thesis
    by (auto simp: client_on_read_def receive_response_def has_error_def on_future_def rf_set_response_def Let_def
        split: option.split)
qed


text \<open>Setting an error on all pending requests.\<close>

lemma set_error_pending:
  "\<not> rf_has_response d \<Longrightarrow> snd (snd (rf_set_error d err)) = Inr () \<and> rf_has_response (fst (rf_set_error d err))"
  by (auto simp: rf_set_error_def Let_def split: option.split)

definition error_posts :: "'u client \<Rightarrow> error_info \<Rightarrow> msgid_t \<Rightarrow> 'u effect list" where
  "error_posts c err i = fst (snd (rf_set_error (cl_futures c ! the (cl_requests c i)) err))"

lemma set_errors_all:
  assumes "client_inv c" and "distinct ids" and "\<And>i. i \<in> set ids \<Longrightarrow> pending c i"
  shows "\<exists>c'. set_errors c err ids = (c', Inr ()) \<and>
    cl_posted c' = cl_posted c @ concat (map (error_posts c err) ids) \<and>
    (\<forall>ref < length (cl_futures c). cl_futures c' ! ref =
       (if \<exists>i \<in> set ids. cl_requests c i = Some ref then fst (rf_set_error (cl_futures c ! ref) err)
        else cl_futures c ! ref))"
  using assms
proof (induction ids arbitrary: c)
  case Nil
  then show ?case by simp
next
  case (Cons i ids)
  obtain ref where ref: "cl_requests c i = Some ref" "\<not> rf_has_response (cl_futures c ! ref)"
    using Cons.prems(3) [of i] by (auto simp: pending_def)
  have lt: "ref < length (cl_futures c)" using client_invD(1) [OF Cons.prems(1) ref(1)] .
  obtain d posts where d: "rf_set_error (cl_futures c ! ref) err = (d, posts, Inr ())"
    using set_error_pending [OF ref(2), of err] by (cases "rf_set_error (cl_futures c ! ref) err") auto
  let ?c = "c\<lparr>cl_futures := (cl_futures c)[ref := d], cl_posted := cl_posted c @ posts\<rparr>"
  have inv: "client_inv ?c" using Cons.prems(1) by (simp add: client_inv_def)
  have other: "cl_requests c j \<noteq> Some ref" if "j \<in> set ids" for j
    using client_invD(2) [OF Cons.prems(1) ref(1), of j] that Cons.prems(2) by auto
  have pend: "pending ?c j" and "error_posts ?c err j = error_posts c err j" if "j \<in> set ids" for j
    using Cons.prems(3) [of j] that other [OF that] by (auto simp: pending_def error_posts_def nth_list_update)
  then have posts: "map (error_posts ?c err) ids = map (error_posts c err) ids" by simp
  from Cons.IH [OF inv _ pend] Cons.prems(2) obtain c' where
    c': "set_errors ?c err ids = (c', Inr ())"
      "cl_posted c' = (cl_posted c @ posts) @ concat (map (error_posts c err) ids)"
      "\<forall>r < length (cl_futures c). cl_futures c' ! r =
        (if \<exists>i \<in> set ids. cl_requests c i = Some r then fst (rf_set_error ((cl_futures c)[ref := d] ! r) err)
         else (cl_futures c)[ref := d] ! r)"
    using posts by auto
  have "set_errors c err (i # ids) = (c', Inr ())" using ref lt d c'(1) by (simp add: on_future_def)
  moreover have "cl_posted c' = cl_posted c @ concat (map (error_posts c err) (i # ids))"
    using c'(2) ref(1) d by (simp add: error_posts_def)
  moreover have "cl_futures c' ! r =
      (if \<exists>i \<in> set (i # ids). cl_requests c i = Some r then fst (rf_set_error (cl_futures c ! r) err)
       else cl_futures c ! r)" if "r < length (cl_futures c)" for r
    using c'(3) that other ref(1) d lt by (cases "r = ref") (auto simp: nth_list_update)
  ultimately show ?case by blast
qed

lemma set_errors_order:
  assumes "client_inv c" and "order_ok order" and "\<And>i. cl_requests c i \<noteq> None \<Longrightarrow> pending c i"
  obtains c' where "set_errors c err (order (cl_requests c)) = (c', Inr ())"
    "cl_posted c' = cl_posted c @ concat (map (error_posts c err) (order (cl_requests c)))"
    "\<forall>ref < length (cl_futures c). cl_futures c' ! ref =
       (if ref \<in> ran (cl_requests c) then fst (rf_set_error (cl_futures c ! ref) err) else cl_futures c ! ref)"
proof -
  have ids: "distinct (order (cl_requests c))" "set (order (cl_requests c)) = dom (cl_requests c)"
    using assms(2) by (auto simp: order_ok_def)
  have "(\<exists>i \<in> set (order (cl_requests c)). cl_requests c i = Some ref) \<longleftrightarrow> ref \<in> ran (cl_requests c)" for ref
    using ids(2) by (auto simp: ran_def dom_def)
  moreover have "pending c i" if "i \<in> set (order (cl_requests c))" for i using assms(3) [of i] that ids(2) by auto
  ultimately show thesis using set_errors_all [OF assms(1) ids(1), of err] that by auto
qed




section \<open>Examples\<close>

definition ascending_order :: "(msgid_t \<rightharpoonup> nat) \<Rightarrow> msgid_t list" where
  "ascending_order m = sorted_list_of_set (dom m)"

lemma ascending_order_ok: "order_ok ascending_order"
  by (simp add: order_ok_def ascending_order_def)

definition example_client :: "string response_future_data \<Rightarrow> string client" where
  "example_client d = \<lparr>cl_next_msgid = 1, cl_requests = [0 \<mapsto> 0], cl_futures = [d], cl_posted = []\<rparr>"

definition example_handler :: "string on_response" where
  "example_handler err msg = ([if has_error err then ''failure'' else ''success''], Inr ())"

definition waiting_future :: "string response_future_data" where
  "waiting_future = new_future_data\<lparr>rf_has_handler := True, rf_on_response := Some example_handler\<rparr>"

lemma new_client_inv: "client_inv new_client"
  by (simp add: client_inv_def new_client_def)

lemma example_client_ok:
  "client_inv (example_client d)" "cl_requests (example_client d) 0 = Some 0"
  "cl_requests (example_client waiting_future) i \<noteq> None \<Longrightarrow> pending (example_client waiting_future) i"
  by (auto simp: client_inv_def example_client_def pending_def waiting_future_def new_future_data_def
      split: if_splits)

theorem async_request_returns_witness:
  "snd (snd (client_async_request new_client ''f'' (Inr (pack_object NIL)))) = Inr 0"
  using async_request_returns [of "''f''" "Inr (pack_object NIL)" new_client]
  by (simp add: pack_message_objects) (simp add: new_client_def)






end
