(* ===== verification/Server.thy ===== *)
theory Server
  imports Client
begin

text \<open>
  Servers: \<open>server_base\<close> of \<^verbatim>\<open>include/mprpc/impl/server_base.h\<close>, which accepts
  sessions, reads their messages and writes the responses, and \<open>server\<close> of
  \<^verbatim>\<open>include/mprpc/server.h\<close>, which passes the messages to a method server.

  Acceptors and sessions belong to a transport. They are numbers here; what the server asks of them is a
  list of actions. The functions it posts are the tasks of its thread pool, and so are the completion handlers
  the transport calls in a thread of the pool. The order in which \<open>stop\<close> visits the \<open>unordered_set\<close> of
  sessions is a parameter.
\<close>

datatype server_action =
    Accept_Session nat
  | Read_Session nat
  | Write_Session nat message_data
  | Shutdown_Session nat

text \<open>
  \<open>Accepted\<close> and \<open>Message_Read\<close> are the handlers of \<open>do_accept\<close> and \<open>do_read\<close>; the latter holds a weak
  pointer, and \<open>held\<close> says whether the session still exists. \<open>Process\<close> and \<open>Remove\<close> are the functions posted by
  \<open>simple_method_server::async_process_message\<close> and \<open>async_remove_session\<close>.
\<close>

datatype server_task =
    Accepted nat error_info "nat option"
  | Message_Read nat bool error_info message_data
  | Process nat message
  | Remove nat

record 'u server =
  sv_methods :: "'u methods"
  sv_acceptors :: "nat list"
  sv_sessions :: "nat set"
  sv_threads :: "server_task thread_pool"
  sv_user :: 'u
  sv_actions :: "server_action list"

fun require_acceptors :: "string \<Rightarrow> nat option list \<Rightarrow> nat list result" where
  "require_acceptors fn [] = Inr []"
| "require_acceptors fn (p # ps) =
     bindR (require_nonull p (Some ''acceptor'') (Some fn)) (\<lambda>a.
     bindR (require_acceptors fn ps) (\<lambda>as. Inr (a # as)))"

text \<open>\<open>fn\<close> and \<open>base_fn\<close> are the names of the two constructors in error messages.\<close>

definition new_server ::
    "string \<Rightarrow> string \<Rightarrow> server_task thread_pool option \<Rightarrow> nat option list \<Rightarrow> 'u methods option \<Rightarrow> 'u \<Rightarrow> 'u server result" where
  "new_server fn base_fn threads acceptors ms u =
     bindR (require_nonull threads (Some ''threads'') (Some base_fn)) (\<lambda>p.
     bindR (require_acceptors base_fn acceptors) (\<lambda>as.
     bindR (require_nonull ms (Some ''method_server'') (Some fn)) (\<lambda>ms.
     Inr \<lparr>sv_methods = ms, sv_acceptors = as, sv_sessions = {}, sv_threads = p, sv_user = u, sv_actions = []\<rparr>)))"

definition sv_act :: "server_action \<Rightarrow> 'u server \<Rightarrow> 'u server" where
  "sv_act a s = s\<lparr>sv_actions := sv_actions s @ [a]\<rparr>"

definition sv_post :: "server_task \<Rightarrow> 'u server \<Rightarrow> 'u server" where
  "sv_post t s = s\<lparr>sv_threads := tp_post (sv_threads s) t\<rparr>"

definition do_accept :: "nat \<Rightarrow> 'u server \<Rightarrow> 'u server" where
  "do_accept a = sv_act (Accept_Session a)"

text \<open>
  What \<open>do_read\<close> does depends on the session. The sessions of a stream start an operation and return; other
  sessions may call the handler at once. The functions that read take it as their argument \<open>rd\<close>.
\<close>

type_synonym 'u read_op = "nat \<Rightarrow> 'u server \<Rightarrow> 'u server \<times> unit result"

definition do_read :: "'u read_op" where
  "do_read sess s = (sv_act (Read_Session sess) s, Inr ())"

definition server_start :: "'u server \<Rightarrow> 'u server" where
  "server_start s = fold do_accept (sv_acceptors s) (s\<lparr>sv_threads := tp_start (sv_threads s)\<rparr>)"

definition server_stop :: "(nat set \<Rightarrow> nat list) \<Rightarrow> 'u server \<Rightarrow> 'u server" where
  "server_stop order s =
     (let s = fold (\<lambda>sess. sv_act (Shutdown_Session sess)) (order (sv_sessions s)) s in
      s\<lparr>sv_threads := tp_stop (sv_threads s)\<rparr>)"

definition async_remove_session :: "nat \<Rightarrow> 'u server \<Rightarrow> 'u server" where
  "async_remove_session sess = sv_post (Remove sess)"

text \<open>The function \<open>async_remove_session\<close> posts.\<close>

definition remove_session :: "nat \<Rightarrow> 'u server \<Rightarrow> 'u server" where
  "remove_session sess s = (sv_act (Shutdown_Session sess) s)\<lparr>sv_sessions := sv_sessions s - {sess}\<rparr>"

definition sv_on_accept ::
    "'u read_op \<Rightarrow> nat \<Rightarrow> error_info \<Rightarrow> nat option \<Rightarrow> 'u server \<Rightarrow> 'u server \<times> unit result" where
  "sv_on_accept rd a err session s =
     (if has_error err then (do_accept a s, Inr ())
      else
        (case session of
           None \<Rightarrow> (s, Inl Undefined)
         | Some sess \<Rightarrow>
             (case rd sess (s\<lparr>sv_sessions := insert sess (sv_sessions s)\<rparr>) of
                (s, Inl e) \<Rightarrow> (s, Inl e)
              | (s, Inr _) \<Rightarrow> (do_accept a s, Inr ()))))"

text \<open>\<open>server::async_process_message\<close> handles \<open>mprpc::exception\<close> only.\<close>

definition async_process_message :: "nat \<Rightarrow> message_data \<Rightarrow> 'u server \<Rightarrow> 'u server \<times> unit result" where
  "async_process_message sess data s =
     (case message_ctor data of
        Inr msg \<Rightarrow> (sv_post (Process sess msg) s, Inr ())
      | Inl (Throw (Mprpc_Exception info)) \<Rightarrow> (async_remove_session sess s, Inr ())
      | Inl e \<Rightarrow> (s, Inl e))"

definition sv_on_read ::
    "'u read_op \<Rightarrow> nat \<Rightarrow> error_info \<Rightarrow> message_data \<Rightarrow> 'u server \<Rightarrow> 'u server \<times> unit result" where
  "sv_on_read rd sess err data s =
     (if has_error err then (async_remove_session sess s, Inr ())
      else
        (case async_process_message sess data s of
           (s, Inl e) \<Rightarrow> (s, Inl e)
         | (s, Inr _) \<Rightarrow> rd sess s))"

definition on_execution :: "nat \<Rightarrow> processed \<Rightarrow> 'u server \<Rightarrow> 'u server" where
  "on_execution sess pr s =
     (if has_error (pr_error pr) then s
      else if \<not> pr_response_exists pr then s
      else sv_act (Write_Session sess (pr_response pr)) s)"

section \<open>Threads\<close>

fun run_task :: "server_task \<Rightarrow> 'u server \<Rightarrow> 'u server \<times> unit result" where
  "run_task (Accepted a err session) s = sv_on_accept do_read a err session s"
| "run_task (Message_Read sess held err data) s = (if held then sv_on_read do_read sess err data s else (s, Inr ()))"
| "run_task (Process sess msg) s =
     (case do_process_message (sv_methods s) msg (sv_user s) of
        (u, prs, r) \<Rightarrow> (fold (on_execution sess) prs (s\<lparr>sv_user := u\<rparr>), r))"
| "run_task (Remove sess) s = (remove_session sess s, Inr ())"

text \<open>A step of thread \<open>i\<close>; a task the thread takes acts on the server as \<open>run\<close> says.\<close>

definition thread_with ::
    "(server_task \<Rightarrow> 'u server \<Rightarrow> 'u server \<times> unit result) \<Rightarrow> nat \<Rightarrow> 'u server \<Rightarrow> 'u server option" where
  "thread_with run i s =
     (case tp_thread_step (\<lambda>t. snd (run t s)) i (sv_threads s) of
        None \<Rightarrow> None
      | Some p \<Rightarrow>
          if tp_executed p = tp_executed (sv_threads s) then Some (s\<lparr>sv_threads := p\<rparr>)
          else Some (fst (run (hd (tp_queue (sv_threads s))) (s\<lparr>sv_threads := p\<rparr>))))"

abbreviation server_thread :: "nat \<Rightarrow> 'u server \<Rightarrow> 'u server option" where
  "server_thread \<equiv> thread_with run_task"

abbreviation queue_first :: "server_task \<Rightarrow> 'u server \<Rightarrow> 'u server" where
  "queue_first t s \<equiv> s\<lparr>sv_threads := (sv_threads s)\<lparr>tp_queue := t # tp_queue (sv_threads s)\<rparr>\<rparr>"

section \<open>Events\<close>

fun accepted_by :: "nat \<Rightarrow> server_task \<Rightarrow> bool" where
  "accepted_by a (Accepted a' _ _) = (a' = a)"
| "accepted_by a _ = False"

fun read_from :: "nat \<Rightarrow> server_task \<Rightarrow> bool" where
  "read_from sess (Message_Read sess' _ _ _) = (sess' = sess)"
| "read_from sess _ = False"

definition accepts_started :: "nat \<Rightarrow> 'u server \<Rightarrow> nat" where
  "accepts_started a s = count_list (sv_actions s) (Accept_Session a)"

definition accepts_done :: "nat \<Rightarrow> 'u server \<Rightarrow> nat" where
  "accepts_done a s = length (filter (accepted_by a) (tp_executed (sv_threads s)))"

definition reads_started :: "nat \<Rightarrow> 'u server \<Rightarrow> nat" where
  "reads_started sess s = count_list (sv_actions s) (Read_Session sess)"

definition reads_done :: "nat \<Rightarrow> 'u server \<Rightarrow> nat" where
  "reads_done sess s = length (filter (read_from sess) (tp_executed (sv_threads s)))"

text \<open>
  A transport completes an operation once, after it was started. An accepted session is a new object, and a
  session the server holds exists.
\<close>

fun can_complete :: "'u server \<Rightarrow> server_task \<Rightarrow> bool" where
  "can_complete s (Accepted a err session) \<longleftrightarrow>
     accepts_done a s < accepts_started a s \<and>
     (case session of None \<Rightarrow> has_error err | Some sess \<Rightarrow> Read_Session sess \<notin> set (sv_actions s))"
| "can_complete s (Message_Read sess held err data) \<longleftrightarrow>
     reads_done sess s < reads_started sess s \<and> (held \<or> sess \<notin> sv_sessions s)"
| "can_complete s _ \<longleftrightarrow> False"

text \<open>
  A thread of the pool also runs functions of the transport that do not call the server; when such a function
  throws, the thread ends as after a throwing task.
\<close>

definition transport_step :: "nat \<Rightarrow> unit result \<Rightarrow> 'u server \<Rightarrow> 'u server option" where
  "transport_step i r s =
     (if i < length (tp_threads (sv_threads s)) \<and> tp_threads (sv_threads s) ! i = Running \<and>
         \<not> tp_stopped (sv_threads s)
      then
        (case r of
           Inr _ \<Rightarrow> Some s
         | Inl (Throw x) \<Rightarrow>
             Some (s\<lparr>sv_threads := process_thread_error
               ((sv_threads s)\<lparr>tp_threads := (tp_threads (sv_threads s))[i := Finished]\<rparr>) (thread_error x)\<rparr>)
         | Inl _ \<Rightarrow> None)
      else None)"

datatype server_event =
    Server_Stop
  | Thread_Step nat
  | Complete nat server_task
  | Transport_Step nat "unit result"

fun server_next :: "(nat set \<Rightarrow> nat list) \<Rightarrow> 'u server \<Rightarrow> server_event \<Rightarrow> 'u server option" where
  "server_next order s Server_Stop = Some (server_stop order s)"
| "server_next order s (Thread_Step i) = server_thread i s"
| "server_next order s (Complete i t) =
     (if can_complete s t \<and> \<not> tp_stopped (sv_threads s)
      then server_thread i (queue_first t s)
      else None)"
| "server_next order s (Transport_Step i r) = transport_step i r s"

abbreviation server_run ::
    "(nat set \<Rightarrow> nat list) \<Rightarrow> 'u server \<Rightarrow> server_event list \<Rightarrow> 'u server \<Rightarrow> bool" where
  "server_run order \<equiv> trace (server_next order)"


section \<open>Steps\<close>

declare do_read_def [simp]

lemma sv_act_simps [simp]:
  "sv_methods (sv_act a s) = sv_methods s" "sv_acceptors (sv_act a s) = sv_acceptors s"
  "sv_sessions (sv_act a s) = sv_sessions s" "sv_threads (sv_act a s) = sv_threads s"
  "sv_user (sv_act a s) = sv_user s" "sv_actions (sv_act a s) = sv_actions s @ [a]"
  by (simp_all add: sv_act_def)

lemma sv_post_simps [simp]:
  "sv_methods (sv_post t s) = sv_methods s" "sv_acceptors (sv_post t s) = sv_acceptors s"
  "sv_sessions (sv_post t s) = sv_sessions s" "sv_user (sv_post t s) = sv_user s"
  "sv_actions (sv_post t s) = sv_actions s" "tp_executed (sv_threads (sv_post t s)) = tp_executed (sv_threads s)"
  "tp_queue (sv_threads (sv_post t s)) = tp_queue (sv_threads s) @ [t]"
  by (simp_all add: sv_post_def tp_post_def)

definition replies :: "nat \<Rightarrow> processed list \<Rightarrow> server_action list" where
  "replies sess prs =
     concat (map (\<lambda>pr. if has_error (pr_error pr) \<or> \<not> pr_response_exists pr then []
                        else [Write_Session sess (pr_response pr)]) prs)"

lemma fold_on_execution:
  "fold (on_execution sess) prs s = s\<lparr>sv_actions := sv_actions s @ replies sess prs\<rparr>"
  by (induction prs arbitrary: s) (auto simp: replies_def on_execution_def sv_act_def)

lemma fold_shutdown:
  "fold (\<lambda>sess. sv_act (Shutdown_Session sess)) xs s = s\<lparr>sv_actions := sv_actions s @ map Shutdown_Session xs\<rparr>"
  by (induction xs arbitrary: s) (simp_all add: sv_act_def)

lemma server_stop_simps [simp]:
  "sv_sessions (server_stop order s) = sv_sessions s" "sv_user (server_stop order s) = sv_user s"
  "sv_methods (server_stop order s) = sv_methods s"
  "sv_actions (server_stop order s) = sv_actions s @ map Shutdown_Session (order (sv_sessions s))"
  "tp_queue (sv_threads (server_stop order s)) = tp_queue (sv_threads s)"
  "tp_executed (sv_threads (server_stop order s)) = tp_executed (sv_threads s)"
  by (simp_all add: server_stop_def fold_shutdown tp_stop_def Let_def)

lemma run_task_threads [simp]: "snd (run_task t (s\<lparr>sv_threads := p\<rparr>)) = snd (run_task t s)"
  by (cases t)
    (auto simp: sv_on_accept_def sv_on_read_def async_process_message_def
      split: option.split sum.split failure.split exn.split prod.split)

lemma server_threadE:
  assumes "server_thread i s = Some s'"
  obtains (leaves) p where "s' = s\<lparr>sv_threads := p\<rparr>" "tp_queue p = tp_queue (sv_threads s)"
      "tp_executed p = tp_executed (sv_threads s)" "tp_stopped (sv_threads s) \<or> tp_queue (sv_threads s) = []"
  | (task) t q p where "tp_queue (sv_threads s) = t # q" "s' = fst (run_task t (s\<lparr>sv_threads := p\<rparr>))"
      "tp_queue p = q" "tp_executed p = tp_executed (sv_threads s) @ [t]"
      "snd (run_task t s) = Inr () \<or> (\<exists>x. snd (run_task t s) = Inl (Throw x))"
proof -
  let ?run = "\<lambda>t. snd (run_task t s)"
  from assms obtain p where p: "tp_thread_step ?run i (sv_threads s) = Some p"
    by (auto simp: thread_with_def split: option.splits)
  have s': "s' = (if tp_executed p = tp_executed (sv_threads s) then s\<lparr>sv_threads := p\<rparr>
      else fst (run_task (hd (tp_queue (sv_threads s))) (s\<lparr>sv_threads := p\<rparr>)))"
    using assms p by (simp add: thread_with_def split: if_splits)
  have run: "tp_stopped (sv_threads s) \<or> tp_queue (sv_threads s) = [] \<or>
      tp_executed p \<noteq> tp_executed (sv_threads s)"
    using p by (auto simp: tp_thread_step_def Let_def process_thread_error_def
        split: if_splits list.splits sum.splits failure.splits)
  from p show thesis
  proof (cases rule: tp_thread_stepE)
    case (leaves b)
    with s' run show thesis by (intro that(1) [of p]) auto
  next
    case (executes f fs)
    with s' show thesis by (intro that(2) [of f fs p]) auto
  next
    case (throws f fs x)
    with s' show thesis by (intro that(2) [of f fs p]) auto
  qed
qed

lemma transport_stepE:
  assumes "transport_step i r s = Some s'"
  obtains p where "s' = s\<lparr>sv_threads := p\<rparr>" "tp_queue p = tp_queue (sv_threads s)"
    "tp_executed p = tp_executed (sv_threads s)"
proof -
  have "s' = s\<lparr>sv_threads := sv_threads s'\<rparr> \<and> tp_queue (sv_threads s') = tp_queue (sv_threads s) \<and>
      tp_executed (sv_threads s') = tp_executed (sv_threads s)"
    using assms by (auto simp: transport_step_def process_thread_error_def split: if_splits sum.splits failure.splits)
  then show thesis by (auto intro: that)
qed

lemma server_next_cases:
  assumes "server_next order s ev = Some s'"
  obtains (stop) "s' = server_stop order s"
  | (leaves) p where "s' = s\<lparr>sv_threads := p\<rparr>" "tp_queue p = tp_queue (sv_threads s)"
      "tp_executed p = tp_executed (sv_threads s)"
  | (task) t q p where "tp_queue (sv_threads s) = t # q \<or> q = tp_queue (sv_threads s) \<and> can_complete s t"
      "s' = fst (run_task t (s\<lparr>sv_threads := p\<rparr>))" "tp_queue p = q"
      "tp_executed p = tp_executed (sv_threads s) @ [t]"
      "snd (run_task t s) = Inr () \<or> (\<exists>x. snd (run_task t s) = Inl (Throw x))"
proof (cases ev)
  case Server_Stop
  with assms stop show thesis by simp
next
  case (Thread_Step i)
  with assms have "server_thread i s = Some s'" by simp
  then show thesis
  proof (cases rule: server_threadE)
    case (leaves p)
    show thesis by (rule that(2) [OF leaves(1-3)])
  next
    case (task t q p)
    show thesis by (rule that(3) [OF disjI1 task(2-5)]) (rule task(1))
  qed
next
  case (Complete i t)
  let ?s = "s\<lparr>sv_threads := (sv_threads s)\<lparr>tp_queue := t # tp_queue (sv_threads s)\<rparr>\<rparr>"
  from assms Complete have c: "can_complete s t" "\<not> tp_stopped (sv_threads s)" and "server_thread i ?s = Some s'"
    by (auto split: if_splits)
  from this(3) show thesis
  proof (cases rule: server_threadE)
    case (leaves p)
    with c(2) show thesis by simp
  next
    case (task t' q p)
    from task(1) have "t' = t" and q: "q = tp_queue (sv_threads s)" by simp_all
    from task(5) have "snd (run_task t s) = Inr () \<or> (\<exists>x. snd (run_task t s) = Inl (Throw x))"
      unfolding \<open>t' = t\<close> run_task_threads .
    moreover have "s' = fst (run_task t (s\<lparr>sv_threads := p\<rparr>))"
      using task(2) unfolding \<open>t' = t\<close> by simp
    ultimately show thesis using c(1) q task(3,4) unfolding \<open>t' = t\<close> by (intro that(3) [of t q p]) simp_all
  qed
next
  case (Transport_Step i r)
  with assms have "transport_step i r s = Some s'" by simp
  then show thesis by (rule transport_stepE) (rule that(2))
qed

section \<open>Listening\<close>

definition posted_task :: "server_task \<Rightarrow> bool" where
  "posted_task t \<longleftrightarrow> (\<exists>sess msg. t = Process sess msg) \<or> (\<exists>sess. t = Remove sess)"

text \<open>
  The session \<open>sess\<close> was given up: the handler of a read of it threw an exception other than
  \<open>mprpc::exception\<close>.
\<close>

definition abandoned :: "nat \<Rightarrow> server_task list \<Rightarrow> bool" where
  "abandoned sess ts \<longleftrightarrow>
     (\<exists>data. Message_Read sess True None data \<in> set ts \<and>
        (\<exists>x. message_ctor data = Inl (Throw x) \<and> (\<forall>info. x \<noteq> Mprpc_Exception info)))"

definition listening :: "nat list \<Rightarrow> 'u server \<Rightarrow> bool" where
  "listening acceptors s \<longleftrightarrow>
     (\<forall>t \<in> set (tp_queue (sv_threads s)). posted_task t) \<and>
     (\<forall>a. accepts_started a s = accepts_done a s + count_list acceptors a) \<and>
     (\<forall>sess. reads_done sess s \<le> reads_started sess s \<and> reads_started sess s \<le> reads_done sess s + 1) \<and>
     (\<forall>sess \<in> sv_sessions s. reads_started sess s = reads_done sess s + 1 \<or>
        Remove sess \<in> set (tp_queue (sv_threads s)) \<or> abandoned sess (tp_executed (sv_threads s)))"

lemma listening_reads:
  "listening acceptors s \<Longrightarrow> reads_done sess s \<le> reads_started sess s"
  "listening acceptors s \<Longrightarrow> reads_started sess s \<le> reads_done sess s + 1"
  by (simp_all add: listening_def)

lemma counts_simps [simp]:
  "accepts_started a (sv_act x s) = accepts_started a s + (if x = Accept_Session a then 1 else 0)"
  "reads_started a (sv_act x s) = reads_started a s + (if x = Read_Session a then 1 else 0)"
  "accepts_done a (sv_act x s) = accepts_done a s" "reads_done a (sv_act x s) = reads_done a s"
  "accepts_started a (sv_post t s) = accepts_started a s" "reads_started a (sv_post t s) = reads_started a s"
  "accepts_done a (sv_post t s) = accepts_done a s" "reads_done a (sv_post t s) = reads_done a s"
  "accepts_started a (s\<lparr>sv_sessions := S\<rparr>) = accepts_started a s" "reads_started a (s\<lparr>sv_sessions := S\<rparr>) = reads_started a s"
  "accepts_done a (s\<lparr>sv_sessions := S\<rparr>) = accepts_done a s" "reads_done a (s\<lparr>sv_sessions := S\<rparr>) = reads_done a s"
  "accepts_started a (s\<lparr>sv_threads := p\<rparr>) = accepts_started a s" "reads_started a (s\<lparr>sv_threads := p\<rparr>) = reads_started a s"
  by (simp_all add: accepts_started_def accepts_done_def reads_started_def reads_done_def)

lemma counts_executed:
  assumes "tp_executed p = tp_executed (sv_threads s) @ [t]"
  shows "accepts_done a (s\<lparr>sv_threads := p\<rparr>) = accepts_done a s + (if accepted_by a t then 1 else 0)"
    "reads_done a (s\<lparr>sv_threads := p\<rparr>) = reads_done a s + (if read_from a t then 1 else 0)"
  using assms by (simp_all add: accepts_done_def reads_done_def)

lemma abandoned_snoc: "abandoned sess (ts @ [t]) \<longleftrightarrow> abandoned sess ts \<or> abandoned sess [t]"
  by (auto simp: abandoned_def)

lemma no_reads: "Read_Session sess \<notin> set (sv_actions s) \<Longrightarrow> reads_started sess s = 0"
  by (simp add: reads_started_def count_list_0_iff)

lemma count_replies [simp]:
  "count_list (replies sess prs) (Read_Session a) = 0" "count_list (replies sess prs) (Accept_Session a) = 0"
  by (auto simp: count_list_0_iff replies_def)

lemma process_counts [simp]:
  "accepts_started a (s\<lparr>sv_threads := p, sv_user := u, sv_actions := sv_actions s @ replies sess prs\<rparr>) = accepts_started a s"
  "reads_started a (s\<lparr>sv_threads := p, sv_user := u, sv_actions := sv_actions s @ replies sess prs\<rparr>) = reads_started a s"
  "accepts_done a (s\<lparr>sv_user := u, sv_actions := xs\<rparr>) = accepts_done a s"
  "reads_done a (s\<lparr>sv_user := u, sv_actions := xs\<rparr>) = reads_done a s"
  by (simp_all add: accepts_started_def accepts_done_def reads_started_def reads_done_def)

lemma remove_counts [simp]:
  "accepts_started a (remove_session sess s) = accepts_started a s" "reads_started a (remove_session sess s) = reads_started a s"
  "accepts_done a (remove_session sess s) = accepts_done a s" "reads_done a (remove_session sess s) = reads_done a s"
  by (simp_all add: remove_session_def)

lemma listening_accepted:
  assumes "listening acceptors s" and "can_complete s (Accepted a err session)"
    and p: "tp_queue p = tp_queue (sv_threads s)" "tp_executed p = tp_executed (sv_threads s) @ [Accepted a err session]"
  shows "listening acceptors (fst (run_task (Accepted a err session) (s\<lparr>sv_threads := p\<rparr>)))"
proof (cases "has_error err \<or> session = None")
  case True
  with assms show ?thesis
    by (auto simp: listening_def sv_on_accept_def do_accept_def counts_executed [OF p(2)] abandoned_snoc)
next
  case False
  then obtain sess where "session = Some sess" "\<not> has_error err" by auto
  moreover from this assms(2) have "reads_started sess s = 0" "reads_done sess s = 0"
    using listening_reads(1) [OF assms(1), of sess] by (simp_all add: no_reads)
  ultimately show ?thesis
    using assms(1) p(1)
    by (auto simp: listening_def sv_on_accept_def do_accept_def do_read_def counts_executed [OF p(2)]
        p(2) abandoned_snoc)
qed

lemma listening_read:
  assumes "listening acceptors s" and "can_complete s (Message_Read sess held err data)"
    and p: "tp_queue p = tp_queue (sv_threads s)"
      "tp_executed p = tp_executed (sv_threads s) @ [Message_Read sess held err data]"
    and r: "snd (run_task (Message_Read sess held err data) s) = Inr () \<or>
      (\<exists>x. snd (run_task (Message_Read sess held err data) s) = Inl (Throw x))"
  shows "listening acceptors (fst (run_task (Message_Read sess held err data) (s\<lparr>sv_threads := p\<rparr>)))"
proof -
  have one: "reads_started sess s = reads_done sess s + 1" and held: "held \<or> sess \<notin> sv_sessions s"
    using listening_reads [OF assms(1), of sess] assms(2) by auto
  show ?thesis
  proof (cases "held \<and> \<not> has_error err")
    case False
    with one held assms(1) p(1) show ?thesis
      by (auto simp: listening_def sv_on_read_def async_remove_session_def counts_executed [OF p(2)] p(2)
          abandoned_snoc posted_task_def)
  next
    case True
    then have err: "err = None" by (simp add: has_error_def)
    show ?thesis
    proof (cases "snd (async_process_message sess data s) = Inr ()")
      case ok: True
      with True one held assms(1) p(1) show ?thesis
        by (auto simp: listening_def sv_on_read_def async_process_message_def async_remove_session_def do_read_def
            counts_executed [OF p(2)] p(2) abandoned_snoc posted_task_def
            split: sum.splits failure.splits exn.splits)
    next
      case False
      with True r obtain x where "message_ctor data = Inl (Throw x)" "\<forall>info. x \<noteq> Mprpc_Exception info"
        by (auto simp: sv_on_read_def async_process_message_def
            split: sum.splits failure.splits exn.splits)
      moreover from this True err have "abandoned sess [Message_Read sess held err data]"
        by (auto simp: abandoned_def)
      ultimately show ?thesis
        using True one held assms(1) p(1)
        by (auto simp: listening_def sv_on_read_def async_process_message_def
            counts_executed [OF p(2)] p(2) abandoned_snoc split: exn.splits)
    qed
  qed
qed

lemma listening_posted:
  assumes "listening acceptors s" and q: "tp_queue (sv_threads s) = t # q"
    and p: "tp_queue p = q" "tp_executed p = tp_executed (sv_threads s) @ [t]"
  shows "listening acceptors (fst (run_task t (s\<lparr>sv_threads := p\<rparr>)))"
proof -
  from assms(1) q have "posted_task t" by (simp add: listening_def)
  then show ?thesis
    unfolding posted_task_def
  proof (elim disjE exE)
    fix sess msg
    assume "t = Process sess msg"
    with assms(1) p(1) q show ?thesis
      by (auto simp: listening_def fold_on_execution counts_executed [OF p(2)] p(2) abandoned_snoc
          split: prod.splits)
  next
    fix sess
    assume "t = Remove sess"
    with assms(1) p(1) q show ?thesis
      by (auto simp: listening_def counts_executed [OF p(2)] p(2) abandoned_snoc)
        (auto simp: remove_session_def p(2) abandoned_snoc)
  qed
qed

lemma listening_next:
  assumes "listening acceptors s" and "server_next order s ev = Some s'"
  shows "listening acceptors s'"
  using assms(2)
proof (cases rule: server_next_cases)
  case stop
  have "count_list (map Shutdown_Session xs) (Accept_Session a) = 0"
    "count_list (map Shutdown_Session xs) (Read_Session a) = 0" for xs a
    by (auto simp: count_list_0_iff)
  with assms(1) stop show ?thesis
    by (simp add: listening_def accepts_started_def accepts_done_def reads_started_def reads_done_def)
next
  case (leaves p)
  with assms(1) show ?thesis
    by (simp add: listening_def accepts_started_def accepts_done_def reads_started_def reads_done_def)
next
  case (task t q p)
  show ?thesis
  proof (cases "tp_queue (sv_threads s) = t # q")
    case True
    with listening_posted [OF assms(1)] task show ?thesis by simp
  next
    case False
    with task have "q = tp_queue (sv_threads s)" "can_complete s t" by simp_all
    with assms(1) task show ?thesis
      by (cases t) (simp_all only: listening_accepted listening_read, simp_all)
  qed
qed

lemma require_acceptors_Some: "require_acceptors fn (map Some as) = Inr as"
  by (induction as) simp_all

lemma new_server_Inr:
  "new_server fn base_fn (Some p) (map Some as) (Some ms) u =
   Inr \<lparr>sv_methods = ms, sv_acceptors = as, sv_sessions = {}, sv_threads = p, sv_user = u, sv_actions = []\<rparr>"
  by (simp add: new_server_def require_acceptors_Some)

lemma fold_do_accept: "fold do_accept as s = s\<lparr>sv_actions := sv_actions s @ map Accept_Session as\<rparr>"
  by (induction as arbitrary: s) (simp_all add: do_accept_def sv_act_def)

lemma started_server:
  assumes "new_server fn base_fn (Some (tp_create n)) (map Some as) (Some ms) u = Inr s0"
  shows "server_start s0 = \<lparr>sv_methods = ms, sv_acceptors = as, sv_sessions = {}, sv_threads = tp_start (tp_create n),
    sv_user = u, sv_actions = map Accept_Session as\<rparr>"
  using assms by (auto simp: new_server_Inr server_start_def fold_do_accept)

lemma started_threads [simp]:
  "tp_queue (tp_start (tp_create n)) = []" "tp_executed (tp_start (tp_create n)) = []"
  by (simp_all add: tp_start_def tp_create_def)

lemma count_accepts [simp]:
  "count_list (map Accept_Session as) (Accept_Session a) = count_list as a"
  "count_list (map Accept_Session as) (Read_Session sess) = 0"
  by (induction as) simp_all


section \<open>Serving\<close>

text \<open>The reference: one message after the other.\<close>

fun serve :: "'u methods \<Rightarrow> (nat \<times> message) list \<Rightarrow> 'u \<Rightarrow> 'u \<times> server_action list" where
  "serve ms [] u = (u, [])"
| "serve ms ((sess, msg) # xs) u =
     (case do_process_message ms msg u of
        (u, prs, _) \<Rightarrow> (case serve ms xs u of (u, ws) \<Rightarrow> (u, replies sess prs @ ws)))"

fun task_messages :: "server_task \<Rightarrow> (nat \<times> message) list" where
  "task_messages (Process sess msg) = [(sess, msg)]"
| "task_messages _ = []"

fun task_received :: "nat \<Rightarrow> server_task \<Rightarrow> message list" where
  "task_received sess (Message_Read sess' held err data) =
     (if sess' = sess \<and> held \<and> \<not> has_error err
      then (case message_ctor data of Inr msg \<Rightarrow> [msg] | Inl _ \<Rightarrow> []) else [])"
| "task_received sess _ = []"

definition messages_of :: "server_task list \<Rightarrow> (nat \<times> message) list" where
  "messages_of ts = concat (map task_messages ts)"

definition received :: "nat \<Rightarrow> server_task list \<Rightarrow> message list" where
  "received sess ts = concat (map (task_received sess) ts)"

definition on_session :: "nat \<Rightarrow> (nat \<times> message) list \<Rightarrow> message list" where
  "on_session sess xs = map snd (filter (\<lambda>x. fst x = sess) xs)"

fun is_write :: "server_action \<Rightarrow> bool" where
  "is_write (Write_Session _ _) = True"
| "is_write _ = False"

lemma serving_append [simp]:
  "messages_of (ts @ ts') = messages_of ts @ messages_of ts'" "messages_of (t # ts) = task_messages t @ messages_of ts"
  "messages_of [] = []"
  "received sess (ts @ ts') = received sess ts @ received sess ts'"
  "received sess (t # ts) = task_received sess t @ received sess ts" "received sess [] = []"
  "on_session sess (xs @ ys) = on_session sess xs @ on_session sess ys"
  "on_session sess [] = []" "on_session sess (x # xs) = (if fst x = sess then [snd x] else []) @ on_session sess xs"
  by (simp_all add: messages_of_def received_def on_session_def)

lemma serve_append:
  "serve ms (xs @ ys) u =
   (case serve ms xs u of (u, ws) \<Rightarrow> (case serve ms ys u of (u, ws') \<Rightarrow> (u, ws @ ws')))"
  by (induction ms xs u rule: serve.induct) (simp_all split: prod.split)

definition serving :: "'u methods \<Rightarrow> 'u \<Rightarrow> 'u server \<Rightarrow> bool" where
  "serving ms u s \<longleftrightarrow>
     sv_methods s = ms \<and> (\<forall>t \<in> set (tp_queue (sv_threads s)). posted_task t) \<and>
     serve ms (messages_of (tp_executed (sv_threads s))) u = (sv_user s, filter is_write (sv_actions s)) \<and>
     (\<forall>sess. on_session sess (messages_of (tp_executed (sv_threads s) @ tp_queue (sv_threads s))) =
        received sess (tp_executed (sv_threads s)))"

lemma filter_replies [simp]: "filter is_write (replies sess prs) = replies sess prs"
  by (induction prs) (simp_all add: replies_def)

lemma serving_process:
  assumes "serving ms u s" and "tp_queue (sv_threads s) = Process sess msg # tp_queue p"
    and "tp_executed p = tp_executed (sv_threads s) @ [Process sess msg]"
  shows "serving ms u (fst (run_task (Process sess msg) (s\<lparr>sv_threads := p\<rparr>)))"
  using assms
  by (cases "do_process_message ms msg (sv_user s)")
    (auto simp: serving_def serve_append fold_on_execution)

lemma serving_complete:
  assumes "serving ms u s" and "can_complete s t" and "tp_queue p = tp_queue (sv_threads s)"
    and "tp_executed p = tp_executed (sv_threads s) @ [t]"
  shows "serving ms u (fst (run_task t (s\<lparr>sv_threads := p\<rparr>)))"
proof (cases t)
  case (Accepted a err session)
  with assms show ?thesis
    by (auto simp: serving_def sv_on_accept_def do_accept_def do_read_def split: option.splits)
next
  case (Message_Read sess held err data)
  show ?thesis
  proof (cases "held \<and> \<not> has_error err")
    case False
    with Message_Read assms show ?thesis
      by (auto simp: serving_def sv_on_read_def posted_task_def async_remove_session_def)
  next
    case True
    with Message_Read assms show ?thesis
      by (cases "message_ctor data")
        (auto simp: serving_def sv_on_read_def async_process_message_def do_read_def posted_task_def
          async_remove_session_def split: failure.splits exn.splits)
  qed
qed (use assms in simp_all)

lemma serving_posted:
  assumes "serving ms u s" and q: "tp_queue (sv_threads s) = t # tp_queue p"
    and p: "tp_executed p = tp_executed (sv_threads s) @ [t]"
  shows "serving ms u (fst (run_task t (s\<lparr>sv_threads := p\<rparr>)))"
proof -
  from assms(1) q have "posted_task t" by (simp add: serving_def)
  then show ?thesis
    unfolding posted_task_def
  proof (elim disjE exE)
    fix sess
    assume "t = Remove sess"
    with assms show ?thesis by (auto simp: serving_def remove_session_def)
  qed (use assms serving_process in auto)
qed

lemma serving_next:
  assumes "serving ms u s" and "server_next order s ev = Some s'"
  shows "serving ms u s'"
  using assms(2)
proof (cases rule: server_next_cases)
  case stop
  have "filter is_write (map Shutdown_Session xs) = []" for xs by (induction xs) simp_all
  with assms(1) stop show ?thesis by (simp add: serving_def)
next
  case (leaves p)
  with assms(1) show ?thesis by (simp add: serving_def)
next
  case (task t q p)
  with serving_posted [OF assms(1)] serving_complete [OF assms(1)] show ?thesis by auto
qed

lemma serving_run:
  assumes "new_server fn base_fn (Some (tp_create n)) (map Some acceptors) (Some ms) u = Inr s0"
    and "server_run order (server_start s0) evs s"
  shows "serving ms u s"
proof -
  have "filter is_write (map Accept_Session xs) = []" for xs by (induction xs) simp_all
  then have "serving ms u (server_start s0)"
    by (simp add: started_server [OF assms(1)] serving_def)
  with assms(2) show ?thesis by (induction rule: trace.induct) (auto intro: serving_next)
qed



section \<open>Running threads\<close>

definition runs_in :: "nat \<Rightarrow> 'u server \<Rightarrow> bool" where
  "runs_in i s \<longleftrightarrow> i < length (tp_threads (sv_threads s)) \<and> tp_threads (sv_threads s) ! i = Running \<and>
     \<not> tp_stopped (sv_threads s)"

lemma thread_with_returns:
  assumes "runs_in i s" and "tp_queue (sv_threads s) = t # q" and "snd (run t s) = Inr ()"
  shows "thread_with run i s =
    Some (fst (run t (s\<lparr>sv_threads := (sv_threads s)\<lparr>tp_queue := q, tp_executed := tp_executed (sv_threads s) @ [t]\<rparr>\<rparr>)))"
  using assms by (simp add: runs_in_def thread_with_def tp_thread_step_def)

lemma thread_with_throws:
  assumes "runs_in i s" and "tp_queue (sv_threads s) = t # q" and "snd (run t s) = Inl (Throw x)"
  shows "thread_with run i s =
    Some (fst (run t (s\<lparr>sv_threads := (sv_threads s)\<lparr>tp_queue := q, tp_executed := tp_executed (sv_threads s) @ [t],
      tp_threads := (tp_threads (sv_threads s))[i := Finished],
      tp_errors := tp_errors (sv_threads s) @ [thread_error x]\<rparr>\<rparr>)))"
  using assms by (simp add: runs_in_def thread_with_def tp_thread_step_def process_thread_error_def)

lemma complete_returns:
  assumes "runs_in i s" and "can_complete s t" and "snd (run_task t s) = Inr ()"
  shows "server_next order s (Complete i t) =
    Some (fst (run_task t (s\<lparr>sv_threads := (sv_threads s)\<lparr>tp_executed := tp_executed (sv_threads s) @ [t]\<rparr>\<rparr>)))"
  using assms thread_with_returns [of i "queue_first t s" t "tp_queue (sv_threads s)" run_task]
  by (simp add: runs_in_def)

lemma thread_returns:
  assumes "runs_in i s" and "tp_queue (sv_threads s) = t # q" and "snd (run_task t s) = Inr ()"
  shows "server_next order s (Thread_Step i) =
    Some (fst (run_task t (s\<lparr>sv_threads := (sv_threads s)\<lparr>tp_queue := q, tp_executed := tp_executed (sv_threads s) @ [t]\<rparr>\<rparr>)))"
  using thread_with_returns [OF assms(1,2), of run_task] assms(3) by simp

lemma process_request_task:
  assumes "well_behaved f" and "packs_as f object_of" and "sv_methods s name = Some (function_method_executor name f)"
    and "wf_message msg" and "msg_type msg = request" and "msg_method msg = Inr name"
  shows "run_task (Process sess msg) s =
    (s\<lparr>sv_user := fst (answer f object_of msg (sv_user s)), sv_actions := sv_actions s @ [Write_Session sess
       (Some (pack_object (answer_object (msg_id msg) (snd (answer f object_of msg (sv_user s))))))]\<rparr>, Inr ())"
  using do_process_request_answer [OF assms(1,2,4-6), of "sv_methods s" "sv_user s"] assms(3)
  by (simp add: on_execution_def has_error_def sv_act_def)

section \<open>Examples\<close>

definition example_bytes :: message_data where
  "example_bytes = Some (pack_object (request_object 1 ''f'' (ARRAY [])))"

definition example_methods :: "nat methods" where
  "example_methods =
     [''f'' \<mapsto> \<lparr>me_name = ''f'', me_process_request = (\<lambda>msg u. (u + 1, Inr (Some [0]))),
        me_process_notification = (\<lambda>msg u. (u + 1, Inr ()))\<rparr>]"

definition example_server :: "nat server" where
  "example_server = \<lparr>sv_methods = example_methods, sv_acceptors = [0], sv_sessions = {},
     sv_threads = tp_create 1, sv_user = 0, sv_actions = []\<rparr>"

lemma example_server_ok:
  "new_server [] [] (Some (tp_create 1)) (map Some [0]) (Some example_methods) 0 = Inr example_server"
  "new_server [] [] (Some (tp_create 1)) [Some 0] (Some example_methods) 0 = Inr example_server"
  using new_server_Inr [of "[]" "[]" "tp_create 1" "[0]"] by (simp_all add: example_server_def)

definition example_events :: "server_event list" where
  "example_events =
     [Complete 0 (Accepted 0 None (Some 0)), Complete 0 (Message_Read 0 True None example_bytes), Thread_Step 0]"

lemma example_server_run:
  obtains s where "server_run sorted_list_of_set (server_start example_server) example_events s"
    "sv_actions s = [Accept_Session 0, Read_Session 0, Accept_Session 0, Read_Session 0, Write_Session 0 (Some [0])]"
    "sv_sessions s = {0}" "sv_user s = 1" "tp_queue (sv_threads s) = []"
proof -
  obtain m where m: "message_ctor example_bytes = Inr m" "msg_type m = request" "msg_method m = Inr ''f''"
    "msg_params m = Inr (ARRAY [])"
    using ctor_request [of "''f''" "[]" 1 "[]"] by (auto simp: example_bytes_def)
  show thesis
    by (rule that, rule run_events_trace)
      (simp_all add: example_events_def started_server [OF example_server_ok(1)] thread_with_def tp_thread_step_def tp_start_def
        tp_create_def accepts_started_def accepts_done_def reads_started_def reads_done_def sv_on_accept_def has_error_def
        do_accept_def do_read_def sv_on_read_def async_process_message_def m do_process_message_def example_methods_def
        on_execution_def sv_post_def tp_post_def sv_act_def, simp_all)
qed



end
