(* ===== verification/Udp.thy ===== *)
theory Udp
  imports Stream_Socket Server
begin

text \<open>
  Datagrams: \<open>udp_common\<close>, \<open>udp_session\<close>, \<open>udp_acceptor\<close> and \<open>udp_connector\<close> of
  \<^verbatim>\<open>impl/mprpc/transport/udp/impl\<close>.

  Each datagram is one message. The acceptor makes a session of every datagram it receives: the first
  \<open>async_read\<close> of the session gives its message, the next one an error, and both call the handler at
  once, so \<open>do_read\<close> of the server runs \<open>on_read\<close> before it returns.

  Handlers pass a state; what they do to it stays when they throw. The operating system decides which
  bytes a datagram has and where it comes from.
\<close>

section \<open>udp_common\<close>

record ('p, 'c) datagram_ops =
  du_parse :: "'p \<Rightarrow> bytes \<Rightarrow> size_t \<Rightarrow> 'p \<times> message_data result"
  du_compress :: "'c \<Rightarrow> message_data \<Rightarrow> 'c \<times> message_data result"

record ('p, 'c) udp_common =
  uc_parser :: 'p
  uc_compressor :: 'c
  uc_buf :: bytes

type_synonym ('e, 's) datagram_handler = "error_info \<Rightarrow> 'e \<Rightarrow> message_data \<Rightarrow> 's \<Rightarrow> 's \<times> unit result"

text \<open>\<open>std::vector<char>::resize\<close> on the empty buffer.\<close>

definition uc_init :: "size_t \<Rightarrow> ('p, 'c) udp_common \<Rightarrow> ('p, 'c) udp_common" where
  "uc_init datagram_buf_size h = h\<lparr>uc_buf := replicate (unat datagram_buf_size) 0\<rparr>"

text \<open>\<open>async_receive_from\<close> writes the bytes of the datagram to the beginning of the buffer.\<close>

definition uc_receive :: "bytes \<Rightarrow> ('p, 'c) udp_common \<Rightarrow> ('p, 'c) udp_common" where
  "uc_receive bs h = h\<lparr>uc_buf := bs @ drop (length bs) (uc_buf h)\<rparr>"

definition uc_on_read ::
    "('p, 'c) datagram_ops \<Rightarrow> 'e \<Rightarrow> ('p, 'c) udp_common \<Rightarrow> asio_error option \<Rightarrow> size_t \<Rightarrow> 'e \<Rightarrow>
     ('e, 's) datagram_handler \<Rightarrow> 's \<Rightarrow> ('p, 'c) udp_common \<times> 's \<times> unit result" where
  "uc_on_read ops no_endpoint h err num_bytes sender handler s =
     (case err of
        Some operation_aborted \<Rightarrow> (h, s, Inr ())
      | Some asio_eof \<Rightarrow> (h, handler (make_error eof ''connection closed'') no_endpoint None s)
      | Some e \<Rightarrow> (h, handler (make_error failed_to_read (asio_message e)) no_endpoint None s)
      | None \<Rightarrow>
          (case du_parse ops (uc_parser h) (uc_buf h) num_bytes of
             (p, Inr msg) \<Rightarrow>
               (case handler None sender msg s of
                  (s, Inl (Throw (Mprpc_Exception info))) \<Rightarrow> (h\<lparr>uc_parser := p\<rparr>, handler info no_endpoint None s)
                | (s, r) \<Rightarrow> (h\<lparr>uc_parser := p\<rparr>, s, r))
           | (p, Inl (Throw (Mprpc_Exception info))) \<Rightarrow> (h\<lparr>uc_parser := p\<rparr>, handler info no_endpoint None s)
           | (p, Inl e) \<Rightarrow> (h\<lparr>uc_parser := p\<rparr>, s, Inl e)))"

text \<open>\<open>do_write\<close> gives the bytes and the endpoint of \<open>async_send_to\<close>.\<close>

definition uc_do_write ::
    "('p, 'c) datagram_ops \<Rightarrow> ('p, 'c) udp_common \<Rightarrow> 'e \<Rightarrow> message_data \<Rightarrow>
     ('p, 'c) udp_common \<times> (bytes \<times> 'e) result" where
  "uc_do_write ops h endpoint msg =
     (case du_compress ops (uc_compressor h) msg of
        (c, r) \<Rightarrow> (h\<lparr>uc_compressor := c\<rparr>, bindR r (\<lambda>data. Inr (message_bytes data, endpoint))))"

definition uc_on_write :: "asio_error option \<Rightarrow> (error_info \<Rightarrow> 's \<Rightarrow> 's \<times> unit result) \<Rightarrow> 's \<Rightarrow> 's \<times> unit result" where
  "uc_on_write err handler s =
     (case err of
        Some operation_aborted \<Rightarrow> (s, Inr ())
      | Some e \<Rightarrow> handler (make_error failed_to_write (asio_message e)) s
      | None \<Rightarrow> handler None s)"

section \<open>Sessions, acceptors and connectors\<close>

record 'e udp_session =
  us_endpoint :: 'e
  us_data :: message_data

text \<open>\<open>async_read\<close> gives the arguments the handler is called with.\<close>

definition us_async_read :: "'e udp_session \<Rightarrow> 'e udp_session \<times> error_info \<times> message_data" where
  "us_async_read us =
     (if message_bytes (us_data us) = [] then
        (us, make_error failed_to_read ''second call to mprpc::transport::udp::udp_session::async_read'', None)
      else (us\<lparr>us_data := None\<rparr>, None, us_data us))"

definition us_async_write ::
    "('p, 'c) datagram_ops \<Rightarrow> ('p, 'c) udp_common \<Rightarrow> 'e udp_session \<Rightarrow> message_data \<Rightarrow>
     ('p, 'c) udp_common \<times> (bytes \<times> 'e) result" where
  "us_async_write ops h us data = uc_do_write ops h (us_endpoint us) data"

definition ua_on_read ::
    "(error_info \<Rightarrow> 'e udp_session option \<Rightarrow> 's \<Rightarrow> 's \<times> unit result) \<Rightarrow> ('e, 's) datagram_handler" where
  "ua_on_read handler err endpoint data s =
     (if has_error err then handler (make_error failed_to_accept (error_info_message err)) None s
      else handler None (Some \<lparr>us_endpoint = endpoint, us_data = data\<rparr>) s)"

definition udp_connector_read :: "(error_info \<Rightarrow> message_data \<Rightarrow> 's \<Rightarrow> 's \<times> unit result) \<Rightarrow> ('e, 's) datagram_handler" where
  "udp_connector_read handler err endpoint data s = handler err data s"

definition udp_connector_write ::
    "('p, 'c) datagram_ops \<Rightarrow> ('p, 'c) udp_common \<Rightarrow> 'e \<Rightarrow> message_data \<Rightarrow>
     ('p, 'c) udp_common \<times> (bytes \<times> 'e) result" where
  "udp_connector_write ops h endpoint data = uc_do_write ops h endpoint data"

section \<open>The server on datagrams\<close>

text \<open>
  \<open>do_read\<close> and \<open>on_read\<close> of the server call each other through the session; the second call gives an error, with
  which \<open>on_read\<close> reads no more, so fuel 2 is enough.
\<close>

fun udp_do_read :: "nat \<Rightarrow> 'e udp_session \<Rightarrow> 'u read_op" where
  "udp_do_read 0 us sess s = (s, Inl Diverges)"
| "udp_do_read (Suc fuel) us sess s =
     (case us_async_read us of
        (us, err, data) \<Rightarrow> sv_on_read (udp_do_read fuel us) sess err data s)"

definition udp_on_accept :: "nat \<Rightarrow> nat \<Rightarrow> error_info \<Rightarrow> 'e udp_session option \<Rightarrow> 'u server \<Rightarrow> 'u server \<times> unit result" where
  "udp_on_accept a sess err session s =
     (case session of
        None \<Rightarrow> sv_on_accept do_read a err None s
      | Some us \<Rightarrow> sv_on_accept (udp_do_read 2 us) a err (Some sess) s)"

text \<open>The datagram that is session number \<open>sess\<close>: its error, bytes and sender.\<close>

record 'e datagram =
  dg_error :: "asio_error option"
  dg_bytes :: bytes
  dg_sender :: 'e

definition udp_receive ::
    "('p, 'c) datagram_ops \<Rightarrow> 'e \<Rightarrow> ('p, 'c) udp_common \<Rightarrow> nat \<Rightarrow> nat \<Rightarrow> 'e datagram \<Rightarrow> 'u server \<Rightarrow>
     ('p, 'c) udp_common \<times> 'u server \<times> unit result" where
  "udp_receive ops no_endpoint h a sess d s =
     uc_on_read ops no_endpoint (uc_receive (dg_bytes d) h) (dg_error d) (of_nat (length (dg_bytes d)))
       (dg_sender d) (ua_on_read (udp_on_accept a sess)) s"

text \<open>
  The events of a server whose only acceptor is number \<open>a\<close>, with the helper \<open>h\<close>. A datagram is received in
  a thread of the pool when \<open>async_accept\<close> has been called; it is the task \<open>Accepted\<close>.
\<close>

datatype 'e udp_event = Udp_Stop | Udp_Thread nat | Udp_Datagram nat nat "'e datagram"

fun udp_next ::
    "(nat set \<Rightarrow> nat list) \<Rightarrow> ('p, 'c) datagram_ops \<Rightarrow> 'e \<Rightarrow> nat \<Rightarrow> ('p, 'c) udp_common \<times> 'u server \<Rightarrow> 'e udp_event \<Rightarrow>
     (('p, 'c) udp_common \<times> 'u server) option" where
  "udp_next order ops no_endpoint a (h, s) Udp_Stop = Some (h, server_stop order s)"
| "udp_next order ops no_endpoint a (h, s) (Udp_Thread i) = map_option (Pair h) (server_thread i s)"
| "udp_next order ops no_endpoint a (h, s) (Udp_Datagram i sess d) =
     (if accepts_done a s < accepts_started a s \<and> sess \<notin> sv_sessions s \<and>
         length (dg_bytes d) \<le> length (uc_buf h) \<and> \<not> tp_stopped (sv_threads s)
      then
        map_option (Pair (fst (udp_receive ops no_endpoint h a sess d s)))
          (thread_with (\<lambda>t s. snd (udp_receive ops no_endpoint h a sess d s)) i
             (queue_first (Accepted a None (Some sess)) s))
      else None)"

text \<open>The parser and compressor of MessagePack without compression.\<close>

definition msgpack_datagram_ops :: "string \<Rightarrow> (unit, unit) datagram_ops" where
  "msgpack_datagram_ops fn =
     \<lparr>du_parse = (\<lambda>p d n. (p, msgpack_parser_parse fn (Some d) n)), du_compress = null_compress\<rparr>"

section \<open>Reading a session\<close>

lemma udp_do_read_ends:
  "udp_do_read (Suc (Suc n)) us sess s =
   (if message_bytes (us_data us) = [] then (async_remove_session sess s, Inr ())
    else
      (case async_process_message sess (us_data us) s of
         (s, Inl e) \<Rightarrow> (s, Inl e)
       | (s, Inr _) \<Rightarrow> (async_remove_session sess s, Inr ())))"
  by (auto simp: us_async_read_def sv_on_read_def has_error_def make_error_def message_bytes_def
      split: prod.split sum.split)

lemmas udp_do_read_2 = udp_do_read_ends [of 0, folded numeral_2_eq_2]

lemma msgpack_datagram_parse:
  assumes "length bs < 2 ^ 64"
  shows "du_parse (msgpack_datagram_ops fn) p (bs @ rest) (of_nat (length bs)) = (p, Inr (Some bs))"
  using assms by (simp add: msgpack_datagram_ops_def msgpack_parser_parse_def unat_of_nat)

lemma udp_receive_accepts:
  assumes "dg_error d = None" and "length (dg_bytes d) < 2 ^ 64"
    and "udp_on_accept a sess None (Some \<lparr>us_endpoint = dg_sender d, us_data = Some (dg_bytes d)\<rparr>) s = (s', r)"
    and "\<forall>info. r \<noteq> Inl (Throw (Mprpc_Exception info))"
  shows "snd (udp_receive (msgpack_datagram_ops fn) no_endpoint h a sess d s) = (s', r)"
  using assms
  by (auto simp: udp_receive_def uc_on_read_def uc_receive_def msgpack_datagram_parse ua_on_read_def has_error_def
      split: sum.split failure.split exn.split)

lemma udp_receive_message:
  assumes "dg_error d = None" and "dg_bytes d \<noteq> []" and "length (dg_bytes d) < 2 ^ 64"
    and "message_ctor (Some (dg_bytes d)) = Inr msg"
  shows "snd (udp_receive (msgpack_datagram_ops fn) no_endpoint h a sess d s) =
    (do_accept a (async_remove_session sess (sv_post (Process sess msg) (s\<lparr>sv_sessions := insert sess (sv_sessions s)\<rparr>))),
     Inr ())"
  by (rule udp_receive_accepts [OF assms(1,3)])
    (use assms(2,4) in \<open>simp_all add: udp_on_accept_def sv_on_accept_def has_error_def udp_do_read_2 message_bytes_def
      async_process_message_def\<close>)

lemma udp_receive_escapes:
  assumes "dg_error d = None" and "dg_bytes d \<noteq> []" and "length (dg_bytes d) < 2 ^ 64"
    and "message_ctor (Some (dg_bytes d)) = Inl (Throw x)" and "\<forall>info. x \<noteq> Mprpc_Exception info"
  shows "snd (udp_receive (msgpack_datagram_ops fn) no_endpoint h a sess d s) =
    (s\<lparr>sv_sessions := insert sess (sv_sessions s)\<rparr>, Inl (Throw x))"
  by (rule udp_receive_accepts [OF assms(1,3)])
    (use assms(2,4,5) in \<open>auto simp: udp_on_accept_def sv_on_accept_def has_error_def udp_do_read_2 message_bytes_def
      async_process_message_def split: exn.split\<close>)

section \<open>Serving datagrams\<close>

lemma udp_datagram_accepted:
  assumes "dg_error d = None" and "dg_bytes d \<noteq> []" and "length (dg_bytes d) < 2 ^ 64"
    and "message_ctor (Some (dg_bytes d)) = Inr msg" and "length (dg_bytes d) \<le> length (uc_buf h)"
    and "runs_in k s" and "accepts_done a s < accepts_started a s" and "sess \<notin> sv_sessions s"
  obtains h' s' where "udp_next order (msgpack_datagram_ops fn) no_endpoint a (h, s) (Udp_Datagram k sess d) = Some (h', s')"
    "sv_methods s' = sv_methods s" "sv_user s' = sv_user s" "runs_in k s'"
    "tp_queue (sv_threads s') = tp_queue (sv_threads s) @ [Process sess msg, Remove sess]"
    "sv_sessions s' = insert sess (sv_sessions s)" "sv_actions s' = sv_actions s @ [Accept_Session a]"
proof (rule that)
  let ?run = "\<lambda>t s. snd (udp_receive (msgpack_datagram_ops fn) no_endpoint h a sess d s)"
  let ?t = "Accepted a None (Some sess)"
  let ?s = "s\<lparr>sv_threads := (sv_threads s)\<lparr>tp_executed := tp_executed (sv_threads s) @ [?t]\<rparr>\<rparr>"
  have "snd (?run ?t (queue_first ?t s)) = Inr ()" unfolding udp_receive_message [OF assms(1-4)] by simp
  then have "thread_with ?run k (queue_first ?t s) = Some (fst (?run ?t ?s))"
    using thread_with_returns [of k "queue_first ?t s" ?t "tp_queue (sv_threads s)" ?run] assms(6)
    by (simp add: runs_in_def)
  then show "udp_next order (msgpack_datagram_ops fn) no_endpoint a (h, s) (Udp_Datagram k sess d) =
      Some (fst (udp_receive (msgpack_datagram_ops fn) no_endpoint h a sess d s), fst (?run ?t ?s))"
    using assms(5-8) by (simp add: runs_in_def)
qed (use assms(6) in \<open>simp_all add: udp_receive_message [OF assms(1-4)] do_accept_def async_remove_session_def runs_in_def
      sv_post_def tp_post_def\<close>)

text \<open>
  C14. A request in a datagram is answered and its session removed again: the acceptor listens for the next
  datagram, the method runs once, one response is written to the session, and then the session is shut down
  and forgotten.
\<close>

theorem udp_request_served:
  assumes "well_behaved f" and "packs_as f object_of" and "sv_methods s name = Some (function_method_executor name f)"
    and "message_ctor (Some (dg_bytes d)) = Inr msg" and "msg_type msg = request" and "msg_method msg = Inr name"
    and "dg_error d = None" and "dg_bytes d \<noteq> []" and "length (dg_bytes d) < 2 ^ 64"
    and "length (dg_bytes d) \<le> length (uc_buf h)"
    and "runs_in k s" and "tp_queue (sv_threads s) = []" and "accepts_done a s < accepts_started a s"
    and "sess \<notin> sv_sessions s"
  shows "\<exists>h' s'. trace (udp_next order (msgpack_datagram_ops fn) no_endpoint a) (h, s)
      [Udp_Datagram k sess d, Udp_Thread k, Udp_Thread k] (h', s') \<and>
    sv_user s' = fst (answer f object_of msg (sv_user s)) \<and> sv_sessions s' = sv_sessions s \<and>
    sv_actions s' = sv_actions s @ [Accept_Session a, Write_Session sess
      (Some (pack_object (answer_object (msg_id msg) (snd (answer f object_of msg (sv_user s)))))), Shutdown_Session sess]"
proof -
  obtain h1 s1 where s1:
    "udp_next order (msgpack_datagram_ops fn) no_endpoint a (h, s) (Udp_Datagram k sess d) = Some (h1, s1)"
    "sv_methods s1 = sv_methods s" "sv_user s1 = sv_user s" "runs_in k s1"
    "tp_queue (sv_threads s1) = [Process sess msg, Remove sess]"
    "sv_sessions s1 = insert sess (sv_sessions s)" "sv_actions s1 = sv_actions s @ [Accept_Session a]"
    using udp_datagram_accepted [OF assms(7-9,4,10,11,13,14), of order fn no_endpoint] assms(12) by auto
  have wf: "wf_message msg" by (rule message_ctor_wf [OF assms(4)])
  have task: "run_task (Process sess msg) t = (t\<lparr>sv_user := fst (answer f object_of msg (sv_user t)),
      sv_actions := sv_actions t @ [Write_Session sess
       (Some (pack_object (answer_object (msg_id msg) (snd (answer f object_of msg (sv_user t))))))]\<rparr>, Inr ())"
    if "sv_methods t = sv_methods s" for t
    by (rule process_request_task [OF assms(1,2) _ wf assms(5,6)]) (simp add: that assms(3))
  let ?p2 = "(sv_threads s1)\<lparr>tp_queue := [Remove sess], tp_executed := tp_executed (sv_threads s1) @ [Process sess msg]\<rparr>"
  let ?s2 = "s1\<lparr>sv_threads := ?p2, sv_user := fst (answer f object_of msg (sv_user s)), sv_actions := sv_actions s1 @
    [Write_Session sess (Some (pack_object (answer_object (msg_id msg) (snd (answer f object_of msg (sv_user s))))))]\<rparr>"
  have s2: "server_thread k s1 = Some ?s2"
    using thread_with_returns [OF s1(4,5), of run_task] task [of s1] task [of "s1\<lparr>sv_threads := ?p2\<rparr>"] s1(2,3)
    by (simp del: run_task.simps)
  let ?p3 = "?p2\<lparr>tp_queue := [], tp_executed := tp_executed ?p2 @ [Remove sess]\<rparr>"
  let ?s3 = "remove_session sess (?s2\<lparr>sv_threads := ?p3\<rparr>)"
  have "server_thread k ?s2 = Some ?s3"
    using thread_with_returns [of k ?s2 "Remove sess" "[]" run_task] s1(4) by (simp add: runs_in_def)
  with s1(1) s2 have "trace (udp_next order (msgpack_datagram_ops fn) no_endpoint a) (h, s)
      [Udp_Datagram k sess d, Udp_Thread k, Udp_Thread k] (h1, ?s3)"
    by (intro run_events_trace) simp
  moreover have "sv_user ?s3 = fst (answer f object_of msg (sv_user s))" "sv_sessions ?s3 = sv_sessions s"
    "sv_actions ?s3 = sv_actions s @ [Accept_Session a, Write_Session sess
      (Some (pack_object (answer_object (msg_id msg) (snd (answer f object_of msg (sv_user s)))))), Shutdown_Session sess]"
    using s1 assms(14) by (simp_all add: remove_session_def sv_act_def)
  ultimately show ?thesis by blast
qed

section \<open>A datagram cut short\<close>

definition deaf :: "nat \<Rightarrow> nat \<Rightarrow> 'u server \<Rightarrow> bool" where
  "deaf a n s \<longleftrightarrow>
     (\<forall>t \<in> set (tp_queue (sv_threads s)). posted_task t) \<and> accepts_started a s = n \<and> accepts_done a s = n"

lemma deaf_next:
  assumes "deaf a n s" and "udp_next order ops no_endpoint a (h, s) ev = Some (h', s')"
  shows "deaf a n s'"
proof (cases ev)
  case Udp_Stop
  have "count_list (map Shutdown_Session xs) (Accept_Session a) = 0" for xs by (auto simp: count_list_0_iff)
  with assms Udp_Stop show ?thesis by (auto simp: deaf_def accepts_started_def accepts_done_def)
next
  case (Udp_Thread i)
  with assms(2) have "server_thread i s = Some s'" by auto
  then show ?thesis
  proof (cases rule: server_threadE)
    case (leaves p)
    with assms(1) show ?thesis by (simp add: deaf_def accepts_started_def accepts_done_def)
  next
    case (task t q p)
    from assms(1) task(1) have "posted_task t" by (simp add: deaf_def)
    then show ?thesis
      unfolding posted_task_def
    proof (elim disjE exE)
      fix sess msg
      assume "t = Process sess msg"
      with assms(1) task show ?thesis
        by (auto simp: deaf_def fold_on_execution counts_executed [OF task(4)] split: prod.splits)
    next
      fix sess
      assume "t = Remove sess"
      with assms(1) task show ?thesis
        by (auto simp: deaf_def counts_executed [OF task(4)]) (simp add: remove_session_def)
    qed
  qed
next
  case (Udp_Datagram i sess d)
  with assms show ?thesis by (simp add: deaf_def)
qed

lemma deaf_run:
  "deaf a n s \<Longrightarrow> run_events (udp_next order ops no_endpoint a) (h, s) evs = Some (h', s') \<Longrightarrow> deaf a n s'"
proof (induction evs arbitrary: h s)
  case (Cons ev evs)
  then obtain h1 s1 where "udp_next order ops no_endpoint a (h, s) ev = Some (h1, s1)"
    "run_events (udp_next order ops no_endpoint a) (h1, s1) evs = Some (h', s')"
    by (auto simp: bind_eq_Some_conv)
  from Cons.IH [OF deaf_next [OF Cons.prems(1) this(1)] this(2)] show ?case .
qed simp

text \<open>
  C33. One datagram that makes the constructor of \<open>message\<close> throw anything but an \<open>mprpc::exception\<close>, as a message cut
  short does, silences the acceptor for good: the thread that received it ends, \<open>async_accept\<close> is not called again,
  and whatever happens later, no further datagram is received.
\<close>

theorem udp_truncated_deaf:
  assumes "message_ctor (Some (dg_bytes d)) = Inl (Throw x)" and "\<forall>info. x \<noteq> Mprpc_Exception info"
    and "dg_error d = None" and "dg_bytes d \<noteq> []" and "length (dg_bytes d) < 2 ^ 64"
    and "length (dg_bytes d) \<le> length (uc_buf h)" and "runs_in k s" and "sess \<notin> sv_sessions s"
    and "accepts_started a s = accepts_done a s + 1" and "\<forall>t \<in> set (tp_queue (sv_threads s)). posted_task t"
  shows "\<exists>h' s'. udp_next order (msgpack_datagram_ops fn) no_endpoint a (h, s) (Udp_Datagram k sess d) = Some (h', s') \<and>
    tp_threads (sv_threads s') = (tp_threads (sv_threads s))[k := Finished] \<and>
    (\<forall>evs. case run_events (udp_next order (msgpack_datagram_ops fn) no_endpoint a) (h', s') evs of
       None \<Rightarrow> True
     | Some (h'', s'') \<Rightarrow> accepts_done a s'' = accepts_done a s')"
proof -
  let ?run = "\<lambda>t s. snd (udp_receive (msgpack_datagram_ops fn) no_endpoint h a sess d s)"
  let ?t = "Accepted a None (Some sess)"
  let ?p = "(sv_threads s)\<lparr>tp_executed := tp_executed (sv_threads s) @ [?t],
      tp_threads := (tp_threads (sv_threads s))[k := Finished], tp_errors := tp_errors (sv_threads s) @ [thread_error x]\<rparr>"
  let ?s = "fst (?run ?t (s\<lparr>sv_threads := ?p\<rparr>))"
  note esc = udp_receive_escapes [OF assms(3-5,1,2)]
  have "snd (?run ?t (queue_first ?t s)) = Inl (Throw x)" unfolding esc by simp
  then have "thread_with ?run k (queue_first ?t s) = Some ?s"
    using thread_with_throws [of k "queue_first ?t s" ?t "tp_queue (sv_threads s)" ?run x] assms(7)
    by (simp add: runs_in_def)
  then have "udp_next order (msgpack_datagram_ops fn) no_endpoint a (h, s) (Udp_Datagram k sess d) =
      Some (fst (udp_receive (msgpack_datagram_ops fn) no_endpoint h a sess d s), ?s)" (is "_ = Some (?h, _)")
    using assms(6-9) by (simp add: runs_in_def)
  moreover have "tp_threads (sv_threads ?s) = (tp_threads (sv_threads s))[k := Finished]"
    unfolding esc by simp
  moreover have "deaf a (accepts_done a ?s) ?s"
    using assms(9,10) unfolding esc by (simp add: deaf_def accepts_started_def accepts_done_def)
  then have "\<forall>evs. case run_events (udp_next order (msgpack_datagram_ops fn) no_endpoint a) (?h, ?s) evs of
       None \<Rightarrow> True
     | Some (h'', s'') \<Rightarrow> accepts_done a s'' = accepts_done a ?s"
    using deaf_run by (fastforce simp: deaf_def split: option.split)
  ultimately show ?thesis by blast
qed

section \<open>Examples\<close>

definition example_udp_server :: "nat server" where
  "example_udp_server = \<lparr>sv_methods = [''echo'' \<mapsto> function_method_executor ''echo'' echo], sv_acceptors = [0],
     sv_sessions = {}, sv_threads = tp_start (tp_create 1), sv_user = 0, sv_actions = [Accept_Session 0]\<rparr>"

definition example_helper :: "(unit, unit) udp_common" where
  "example_helper = uc_init 32 \<lparr>uc_parser = (), uc_compressor = (), uc_buf = []\<rparr>"

definition example_datagram :: "bytes \<Rightarrow> nat datagram" where
  "example_datagram bs = \<lparr>dg_error = None, dg_bytes = bs, dg_sender = 7\<rparr>"

lemma example_udp_ok:
  "sv_methods example_udp_server ''echo'' = Some (function_method_executor ''echo'' echo)"
  "runs_in 0 example_udp_server" "tp_queue (sv_threads example_udp_server) = []"
  "accepts_started 0 example_udp_server = 1" "accepts_done 0 example_udp_server = 0"
  "sv_sessions example_udp_server = {}" "sv_actions example_udp_server = [Accept_Session 0]" "length (uc_buf example_helper) = 32"
  by (simp_all add: example_udp_server_def runs_in_def accepts_started_def accepts_done_def example_helper_def uc_init_def)
    (simp_all add: tp_start_def tp_create_def)

lemma length_echo_request: "length (pack_object (request_object 1 ''echo'' (ARRAY []))) = 9"
  by (simp add: message_objects pack_object_def pack_array_def pack_imp_uint64_def take8_def pack_str_def)

theorem udp_request_served_witness:
  "\<exists>h' s' r. trace (udp_next sorted_list_of_set (msgpack_datagram_ops []) 0 0) (example_helper, example_udp_server)
      [Udp_Datagram 0 0 (example_datagram (pack_object (request_object 1 ''echo'' (ARRAY [])))), Udp_Thread 0, Udp_Thread 0]
      (h', s') \<and>
    sv_sessions s' = {} \<and> sv_actions s' = [Accept_Session 0, Accept_Session 0, Write_Session 0 r, Shutdown_Session 0]"
proof -
  let ?d = "example_datagram (pack_object (request_object 1 ''echo'' (ARRAY [])))"
  obtain m where m: "message_ctor (Some (dg_bytes ?d)) = Inr m" "msg_type m = request" "msg_method m = Inr ''echo''"
    using ctor_request [of "''echo''" "[]" 1 "[]"] by (auto simp: example_datagram_def)
  have d: "dg_error ?d = None" "dg_bytes ?d \<noteq> []" "length (dg_bytes ?d) = 9"
    by (simp_all add: example_datagram_def length_echo_request)
  from udp_request_served [OF echo_ok(1,2) example_udp_ok(1) m d(1,2) _ _ example_udp_ok(2,3),
        of example_helper 0 0 sorted_list_of_set "[]" 0] d(3)
  obtain h' s' where "trace (udp_next sorted_list_of_set (msgpack_datagram_ops []) 0 0) (example_helper, example_udp_server)
      [Udp_Datagram 0 0 ?d, Udp_Thread 0, Udp_Thread 0] (h', s')" "sv_sessions s' = sv_sessions example_udp_server"
    "sv_actions s' = sv_actions example_udp_server @ [Accept_Session 0, Write_Session 0
      (Some (pack_object (answer_object (msg_id m) (snd (answer echo id m (sv_user example_udp_server)))))), Shutdown_Session 0]"
    by (auto simp: example_udp_ok)
  then show ?thesis by (auto simp: example_udp_ok)
qed

theorem udp_truncated_deaf_witness:
  "\<exists>h' s'. udp_next sorted_list_of_set (msgpack_datagram_ops []) 0 0 (example_helper, example_udp_server)
      (Udp_Datagram 0 0 (example_datagram [0x94, 0])) = Some (h', s') \<and>
    tp_threads (sv_threads s') = [Finished]"
proof -
  have "unpack [0x94, 0] = Inl (Throw Msgpack_Insufficient_Bytes)"
    by (rule unpack_truncated [of "ARRAY [POSITIVE_INTEGER 0, NIL, NIL, NIL]" _ "[0xc0, 0xc0, 0xc0]"])
      (simp_all add: pack_object_def pack_array_def pack_imp_uint64_def take8_def pack_nil_def)
  then have "message_ctor (Some (dg_bytes (example_datagram [0x94, 0]))) = Inl (Throw Msgpack_Insufficient_Bytes)"
    by (simp add: message_ctor_def Let_def example_datagram_def)
  from udp_truncated_deaf [OF this _ _ _ _ _ example_udp_ok(2), of example_helper 0 0 sorted_list_of_set "[]" 0]
  have "\<exists>h' s'. udp_next sorted_list_of_set (msgpack_datagram_ops []) 0 0 (example_helper, example_udp_server)
      (Udp_Datagram 0 0 (example_datagram [0x94, 0])) = Some (h', s') \<and>
    tp_threads (sv_threads s') = (tp_threads (sv_threads example_udp_server))[0 := Finished]"
    by (auto simp: example_udp_ok example_datagram_def simp del: udp_next.simps)
  then show ?thesis by (simp add: example_udp_server_def tp_start_def tp_create_def del: udp_next.simps)
qed

end
