(* ===== verification/Config.thy ===== *)
theory Config
  imports Errors "HOL-Library.Multiset"
begin

text \<open>
  Configuration: \<open>option\<close> of \<^verbatim>\<open>include/mprpc/config/option.h\<close>, the option types of the
  configuration headers, the conversions from TOML values of
  \<^verbatim>\<open>include/mprpc/config/toml_helper.h\<close> and \<open>load\<close> of \<^verbatim>\<open>src/config/load.cpp\<close>.

  The conversion \<open>get\<close> of \<^verbatim>\<open>extern/toml11\<close> is modelled as far as it is used: it
  checks the type of a value and converts integers with a cast. The parser of TOML files, the texts of error
  messages and the range of compression levels belong to libraries and are parameters. A table is the
  list of its keys and values in the order in which the hash map is traversed.
\<close>

section \<open>TOML values\<close>

datatype toml =
    Toml_Empty
  | Toml_Boolean bool
  | Toml_Integer "64 word"
  | Toml_Floating "64 word"
  | Toml_String string
  | Toml_Datetime string
  | Toml_Array "toml list"
  | Toml_Table "(string \<times> toml) list"

record toml_lib =
  tl_parse :: "string \<Rightarrow> toml result"
  tl_format_error :: "string \<Rightarrow> toml \<Rightarrow> string \<Rightarrow> string"
  tl_bad_cast :: "string \<Rightarrow> toml \<Rightarrow> string"
  tl_min_level :: int
  tl_max_level :: int

definition toml_error :: "toml_lib \<Rightarrow> string \<Rightarrow> toml \<Rightarrow> string \<Rightarrow> 'a result" where
  "toml_error lib msg v comment = Inl (Throw (Std_Exception (tl_format_error lib msg v comment)))"

definition bad_cast :: "toml_lib \<Rightarrow> string \<Rightarrow> toml \<Rightarrow> 'a result" where
  "bad_cast lib fn v = Inl (Throw (Std_Exception (tl_bad_cast lib fn v)))"

definition as_integer :: "toml_lib \<Rightarrow> toml \<Rightarrow> 64 word result" where
  "as_integer lib v = (case v of Toml_Integer i \<Rightarrow> Inr i | _ \<Rightarrow> bad_cast lib ''toml::value::as_integer(): '' v)"

definition as_string :: "toml_lib \<Rightarrow> toml \<Rightarrow> string result" where
  "as_string lib v = (case v of Toml_String s \<Rightarrow> Inr s | _ \<Rightarrow> bad_cast lib ''toml::value::as_string(): '' v)"

definition as_array :: "toml_lib \<Rightarrow> toml \<Rightarrow> toml list result" where
  "as_array lib v = (case v of Toml_Array vs \<Rightarrow> Inr vs | _ \<Rightarrow> bad_cast lib ''toml::value::as_array(): '' v)"

definition as_table :: "toml_lib \<Rightarrow> toml \<Rightarrow> (string \<times> toml) list result" where
  "as_table lib v = (case v of Toml_Table ps \<Rightarrow> Inr ps | _ \<Rightarrow> bad_cast lib ''toml::value::as_table(): '' v)"

text \<open>\<open>toml::get\<close> for integral types, for instance \<open>std::uint16_t\<close>: a cast of the integer.\<close>

definition get_integral :: "toml_lib \<Rightarrow> toml \<Rightarrow> 'w::len word result" where
  "get_integral lib v = bindR (as_integer lib v) (\<lambda>i. Inr (ucast i))"

fun each_element :: "('a \<Rightarrow> 'b result) \<Rightarrow> 'a list \<Rightarrow> 'b list result" where
  "each_element f [] = Inr []"
| "each_element f (x # xs) = bindR (f x) (\<lambda>y. bindR (each_element f xs) (\<lambda>ys. Inr (y # ys)))"

definition get_vector :: "toml_lib \<Rightarrow> (toml \<Rightarrow> 'b result) \<Rightarrow> toml \<Rightarrow> 'b list result" where
  "get_vector lib f v = bindR (as_array lib v) (each_element f)"

section \<open>Options\<close>

record 'v option_type =
  ot_default :: 'v
  ot_validate :: "'v \<Rightarrow> bool"
  ot_name :: string
  ot_description :: string

text \<open>\<open>operator=\<close>; an option that throws keeps its value.\<close>

definition option_assign :: "'v option_type \<Rightarrow> 'v \<Rightarrow> 'v result" where
  "option_assign ot v =
     (if \<not> ot_validate ot v then
        throw_error (make_error invalid_config_value
          (''invalid value for '' @ ot_name ot @ '', '' @ ot_description ot))
      else Inr v)"

definition option_from_toml :: "toml_lib \<Rightarrow> (toml \<Rightarrow> 'v result) \<Rightarrow> 'v option_type \<Rightarrow> toml \<Rightarrow> 'v result" where
  "option_from_toml lib get ot v =
     bindR (get v) (\<lambda>converted.
     if \<not> ot_validate ot converted then
       toml_error lib (''invalid value for '' @ ot_name ot @ '', '' @ ot_description ot) v ''invalid value''
     else option_assign ot converted)"

definition num_threads_type :: "size_t option_type" where
  "num_threads_type = \<lparr>ot_default = 2, ot_validate = (\<lambda>v. 0 < v), ot_name = ''num_threads'',
     ot_description = ''number of threads''\<rparr>"

definition sync_request_timeout_ms_type :: "32 word option_type" where
  "sync_request_timeout_ms_type = \<lparr>ot_default = 3000, ot_validate = (\<lambda>v. 0 < v),
     ot_name = ''sync_request_timeout_ms'', ot_description = ''timeout of synchronous requests [ms]''\<rparr>"

datatype transport_type = Tcp_Transport | Udp_Transport

definition connector_type_type :: "transport_type option_type" where
  "connector_type_type = \<lparr>ot_default = Tcp_Transport, ot_validate = (\<lambda>v. v = Tcp_Transport \<or> v = Udp_Transport),
     ot_name = ''connector_type'', ot_description = ''connector type (TCP, UDP)''\<rparr>"

definition host_type :: "string option_type" where
  "host_type = \<lparr>ot_default = ''127.0.0.1'', ot_validate = (\<lambda>_. True), ot_name = ''host'',
     ot_description = ''host address (IP address for server, common names for clients)''\<rparr>"

definition port_type :: "16 word option_type" where
  "port_type = \<lparr>ot_default = 3780, ot_validate = (\<lambda>_. True), ot_name = ''port'', ot_description = ''port number''\<rparr>"

definition streaming_min_buf_size_type :: "size_t option_type" where
  "streaming_min_buf_size_type = \<lparr>ot_default = 1024, ot_validate = (\<lambda>v. 0 < v), ot_name = ''streaming_min_buf_size'',
     ot_description = ''minimum buffer size in streaming parser [bytes]''\<rparr>"

definition datagram_buf_size_type :: "size_t option_type" where
  "datagram_buf_size_type = \<lparr>ot_default = 65527, ot_validate = (\<lambda>v. 0 < v), ot_name = ''datagram_buf_size'',
     ot_description = ''buffer size in datagrams''\<rparr>"

datatype compression_type = No_Compression | Zstd_Compression

definition compression_type_type :: "compression_type option_type" where
  "compression_type_type = \<lparr>ot_default = No_Compression,
     ot_validate = (\<lambda>v. v = No_Compression \<or> v = Zstd_Compression), ot_name = ''type'',
     ot_description = ''compression type (none, zstd)''\<rparr>"

definition validate_zstd_compression_level :: "toml_lib \<Rightarrow> 32 word \<Rightarrow> bool" where
  "validate_zstd_compression_level lib level \<longleftrightarrow> tl_min_level lib \<le> sint level \<and> sint level \<le> tl_max_level lib"

definition zstd_compression_level_type :: "toml_lib \<Rightarrow> 32 word option_type" where
  "zstd_compression_level_type lib = \<lparr>ot_default = 3, ot_validate = validate_zstd_compression_level lib,
     ot_name = ''zstd_compression_level'', ot_description = ''compression levels in zstd library''\<rparr>"

section \<open>Configurations\<close>

record compression_config =
  cc_type :: compression_type
  cc_zstd_compression_level :: "32 word"

record tcp_config =
  tc_streaming_min_buf_size :: size_t
  tc_compression :: compression_config
  tc_host :: string
  tc_port :: "16 word"

record udp_config =
  ud_datagram_buf_size :: size_t
  ud_compression :: compression_config
  ud_host :: string
  ud_port :: "16 word"

record server_config =
  sc_num_threads :: size_t
  sc_tcp_acceptors :: "tcp_config list"
  sc_udp_acceptors :: "udp_config list"

record client_config =
  lc_num_threads :: size_t
  lc_sync_request_timeout_ms :: "32 word"
  lc_connector_type :: transport_type
  lc_tcp_connector :: tcp_config
  lc_udp_connector :: udp_config

record mprpc_config =
  mc_client :: client_config
  mc_server :: server_config

definition default_compression :: "toml_lib \<Rightarrow> compression_config" where
  "default_compression lib = \<lparr>cc_type = ot_default compression_type_type,
     cc_zstd_compression_level = ot_default (zstd_compression_level_type lib)\<rparr>"

definition default_tcp :: "toml_lib \<Rightarrow> tcp_config" where
  "default_tcp lib = \<lparr>tc_streaming_min_buf_size = ot_default streaming_min_buf_size_type,
     tc_compression = default_compression lib, tc_host = ot_default host_type, tc_port = ot_default port_type\<rparr>"

definition default_udp :: "toml_lib \<Rightarrow> udp_config" where
  "default_udp lib = \<lparr>ud_datagram_buf_size = ot_default datagram_buf_size_type,
     ud_compression = default_compression lib, ud_host = ot_default host_type, ud_port = ot_default port_type\<rparr>"

definition default_server :: server_config where
  "default_server = \<lparr>sc_num_threads = ot_default num_threads_type, sc_tcp_acceptors = [], sc_udp_acceptors = []\<rparr>"

definition default_client :: "toml_lib \<Rightarrow> client_config" where
  "default_client lib = \<lparr>lc_num_threads = ot_default num_threads_type,
     lc_sync_request_timeout_ms = ot_default sync_request_timeout_ms_type,
     lc_connector_type = ot_default connector_type_type, lc_tcp_connector = default_tcp lib,
     lc_udp_connector = default_udp lib\<rparr>"

definition default_mprpc :: "toml_lib \<Rightarrow> mprpc_config" where
  "default_mprpc lib = \<lparr>mc_client = default_client lib, mc_server = default_server\<rparr>"

section \<open>Conversions\<close>

text \<open>The loops over tables; \<open>put\<close> is the chain of \<open>if\<close> on the key.\<close>

fun each_pair :: "(string \<times> toml \<Rightarrow> 'c \<Rightarrow> 'c result) \<Rightarrow> (string \<times> toml) list \<Rightarrow> 'c \<Rightarrow> 'c result" where
  "each_pair put [] c = Inr c"
| "each_pair put (p # ps) c = bindR (put p c) (each_pair put ps)"

definition table_from_toml :: "toml_lib \<Rightarrow> (string \<times> toml \<Rightarrow> 'c \<Rightarrow> 'c result) \<Rightarrow> 'c \<Rightarrow> toml \<Rightarrow> 'c result" where
  "table_from_toml lib put dflt v = bindR (as_table lib v) (\<lambda>ps. each_pair put ps dflt)"

definition invalid_key :: "toml_lib \<Rightarrow> string \<Rightarrow> toml \<Rightarrow> 'a result" where
  "invalid_key lib key v = toml_error lib (''invalid key '' @ key) v ''invalid key exists''"

definition compression_type_from_toml :: "toml_lib \<Rightarrow> toml \<Rightarrow> compression_type result" where
  "compression_type_from_toml lib v =
     bindR (as_string lib v) (\<lambda>str.
     if str = ''none'' then Inr No_Compression
     else if str = ''zstd'' then Inr Zstd_Compression
     else toml_error lib ''invalid value for type, compression type (none, zstd)'' v ''invalid type'')"

definition set_compression ::
    "toml_lib \<Rightarrow> toml \<Rightarrow> string \<times> toml \<Rightarrow> compression_config \<Rightarrow> compression_config result" where
  "set_compression lib v = (\<lambda>(key, x) c.
     if key = ''type'' then
       bindR (option_from_toml lib (compression_type_from_toml lib) compression_type_type x) (\<lambda>y.
       Inr (c\<lparr>cc_type := y\<rparr>))
     else if key = ''zstd_compression_level'' then
       bindR (option_from_toml lib (get_integral lib) (zstd_compression_level_type lib) x) (\<lambda>y.
       Inr (c\<lparr>cc_zstd_compression_level := y\<rparr>))
     else invalid_key lib key v)"

definition compression_from_toml :: "toml_lib \<Rightarrow> toml \<Rightarrow> compression_config result" where
  "compression_from_toml lib v = table_from_toml lib (set_compression lib v) (default_compression lib) v"

text \<open>The conversions of TCP acceptors and connectors are the same, and so are those of UDP.\<close>

definition set_tcp :: "toml_lib \<Rightarrow> toml \<Rightarrow> string \<times> toml \<Rightarrow> tcp_config \<Rightarrow> tcp_config result" where
  "set_tcp lib v = (\<lambda>(key, x) c.
     if key = ''compression'' then
       bindR (compression_from_toml lib x) (\<lambda>y. Inr (c\<lparr>tc_compression := y\<rparr>))
     else if key = ''host'' then
       bindR (option_from_toml lib (as_string lib) host_type x) (\<lambda>y. Inr (c\<lparr>tc_host := y\<rparr>))
     else if key = ''port'' then
       bindR (option_from_toml lib (get_integral lib) port_type x) (\<lambda>y. Inr (c\<lparr>tc_port := y\<rparr>))
     else if key = ''streaming_min_buf_size'' then
       bindR (option_from_toml lib (get_integral lib) streaming_min_buf_size_type x) (\<lambda>y.
       Inr (c\<lparr>tc_streaming_min_buf_size := y\<rparr>))
     else invalid_key lib key v)"

definition tcp_acceptor_from_toml :: "toml_lib \<Rightarrow> toml \<Rightarrow> tcp_config result" where
  "tcp_acceptor_from_toml lib v = table_from_toml lib (set_tcp lib v) (default_tcp lib) v"

definition tcp_connector_from_toml :: "toml_lib \<Rightarrow> toml \<Rightarrow> tcp_config result" where
  "tcp_connector_from_toml lib v = table_from_toml lib (set_tcp lib v) (default_tcp lib) v"

definition set_udp :: "toml_lib \<Rightarrow> toml \<Rightarrow> string \<times> toml \<Rightarrow> udp_config \<Rightarrow> udp_config result" where
  "set_udp lib v = (\<lambda>(key, x) c.
     if key = ''compression'' then
       bindR (compression_from_toml lib x) (\<lambda>y. Inr (c\<lparr>ud_compression := y\<rparr>))
     else if key = ''host'' then
       bindR (option_from_toml lib (as_string lib) host_type x) (\<lambda>y. Inr (c\<lparr>ud_host := y\<rparr>))
     else if key = ''port'' then
       bindR (option_from_toml lib (get_integral lib) port_type x) (\<lambda>y. Inr (c\<lparr>ud_port := y\<rparr>))
     else if key = ''datagram_buf_size'' then
       bindR (option_from_toml lib (get_integral lib) datagram_buf_size_type x) (\<lambda>y.
       Inr (c\<lparr>ud_datagram_buf_size := y\<rparr>))
     else invalid_key lib key v)"

definition udp_acceptor_from_toml :: "toml_lib \<Rightarrow> toml \<Rightarrow> udp_config result" where
  "udp_acceptor_from_toml lib v = table_from_toml lib (set_udp lib v) (default_udp lib) v"

definition udp_connector_from_toml :: "toml_lib \<Rightarrow> toml \<Rightarrow> udp_config result" where
  "udp_connector_from_toml lib v = table_from_toml lib (set_udp lib v) (default_udp lib) v"

definition set_server :: "toml_lib \<Rightarrow> toml \<Rightarrow> string \<times> toml \<Rightarrow> server_config \<Rightarrow> server_config result" where
  "set_server lib v = (\<lambda>(key, x) c.
     if key = ''num_threads'' then
       bindR (option_from_toml lib (get_integral lib) num_threads_type x) (\<lambda>y. Inr (c\<lparr>sc_num_threads := y\<rparr>))
     else if key = ''tcp_acceptors'' then
       bindR (get_vector lib (tcp_acceptor_from_toml lib) x) (\<lambda>y. Inr (c\<lparr>sc_tcp_acceptors := y\<rparr>))
     else if key = ''udp_acceptors'' then
       bindR (get_vector lib (udp_acceptor_from_toml lib) x) (\<lambda>y. Inr (c\<lparr>sc_udp_acceptors := y\<rparr>))
     else invalid_key lib key v)"

definition server_from_toml :: "toml_lib \<Rightarrow> toml \<Rightarrow> server_config result" where
  "server_from_toml lib v = table_from_toml lib (set_server lib v) default_server v"

definition transport_type_from_toml :: "toml_lib \<Rightarrow> toml \<Rightarrow> transport_type result" where
  "transport_type_from_toml lib v =
     bindR (as_string lib v) (\<lambda>str.
     if str = ''tcp'' \<or> str = ''TCP'' then Inr Tcp_Transport
     else if str = ''udp'' \<or> str = ''UDP'' then Inr Udp_Transport
     else toml_error lib ''invalid value for transport type (TCP, UDP)'' v ''invalid type'')"

definition set_client :: "toml_lib \<Rightarrow> toml \<Rightarrow> string \<times> toml \<Rightarrow> client_config \<Rightarrow> client_config result" where
  "set_client lib v = (\<lambda>(key, x) c.
     if key = ''num_threads'' then
       bindR (option_from_toml lib (get_integral lib) num_threads_type x) (\<lambda>y. Inr (c\<lparr>lc_num_threads := y\<rparr>))
     else if key = ''sync_request_timeout_ms'' then
       bindR (option_from_toml lib (get_integral lib) sync_request_timeout_ms_type x) (\<lambda>y.
       Inr (c\<lparr>lc_sync_request_timeout_ms := y\<rparr>))
     else if key = ''connector_type'' then
       bindR (option_from_toml lib (transport_type_from_toml lib) connector_type_type x) (\<lambda>y.
       Inr (c\<lparr>lc_connector_type := y\<rparr>))
     else if key = ''tcp_connector'' then
       bindR (tcp_connector_from_toml lib x) (\<lambda>y. Inr (c\<lparr>lc_tcp_connector := y\<rparr>))
     else if key = ''udp_connector'' then
       bindR (udp_connector_from_toml lib x) (\<lambda>y. Inr (c\<lparr>lc_udp_connector := y\<rparr>))
     else invalid_key lib key v)"

definition client_from_toml :: "toml_lib \<Rightarrow> toml \<Rightarrow> client_config result" where
  "client_from_toml lib v = table_from_toml lib (set_client lib v) (default_client lib) v"

definition set_mprpc :: "toml_lib \<Rightarrow> toml \<Rightarrow> string \<times> toml \<Rightarrow> mprpc_config \<Rightarrow> mprpc_config result" where
  "set_mprpc lib v = (\<lambda>(key, x) c.
     if key = ''client'' then bindR (client_from_toml lib x) (\<lambda>y. Inr (c\<lparr>mc_client := y\<rparr>))
     else if key = ''server'' then bindR (server_from_toml lib x) (\<lambda>y. Inr (c\<lparr>mc_server := y\<rparr>))
     else invalid_key lib key v)"

definition mprpc_from_toml :: "toml_lib \<Rightarrow> toml \<Rightarrow> mprpc_config result" where
  "mprpc_from_toml lib v = table_from_toml lib (set_mprpc lib v) (default_mprpc lib) v"

text \<open>Both handlers of \<open>load\<close> do the same; a failure of another kind is not caught.\<close>

definition load_config :: "toml_lib \<Rightarrow> string \<Rightarrow> mprpc_config result" where
  "load_config lib config_filepath =
     (case bindR (tl_parse lib config_filepath) (mprpc_from_toml lib) of
        Inl (Throw (Std_Exception what)) \<Rightarrow> throw_error (make_error config_parse_error what)
      | r \<Rightarrow> r)"


section \<open>Tables\<close>

definition std_failure :: "failure \<Rightarrow> bool" where
  "std_failure e \<longleftrightarrow> (\<exists>what. e = Throw (Std_Exception what))"

text \<open>
  What the conversion of a table promises when each of its keys does: valid options, failures \<open>load\<close> handles, and
  the same result in whatever order the table is traversed.
\<close>

locale config_table =
  fixes lib :: toml_lib and put :: "toml \<Rightarrow> string \<times> toml \<Rightarrow> 'c \<Rightarrow> 'c result" and dflt :: 'c and valid :: "'c \<Rightarrow> bool"
  assumes dflt_valid: "valid dflt"
    and put_valid: "valid c \<Longrightarrow> put v p c = Inr c' \<Longrightarrow> valid c'"
    and put_fails: "put v p c = Inl e \<Longrightarrow> std_failure e"
    and put_commute: "fst p \<noteq> fst q \<Longrightarrow> put v p c = Inr c1 \<Longrightarrow> put v q c1 = Inr c2 \<Longrightarrow>
      \<exists>c1'. put w q c = Inr c1' \<and> put w p c1' = Inr c2"
    and put_value: "put v p c = Inr c' \<Longrightarrow> put w p c = Inr c'"
begin

lemma each_pair_valid: "valid c \<Longrightarrow> each_pair (put v) ps c = Inr c' \<Longrightarrow> valid c'"
  by (induction ps arbitrary: c) (auto simp: bindR_eq_Inr intro: put_valid)

lemma each_pair_fails: "each_pair (put v) ps c = Inl e \<Longrightarrow> std_failure e"
  by (induction ps arbitrary: c) (auto simp: bindR_eq_Inl intro: put_fails)

lemma from_toml_valid: "table_from_toml lib (put v) dflt v = Inr c \<Longrightarrow> valid c"
  by (auto simp: table_from_toml_def bindR_eq_Inr intro: each_pair_valid [OF dflt_valid])

lemma from_toml_fails: "table_from_toml lib (put v) dflt v = Inl e \<Longrightarrow> std_failure e"
  by (auto simp: table_from_toml_def bindR_eq_Inl as_table_def bad_cast_def std_failure_def
      dest!: each_pair_fails split: toml.splits)

lemma each_pair_first:
  assumes "p \<in> set ps" and "distinct (map fst ps)" and "each_pair (put v) ps c = Inr c'"
  shows "each_pair (put v) (p # remove1 p ps) c = Inr c'"
  using assms
proof (induction ps arbitrary: c)
  case (Cons q qs)
  show ?case
  proof (cases "q = p")
    case False
    then have p: "p \<in> set qs" using Cons.prems(1) by simp
    obtain c1 where c1: "put v q c = Inr c1" "each_pair (put v) qs c1 = Inr c'"
      using Cons.prems(3) by (auto simp: bindR_eq_Inr)
    obtain c2 where c2: "put v p c1 = Inr c2" "each_pair (put v) (remove1 p qs) c2 = Inr c'"
      using Cons.IH [OF p _ c1(2)] Cons.prems(2) by (auto simp: bindR_eq_Inr)
    have "fst q \<noteq> fst p" using Cons.prems(2) p by force
    then obtain c3 where "put v p c = Inr c3" "put v q c3 = Inr c2" using put_commute [OF _ c1(1) c2(1)] by blast
    with c2(2) False show ?thesis by simp
  qed (use Cons.prems(3) in simp)
qed simp

lemma each_pair_order:
  assumes "distinct (map fst ps)" and "mset qs = mset ps" and "each_pair (put v) ps c = Inr c'"
  shows "each_pair (put w) qs c = Inr c'"
  using assms
proof (induction qs arbitrary: ps c)
  case (Cons q qs)
  have q: "q \<in> set ps" using Cons.prems(2) by (metis list.set_intros(1) mset_eq_setD)
  from each_pair_first [OF q Cons.prems(1,3)] obtain c1
    where c1: "put v q c = Inr c1" "each_pair (put v) (remove1 q ps) c1 = Inr c'" by (auto simp: bindR_eq_Inr)
  have "mset qs = mset (remove1 q ps)" using Cons.prems(2) by (metis add_mset_remove_trivial mset.simps(2) mset_remove1)
  moreover have "distinct (map fst (remove1 q ps))" using Cons.prems(1) by (simp add: distinct_map inj_on_def)
  ultimately have "each_pair (put w) qs c1 = Inr c'" using Cons.IH c1(2) by blast
  with put_value [OF c1(1)] show ?case by simp
qed simp

lemma from_toml_order:
  assumes "distinct (map fst ps)" and "mset qs = mset ps"
    and "table_from_toml lib (put (Toml_Table ps)) dflt (Toml_Table ps) = Inr c"
  shows "table_from_toml lib (put (Toml_Table qs)) dflt (Toml_Table qs) = Inr c"
  using each_pair_order [OF assms(1,2), of "Toml_Table ps" dflt c "Toml_Table qs"] assms(3)
  by (simp add: table_from_toml_def as_table_def)

end

section \<open>Valid configurations\<close>

definition levels_ok :: "toml_lib \<Rightarrow> bool" where
  "levels_ok lib \<longleftrightarrow> tl_min_level lib \<le> 3 \<and> 3 \<le> tl_max_level lib"

definition valid_compression :: "toml_lib \<Rightarrow> compression_config \<Rightarrow> bool" where
  "valid_compression lib c \<longleftrightarrow>
     tl_min_level lib \<le> sint (cc_zstd_compression_level c) \<and> sint (cc_zstd_compression_level c) \<le> tl_max_level lib"

definition valid_tcp :: "toml_lib \<Rightarrow> tcp_config \<Rightarrow> bool" where
  "valid_tcp lib c \<longleftrightarrow> 0 < tc_streaming_min_buf_size c \<and> valid_compression lib (tc_compression c)"

definition valid_udp :: "toml_lib \<Rightarrow> udp_config \<Rightarrow> bool" where
  "valid_udp lib c \<longleftrightarrow> 0 < ud_datagram_buf_size c \<and> valid_compression lib (ud_compression c)"

definition valid_server :: "toml_lib \<Rightarrow> server_config \<Rightarrow> bool" where
  "valid_server lib c \<longleftrightarrow>
     0 < sc_num_threads c \<and> list_all (valid_tcp lib) (sc_tcp_acceptors c) \<and> list_all (valid_udp lib) (sc_udp_acceptors c)"

definition valid_client :: "toml_lib \<Rightarrow> client_config \<Rightarrow> bool" where
  "valid_client lib c \<longleftrightarrow>
     0 < lc_num_threads c \<and> 0 < lc_sync_request_timeout_ms c \<and>
     valid_tcp lib (lc_tcp_connector c) \<and> valid_udp lib (lc_udp_connector c)"

definition valid_mprpc :: "toml_lib \<Rightarrow> mprpc_config \<Rightarrow> bool" where
  "valid_mprpc lib c \<longleftrightarrow> valid_client lib (mc_client c) \<and> valid_server lib (mc_server c)"

lemma option_from_toml_Inr: "option_from_toml lib get ot v = Inr x \<longleftrightarrow> get v = Inr x \<and> ot_validate ot x"
  by (auto simp: option_from_toml_def option_assign_def toml_error_def bindR_eq_Inr)

lemma option_from_toml_fails:
  assumes "option_from_toml lib get ot v = Inl e" and "\<And>e. get v = Inl e \<Longrightarrow> std_failure e"
  shows "std_failure e"
  using assms by (auto simp: option_from_toml_def option_assign_def toml_error_def bindR_eq_Inl std_failure_def split: if_splits)

lemma get_fails:
  "as_string lib v = Inl e \<Longrightarrow> std_failure e" "get_integral lib v = Inl e \<Longrightarrow> std_failure e"
  "compression_type_from_toml lib v = Inl e \<Longrightarrow> std_failure e" "transport_type_from_toml lib v = Inl e \<Longrightarrow> std_failure e"
  "invalid_key lib key v = Inl e \<Longrightarrow> std_failure e"
  by (auto simp: as_string_def as_integer_def get_integral_def compression_type_from_toml_def transport_type_from_toml_def
      invalid_key_def toml_error_def bad_cast_def std_failure_def bindR_eq_Inl split: toml.splits if_splits)

lemma get_vector_fails:
  assumes "get_vector lib f v = Inl e" and "\<And>x e. f x = Inl e \<Longrightarrow> std_failure e"
  shows "std_failure e"
proof -
  have "each_element f xs = Inl e \<Longrightarrow> std_failure e" for xs
    by (induction xs) (auto simp: bindR_eq_Inl intro: assms(2))
  with assms(1) show ?thesis
    by (auto simp: get_vector_def as_array_def bad_cast_def std_failure_def bindR_eq_Inl split: toml.splits)
qed

lemma get_vector_valid:
  assumes "get_vector lib f v = Inr ys" and "\<And>x y. f x = Inr y \<Longrightarrow> P y"
  shows "list_all P ys"
proof -
  have "each_element f xs = Inr ys \<Longrightarrow> list_all P ys" for xs
    by (induction xs arbitrary: ys) (auto simp: bindR_eq_Inr intro: assms(2))
  with assms(1) show ?thesis by (auto simp: get_vector_def bindR_eq_Inr)
qed

interpretation compression: config_table lib "set_compression lib" "default_compression lib"
  "\<lambda>c. levels_ok lib \<longrightarrow> valid_compression lib c" for lib
proof unfold_locales
  show "levels_ok lib \<longrightarrow> valid_compression lib (default_compression lib)"
    by (simp add: levels_ok_def valid_compression_def default_compression_def zstd_compression_level_type_def)
next
  fix c v p c'
  assume "levels_ok lib \<longrightarrow> valid_compression lib c" "set_compression lib v p c = Inr c'"
  then show "levels_ok lib \<longrightarrow> valid_compression lib c'"
    by (cases p) (auto simp: set_compression_def valid_compression_def bindR_eq_Inr option_from_toml_Inr
        zstd_compression_level_type_def validate_zstd_compression_level_def invalid_key_def toml_error_def split: if_splits)
next
  fix v p c e
  assume "set_compression lib v p c = Inl e"
  then show "std_failure e"
    by (cases p) (auto simp: set_compression_def bindR_eq_Inl dest!: option_from_toml_fails intro: get_fails split: if_splits)
qed (auto simp: set_compression_def bindR_eq_Inr invalid_key_def toml_error_def split: if_splits)

lemma compression_from_toml_ok:
  "compression_from_toml lib v = Inr c \<Longrightarrow> levels_ok lib \<Longrightarrow> valid_compression lib c"
  "compression_from_toml lib v = Inl e \<Longrightarrow> std_failure e"
  unfolding compression_from_toml_def
  by (blast dest: compression.from_toml_valid) (rule compression.from_toml_fails)

lemmas put_simps = bindR_eq_Inr option_from_toml_Inr invalid_key_def toml_error_def

interpretation tcp: config_table lib "set_tcp lib" "default_tcp lib" "\<lambda>c. levels_ok lib \<longrightarrow> valid_tcp lib c" for lib
proof unfold_locales
  show "levels_ok lib \<longrightarrow> valid_tcp lib (default_tcp lib)"
    using compression.dflt_valid [of lib] by (simp add: valid_tcp_def default_tcp_def streaming_min_buf_size_type_def)
next
  fix c v p c'
  assume "levels_ok lib \<longrightarrow> valid_tcp lib c" "set_tcp lib v p c = Inr c'"
  then show "levels_ok lib \<longrightarrow> valid_tcp lib c'"
    by (cases p) (auto simp: set_tcp_def valid_tcp_def put_simps streaming_min_buf_size_type_def
        intro: compression_from_toml_ok split: if_splits)
next
  fix v p c e
  assume "set_tcp lib v p c = Inl e"
  then show "std_failure e"
    by (cases p) (auto simp: set_tcp_def bindR_eq_Inl dest!: option_from_toml_fails
        intro: get_fails compression_from_toml_ok split: if_splits)
qed (auto simp: set_tcp_def bindR_eq_Inr invalid_key_def toml_error_def split: if_splits)

interpretation udp: config_table lib "set_udp lib" "default_udp lib" "\<lambda>c. levels_ok lib \<longrightarrow> valid_udp lib c" for lib
proof unfold_locales
  show "levels_ok lib \<longrightarrow> valid_udp lib (default_udp lib)"
    using compression.dflt_valid [of lib] by (simp add: valid_udp_def default_udp_def datagram_buf_size_type_def)
next
  fix c v p c'
  assume "levels_ok lib \<longrightarrow> valid_udp lib c" "set_udp lib v p c = Inr c'"
  then show "levels_ok lib \<longrightarrow> valid_udp lib c'"
    by (cases p) (auto simp: set_udp_def valid_udp_def put_simps datagram_buf_size_type_def
        intro: compression_from_toml_ok split: if_splits)
next
  fix v p c e
  assume "set_udp lib v p c = Inl e"
  then show "std_failure e"
    by (cases p) (auto simp: set_udp_def bindR_eq_Inl dest!: option_from_toml_fails
        intro: get_fails compression_from_toml_ok split: if_splits)
qed (auto simp: set_udp_def bindR_eq_Inr invalid_key_def toml_error_def split: if_splits)

lemma transport_from_toml_ok:
  "tcp_acceptor_from_toml lib v = Inr tc \<Longrightarrow> levels_ok lib \<Longrightarrow> valid_tcp lib tc"
  "tcp_connector_from_toml lib v = Inr tc \<Longrightarrow> levels_ok lib \<Longrightarrow> valid_tcp lib tc"
  "udp_acceptor_from_toml lib v = Inr uc \<Longrightarrow> levels_ok lib \<Longrightarrow> valid_udp lib uc"
  "udp_connector_from_toml lib v = Inr uc \<Longrightarrow> levels_ok lib \<Longrightarrow> valid_udp lib uc"
  "tcp_acceptor_from_toml lib v = Inl e \<Longrightarrow> std_failure e" "tcp_connector_from_toml lib v = Inl e \<Longrightarrow> std_failure e"
  "udp_acceptor_from_toml lib v = Inl e \<Longrightarrow> std_failure e" "udp_connector_from_toml lib v = Inl e \<Longrightarrow> std_failure e"
  unfolding tcp_acceptor_from_toml_def tcp_connector_from_toml_def udp_acceptor_from_toml_def udp_connector_from_toml_def
  by (blast dest: tcp.from_toml_valid udp.from_toml_valid tcp.from_toml_fails udp.from_toml_fails)+

interpretation server: config_table lib "set_server lib" default_server "\<lambda>c. levels_ok lib \<longrightarrow> valid_server lib c" for lib
proof unfold_locales
  show "levels_ok lib \<longrightarrow> valid_server lib default_server"
    by (simp add: valid_server_def default_server_def num_threads_type_def)
next
  fix c v p c'
  assume "levels_ok lib \<longrightarrow> valid_server lib c" "set_server lib v p c = Inr c'"
  then show "levels_ok lib \<longrightarrow> valid_server lib c'"
    by (cases p) (auto simp: set_server_def valid_server_def put_simps num_threads_type_def
        elim!: get_vector_valid intro: transport_from_toml_ok split: if_splits)
next
  fix v p c e
  assume "set_server lib v p c = Inl e"
  then show "std_failure e"
    by (cases p) (auto simp: set_server_def bindR_eq_Inl dest!: option_from_toml_fails
        elim!: get_vector_fails intro: get_fails transport_from_toml_ok split: if_splits)
qed (auto simp: set_server_def bindR_eq_Inr invalid_key_def toml_error_def split: if_splits)

interpretation client: config_table lib "set_client lib" "default_client lib"
  "\<lambda>c. levels_ok lib \<longrightarrow> valid_client lib c" for lib
proof unfold_locales
  show "levels_ok lib \<longrightarrow> valid_client lib (default_client lib)"
    using tcp.dflt_valid [of lib] udp.dflt_valid [of lib]
    by (simp add: valid_client_def default_client_def num_threads_type_def sync_request_timeout_ms_type_def)
next
  fix c v p c'
  assume "levels_ok lib \<longrightarrow> valid_client lib c" "set_client lib v p c = Inr c'"
  then show "levels_ok lib \<longrightarrow> valid_client lib c'"
    by (cases p) (auto simp: set_client_def valid_client_def put_simps num_threads_type_def sync_request_timeout_ms_type_def
        intro: transport_from_toml_ok split: if_splits)
next
  fix v p c e
  assume "set_client lib v p c = Inl e"
  then show "std_failure e"
    by (cases p) (auto simp: set_client_def bindR_eq_Inl dest!: option_from_toml_fails
        intro: get_fails transport_from_toml_ok split: if_splits)
next
  fix p q :: "string \<times> toml" and v w c c1 c2
  assume pq: "fst p \<noteq> fst q" "set_client lib v p c = Inr c1" "set_client lib v q c1 = Inr c2"
  then show "\<exists>c1'. set_client lib w q c = Inr c1' \<and> set_client lib w p c1' = Inr c2"
    unfolding set_client_def
    by (cases p; cases q) (clarsimp simp: bindR_eq_Inr invalid_key_def toml_error_def split: if_splits)
qed (auto simp: set_client_def bindR_eq_Inr invalid_key_def toml_error_def split: if_splits)

lemma sides_from_toml_ok:
  "server_from_toml lib v = Inr sc \<Longrightarrow> levels_ok lib \<Longrightarrow> valid_server lib sc"
  "client_from_toml lib v = Inr lc \<Longrightarrow> levels_ok lib \<Longrightarrow> valid_client lib lc"
  "server_from_toml lib v = Inl e \<Longrightarrow> std_failure e" "client_from_toml lib v = Inl e \<Longrightarrow> std_failure e"
  unfolding server_from_toml_def client_from_toml_def
  by (blast dest: server.from_toml_valid client.from_toml_valid server.from_toml_fails client.from_toml_fails)+

interpretation mprpc: config_table lib "set_mprpc lib" "default_mprpc lib"
  "\<lambda>c. levels_ok lib \<longrightarrow> valid_mprpc lib c" for lib
proof unfold_locales
  show "levels_ok lib \<longrightarrow> valid_mprpc lib (default_mprpc lib)"
    using server.dflt_valid [of lib] client.dflt_valid [of lib] by (simp add: valid_mprpc_def default_mprpc_def)
next
  fix c v p c'
  assume "levels_ok lib \<longrightarrow> valid_mprpc lib c" "set_mprpc lib v p c = Inr c'"
  then show "levels_ok lib \<longrightarrow> valid_mprpc lib c'"
    by (cases p) (auto simp: set_mprpc_def valid_mprpc_def put_simps intro: sides_from_toml_ok split: if_splits)
next
  fix v p c e
  assume "set_mprpc lib v p c = Inl e"
  then show "std_failure e"
    by (cases p) (auto simp: set_mprpc_def bindR_eq_Inl intro: get_fails sides_from_toml_ok split: if_splits)
qed (auto simp: set_mprpc_def bindR_eq_Inr invalid_key_def toml_error_def split: if_splits)

section \<open>Properties\<close>

text \<open>
  C28. \<open>load\<close> gives a configuration in which every option has a value its type accepts, or throws an
  \<open>mprpc::exception\<close> with \<open>config_parse_error\<close>: at least one thread, a timeout and buffer sizes above zero and
  compression levels the library has, in every table that is present and by default in the others.
\<close>

theorem load_config_valid:
  assumes "levels_ok lib" and "\<And>e. tl_parse lib path = Inl e \<Longrightarrow> std_failure e"
  shows "case load_config lib path of
      Inr c \<Rightarrow> valid_mprpc lib c
    | Inl e \<Rightarrow> (\<exists>what. e = Throw (Mprpc_Exception (make_error config_parse_error what)))"
proof (cases "bindR (tl_parse lib path) (mprpc_from_toml lib)")
  case (Inl e)
  then have "std_failure e"
    using assms(2) mprpc.from_toml_fails by (auto simp: bindR_eq_Inl mprpc_from_toml_def)
  with Inl show ?thesis by (auto simp: load_config_def std_failure_def throw_error_def)
next
  case (Inr c)
  then have "valid_mprpc lib c"
    using assms(1) mprpc.from_toml_valid by (auto simp: bindR_eq_Inr mprpc_from_toml_def)
  with Inr show ?thesis by (simp add: load_config_def)
qed

text \<open>
  The order in which the hash map of a table is traversed does not matter: the same keys and values in
  another order give the same configuration of a client.
\<close>

theorem client_config_order:
  assumes "distinct (map fst ps)" and "mset qs = mset ps" and "client_from_toml lib (Toml_Table ps) = Inr c"
  shows "client_from_toml lib (Toml_Table qs) = Inr c"
  using assms unfolding client_from_toml_def by (rule client.from_toml_order)

lemma minus_one_size: "(0 :: size_t) < - 1" "unat (- 1 :: size_t) = 18446744073709551615"
  by (simp_all add: word_greater_zero_iff unsigned_minus_1_eq_mask mask_eq_exp_minus_1)


definition example_lib :: toml_lib where
  "example_lib = \<lparr>tl_parse = (\<lambda>_. Inr (Toml_Table [])), tl_format_error = (\<lambda>msg v c. msg),
     tl_bad_cast = (\<lambda>fn v. fn), tl_min_level = - 131072, tl_max_level = 22\<rparr>"

theorem load_config_valid_witness:
  "case load_config example_lib [] of
      Inr c \<Rightarrow> valid_mprpc example_lib c
    | Inl e \<Rightarrow> (\<exists>what. e = Throw (Mprpc_Exception (make_error config_parse_error what)))"
  by (rule load_config_valid) (simp_all add: example_lib_def levels_ok_def)

theorem client_config_order_witness:
  "\<exists>c. client_from_toml example_lib
     (Toml_Table [(''connector_type'', Toml_String ''UDP''), (''num_threads'', Toml_Integer 4)]) = Inr c \<and>
    lc_num_threads c = 4"
proof -
  obtain c where c: "client_from_toml example_lib
      (Toml_Table [(''num_threads'', Toml_Integer 4), (''connector_type'', Toml_String ''UDP'')]) = Inr c" "lc_num_threads c = 4"
    by (simp add: client_from_toml_def table_from_toml_def as_table_def set_client_def get_integral_def as_integer_def
        option_from_toml_def num_threads_type_def option_assign_def transport_type_from_toml_def as_string_def
        connector_type_type_def)
  from client_config_order [OF _ _ c(1)] c(2) show ?thesis by (intro exI [of _ c]) simp
qed

end
