(* ===== verification/Builder.thy ===== *)
theory Builder
  imports Config Server
begin

text \<open>
  The builders of \<^verbatim>\<open>include/mprpc/server_builder.h\<close> and
  \<^verbatim>\<open>include/mprpc/client_builder.h\<close> and \<open>method_client\<close> of
  \<^verbatim>\<open>include/mprpc/method_client.h\<close>, which join configuration, methods, thread pool and transports.

  The functions that create acceptors and connectors open sockets. They are parameters that give a number for the
  acceptor or connector or throw. They get the factories of compressors and parsers that
  \<^verbatim>\<open>create_compressor_factory.h\<close> and \<^verbatim>\<open>create_parser_factory.h\<close> choose.
\<close>

section \<open>Factories\<close>

datatype compressor_factory = Null_Compressor_Factory | Zstd_Compressor_Factory compression_config

datatype parser_factory = Msgpack_Parser_Factory | Zstd_Parser_Factory

text \<open>The default branches of both functions are left out: an option has no other value.\<close>

definition create_compressor_factory :: "compression_config \<Rightarrow> compressor_factory" where
  "create_compressor_factory config =
     (case cc_type config of
        No_Compression \<Rightarrow> Null_Compressor_Factory
      | Zstd_Compression \<Rightarrow> Zstd_Compressor_Factory config)"

definition create_parser_factory :: "compression_config \<Rightarrow> parser_factory" where
  "create_parser_factory config =
     (case cc_type config of
        No_Compression \<Rightarrow> Msgpack_Parser_Factory
      | Zstd_Compression \<Rightarrow> Zstd_Parser_Factory)"

type_synonym 'c create_transport = "compressor_factory \<Rightarrow> parser_factory \<Rightarrow> 'c \<Rightarrow> nat result"

definition create_tcp :: "tcp_config create_transport \<Rightarrow> tcp_config \<Rightarrow> nat result" where
  "create_tcp create config =
     create (create_compressor_factory (tc_compression config)) (create_parser_factory (tc_compression config)) config"

definition create_udp :: "udp_config create_transport \<Rightarrow> udp_config \<Rightarrow> nat result" where
  "create_udp create config =
     create (create_compressor_factory (ud_compression config)) (create_parser_factory (ud_compression config)) config"

section \<open>Servers\<close>

record 'u server_builder =
  sb_server_config :: server_config
  sb_methods :: "'u method_executor option list"

definition new_server_builder :: "'u server_builder" where
  "new_server_builder = \<lparr>sb_server_config = default_server, sb_methods = []\<rparr>"

definition sb_num_threads :: "size_t \<Rightarrow> 'u server_builder \<Rightarrow> 'u server_builder result" where
  "sb_num_threads n b =
     bindR (option_assign num_threads_type n) (\<lambda>v.
     Inr (b\<lparr>sb_server_config := (sb_server_config b)\<lparr>sc_num_threads := v\<rparr>\<rparr>))"

definition sb_set_server_config :: "server_config \<Rightarrow> 'u server_builder \<Rightarrow> 'u server_builder" where
  "sb_set_server_config config b = b\<lparr>sb_server_config := config\<rparr>"

definition sb_listen_tcp :: "tcp_config \<Rightarrow> 'u server_builder \<Rightarrow> 'u server_builder" where
  "sb_listen_tcp config b =
     b\<lparr>sb_server_config := (sb_server_config b)\<lparr>sc_tcp_acceptors := sc_tcp_acceptors (sb_server_config b) @ [config]\<rparr>\<rparr>"

definition sb_listen_udp :: "udp_config \<Rightarrow> 'u server_builder \<Rightarrow> 'u server_builder" where
  "sb_listen_udp config b =
     b\<lparr>sb_server_config := (sb_server_config b)\<lparr>sc_udp_acceptors := sc_udp_acceptors (sb_server_config b) @ [config]\<rparr>\<rparr>"

text \<open>A default configuration with an address, in which the assignments of options may throw.\<close>

definition tcp_at :: "toml_lib \<Rightarrow> string \<Rightarrow> 16 word \<Rightarrow> compression_type \<Rightarrow> tcp_config result" where
  "tcp_at lib host port compression =
     bindR (option_assign host_type host) (\<lambda>h.
     bindR (option_assign port_type port) (\<lambda>p.
     bindR (option_assign compression_type_type compression) (\<lambda>c.
     Inr ((default_tcp lib)\<lparr>tc_host := h, tc_port := p,
            tc_compression := (tc_compression (default_tcp lib))\<lparr>cc_type := c\<rparr>\<rparr>))))"

definition udp_at :: "toml_lib \<Rightarrow> string \<Rightarrow> 16 word \<Rightarrow> compression_type \<Rightarrow> udp_config result" where
  "udp_at lib host port compression =
     bindR (option_assign host_type host) (\<lambda>h.
     bindR (option_assign port_type port) (\<lambda>p.
     bindR (option_assign compression_type_type compression) (\<lambda>c.
     Inr ((default_udp lib)\<lparr>ud_host := h, ud_port := p,
            ud_compression := (ud_compression (default_udp lib))\<lparr>cc_type := c\<rparr>\<rparr>))))"

definition sb_listen_tcp_at ::
    "toml_lib \<Rightarrow> string \<Rightarrow> 16 word \<Rightarrow> compression_type \<Rightarrow> 'u server_builder \<Rightarrow> 'u server_builder result" where
  "sb_listen_tcp_at lib ip_address port compression b =
     bindR (tcp_at lib ip_address port compression) (\<lambda>config. Inr (sb_listen_tcp config b))"

definition sb_listen_udp_at ::
    "toml_lib \<Rightarrow> string \<Rightarrow> 16 word \<Rightarrow> compression_type \<Rightarrow> 'u server_builder \<Rightarrow> 'u server_builder result" where
  "sb_listen_udp_at lib ip_address port compression b =
     bindR (udp_at lib ip_address port compression) (\<lambda>config. Inr (sb_listen_udp config b))"

definition sb_method :: "string \<Rightarrow> 'u method_executor option \<Rightarrow> 'u server_builder \<Rightarrow> 'u server_builder result" where
  "sb_method fn p b =
     bindR (require_nonull p (Some ''method_executor'') (Some fn)) (\<lambda>m.
     Inr (b\<lparr>sb_methods := sb_methods b @ [Some m]\<rparr>))"

definition sb_function_method ::
    "string \<Rightarrow> string \<Rightarrow> ('u, 'v, 'r) user_function \<Rightarrow> 'u server_builder \<Rightarrow> 'u server_builder result" where
  "sb_function_method fn name f b = sb_method fn (Some (function_method_executor name f)) b"

text \<open>\<open>fns\<close> are the names of the constructors of method server, server and server base in error messages.\<close>

definition sb_create ::
    "string \<times> string \<times> string \<Rightarrow> tcp_config create_transport \<Rightarrow> udp_config create_transport \<Rightarrow> 'u \<Rightarrow> 'u server_builder \<Rightarrow>
     'u server result" where
  "sb_create fns create_tcp_acceptor create_udp_acceptor u b =
     (let config = sb_server_config b; threads = tp_create (unat (sc_num_threads config)) in
      bindR (simple_method_server (fst fns) (sb_methods b)) (\<lambda>method_server.
      if length (sc_tcp_acceptors config) + length (sc_udp_acceptors config) = 0 then
        throw_error (make_error invalid_config_value ''no acceptors'')
      else
        bindR (each_element (create_tcp create_tcp_acceptor) (sc_tcp_acceptors config)) (\<lambda>tcp_acceptors.
        bindR (each_element (create_udp create_udp_acceptor) (sc_udp_acceptors config)) (\<lambda>udp_acceptors.
        bindR (new_server (fst (snd fns)) (snd (snd fns)) (Some threads) (map Some (tcp_acceptors @ udp_acceptors))
          (Some method_server) u) (\<lambda>srv.
        Inr (server_start srv))))))"

section \<open>Clients\<close>

record client_builder =
  cb_client_config :: client_config

definition new_client_builder :: "toml_lib \<Rightarrow> client_builder" where
  "new_client_builder lib = \<lparr>cb_client_config = default_client lib\<rparr>"

definition cb_num_threads :: "size_t \<Rightarrow> client_builder \<Rightarrow> client_builder result" where
  "cb_num_threads n b =
     bindR (option_assign num_threads_type n) (\<lambda>v.
     Inr (b\<lparr>cb_client_config := (cb_client_config b)\<lparr>lc_num_threads := v\<rparr>\<rparr>))"

definition cb_set_client_config :: "client_config \<Rightarrow> client_builder \<Rightarrow> client_builder" where
  "cb_set_client_config config b = b\<lparr>cb_client_config := config\<rparr>"

definition cb_connect_tcp :: "tcp_config \<Rightarrow> client_builder \<Rightarrow> client_builder result" where
  "cb_connect_tcp config b =
     bindR (option_assign connector_type_type Tcp_Transport) (\<lambda>t.
     Inr (b\<lparr>cb_client_config := (cb_client_config b)\<lparr>lc_connector_type := t, lc_tcp_connector := config\<rparr>\<rparr>))"

definition cb_connect_udp :: "udp_config \<Rightarrow> client_builder \<Rightarrow> client_builder result" where
  "cb_connect_udp config b =
     bindR (option_assign connector_type_type Udp_Transport) (\<lambda>t.
     Inr (b\<lparr>cb_client_config := (cb_client_config b)\<lparr>lc_connector_type := t, lc_udp_connector := config\<rparr>\<rparr>))"

definition cb_connect_tcp_at ::
    "toml_lib \<Rightarrow> string \<Rightarrow> 16 word \<Rightarrow> compression_type \<Rightarrow> client_builder \<Rightarrow> client_builder result" where
  "cb_connect_tcp_at lib host port compression b =
     bindR (tcp_at lib host port compression) (\<lambda>config. cb_connect_tcp config b)"

definition cb_connect_udp_at ::
    "toml_lib \<Rightarrow> string \<Rightarrow> 16 word \<Rightarrow> compression_type \<Rightarrow> client_builder \<Rightarrow> client_builder result" where
  "cb_connect_udp_at lib host port compression b =
     bindR (udp_at lib host port compression) (\<lambda>config. cb_connect_udp config b)"

text \<open>\<open>create\<close> gives the client with its thread pool, its connector and what \<open>start\<close> asks of them.\<close>

definition cb_create ::
    "tcp_config create_transport \<Rightarrow> udp_config create_transport \<Rightarrow> client_builder \<Rightarrow>
     ('u client \<times> client_action list \<times> 'f thread_pool \<times> nat) result" where
  "cb_create create_tcp_connector create_udp_connector b =
     (let config = cb_client_config b; threads = tp_create (unat (lc_num_threads config)) in
      bindR (case lc_connector_type config of
               Tcp_Transport \<Rightarrow> create_tcp create_tcp_connector (lc_tcp_connector config)
             | Udp_Transport \<Rightarrow> create_udp create_udp_connector (lc_udp_connector config)) (\<lambda>connector.
      case client_start new_client of
        (c, acts) \<Rightarrow> Inr (c, acts, tp_start threads, connector)))"

section \<open>method_client\<close>

definition method_client_async_request ::
    "string \<Rightarrow> 'u client \<Rightarrow> bytes result \<Rightarrow> 'u client \<times> client_action list \<times> nat result" where
  "method_client_async_request method c params = client_async_request c method params"

definition method_client_request ::
    "string \<Rightarrow> (mobj \<Rightarrow> 'a result) \<Rightarrow> 'a completion client \<Rightarrow> bytes result \<Rightarrow>
     'a completion client \<times> client_action list \<times> unit result" where
  "method_client_request method conv c params = client_request conv c method params"

definition method_client_notify ::
    "string \<Rightarrow> 'u client \<Rightarrow> bytes result \<Rightarrow> 'u client \<times> client_action list \<times> unit result" where
  "method_client_notify method c params = client_notify c method params"

section \<open>What builders hold\<close>

text \<open>The builders a program can have; the configurations it passes hold options, whose values are valid.\<close>

inductive server_built :: "toml_lib \<Rightarrow> 'u server_builder \<Rightarrow> bool" for lib where
  built_new: "server_built lib new_server_builder"
| built_threads: "server_built lib b \<Longrightarrow> sb_num_threads n b = Inr b' \<Longrightarrow> server_built lib b'"
| built_config: "server_built lib b \<Longrightarrow> valid_server lib c \<Longrightarrow> server_built lib (sb_set_server_config c b)"
| built_tcp: "server_built lib b \<Longrightarrow> valid_tcp lib tc \<Longrightarrow> server_built lib (sb_listen_tcp tc b)"
| built_udp: "server_built lib b \<Longrightarrow> valid_udp lib uc \<Longrightarrow> server_built lib (sb_listen_udp uc b)"
| built_tcp_at: "server_built lib b \<Longrightarrow> sb_listen_tcp_at lib host port ct b = Inr b' \<Longrightarrow> server_built lib b'"
| built_udp_at: "server_built lib b \<Longrightarrow> sb_listen_udp_at lib host port ct b = Inr b' \<Longrightarrow> server_built lib b'"
| built_method: "server_built lib b \<Longrightarrow> sb_method fn p b = Inr b' \<Longrightarrow> server_built lib b'"

inductive client_built :: "toml_lib \<Rightarrow> client_builder \<Rightarrow> bool" for lib where
  cbuilt_new: "client_built lib (new_client_builder lib)"
| cbuilt_threads: "client_built lib b \<Longrightarrow> cb_num_threads n b = Inr b' \<Longrightarrow> client_built lib b'"
| cbuilt_config: "client_built lib b \<Longrightarrow> valid_client lib c \<Longrightarrow> client_built lib (cb_set_client_config c b)"
| cbuilt_tcp: "client_built lib b \<Longrightarrow> valid_tcp lib tc \<Longrightarrow> cb_connect_tcp tc b = Inr b' \<Longrightarrow> client_built lib b'"
| cbuilt_udp: "client_built lib b \<Longrightarrow> valid_udp lib uc \<Longrightarrow> cb_connect_udp uc b = Inr b' \<Longrightarrow> client_built lib b'"
| cbuilt_tcp_at: "client_built lib b \<Longrightarrow> cb_connect_tcp_at lib host port ct b = Inr b' \<Longrightarrow> client_built lib b'"
| cbuilt_udp_at: "client_built lib b \<Longrightarrow> cb_connect_udp_at lib host port ct b = Inr b' \<Longrightarrow> client_built lib b'"

lemma option_assign_Inr: "option_assign ot v = Inr w \<longleftrightarrow> ot_validate ot v \<and> w = v"
  by (auto simp: option_assign_def throw_error_def)

lemma at_valid:
  "levels_ok lib \<Longrightarrow> tcp_at lib host port ct = Inr tc \<Longrightarrow> valid_tcp lib tc"
  "levels_ok lib \<Longrightarrow> udp_at lib host port ct = Inr uc \<Longrightarrow> valid_udp lib uc"
  using tcp.dflt_valid [of lib] udp.dflt_valid [of lib]
  by (auto simp: tcp_at_def udp_at_def bindR_eq_Inr option_assign_Inr valid_tcp_def valid_udp_def valid_compression_def)

lemma server_built_valid:
  assumes "server_built lib b" and "levels_ok lib"
  shows "valid_server lib (sb_server_config b) \<and> None \<notin> set (sb_methods b)"
  using assms(1)
proof induction
  case built_new
  show ?case using server.dflt_valid [of lib] assms(2) by (simp add: new_server_builder_def)
qed (use assms(2) in \<open>auto simp: sb_num_threads_def sb_set_server_config_def sb_listen_tcp_def sb_listen_udp_def
      sb_listen_tcp_at_def sb_listen_udp_at_def sb_method_def bindR_eq_Inr option_assign_Inr num_threads_type_def
      valid_server_def dest: at_valid\<close>)

lemma client_built_valid:
  assumes "client_built lib b" and "levels_ok lib"
  shows "valid_client lib (cb_client_config b)"
  using assms(1)
proof induction
  case cbuilt_new
  show ?case using client.dflt_valid [of lib] assms(2) by (simp add: new_client_builder_def)
qed (use assms(2) in \<open>auto simp: cb_num_threads_def cb_set_client_config_def cb_connect_tcp_def cb_connect_udp_def
      cb_connect_tcp_at_def cb_connect_udp_at_def bindR_eq_Inr option_assign_Inr num_threads_type_def
      valid_client_def dest: at_valid\<close>)

section \<open>What they create\<close>

lemma each_element_Inr: "each_element f xs = Inr ys \<Longrightarrow> list_all2 (\<lambda>x y. f x = Inr y) xs ys"
  by (induction xs arbitrary: ys) (auto simp: bindR_eq_Inr)

lemma each_element_Inl: "each_element f xs = Inl e \<Longrightarrow> \<exists>x \<in> set xs. f x = Inl e"
  by (induction xs) (auto simp: bindR_eq_Inl)

lemma started_runs: "k < n \<Longrightarrow> sv_threads s = tp_start (tp_create n) \<Longrightarrow> runs_in k s"
  by (simp add: runs_in_def tp_start_def tp_create_def)

lemma method_table:
  assumes "None \<notin> set ps"
  shows "simple_method_server fn ps = Inr (\<lambda>name. find (\<lambda>m. me_name m = name) (map the ps))"
proof -
  from assms have "map Some (map the ps) = ps" by (induction ps) auto
  with add_methods_find [of fn "map the ps" Map.empty] show ?thesis by (simp add: simple_method_server_def)
qed

lemma sb_create_eq:
  assumes "None \<notin> set (sb_methods b)" and "sc_tcp_acceptors (sb_server_config b) \<noteq> [] \<or> sc_udp_acceptors (sb_server_config b) \<noteq> []"
  shows "sb_create fns create_tcp_acceptor create_udp_acceptor u b =
    bindR (each_element (create_tcp create_tcp_acceptor) (sc_tcp_acceptors (sb_server_config b))) (\<lambda>ts.
    bindR (each_element (create_udp create_udp_acceptor) (sc_udp_acceptors (sb_server_config b))) (\<lambda>us.
    Inr \<lparr>sv_methods = (\<lambda>name. find (\<lambda>m. me_name m = name) (map the (sb_methods b))), sv_acceptors = ts @ us, sv_sessions = {},
      sv_threads = tp_start (tp_create (unat (sc_num_threads (sb_server_config b)))), sv_user = u,
      sv_actions = map Accept_Session (ts @ us)\<rparr>))"
  using assms
  by (auto simp: sb_create_def Let_def method_table new_server_Inr started_server [OF new_server_Inr]
      simp del: map_append)


text \<open>A client that a builder creates has running threads, and its connector is of the configured kind and is read.\<close>

lemma created_client_ready:
  assumes "client_built lib b" and "levels_ok lib"
    and "cb_create create_tcp_connector create_udp_connector b = Inr (c, acts, threads, connector)"
  shows "c = new_client" "acts = [Threads_Start, Connector_Read]"
    "tp_threads threads = replicate (unat (lc_num_threads (cb_client_config b))) Running" "tp_threads threads \<noteq> []"
    "(case lc_connector_type (cb_client_config b) of
        Tcp_Transport \<Rightarrow> create_tcp create_tcp_connector (lc_tcp_connector (cb_client_config b))
      | Udp_Transport \<Rightarrow> create_udp create_udp_connector (lc_udp_connector (cb_client_config b))) = Inr connector"
  using client_built_valid [OF assms(1,2)] assms(3)
  by (auto simp: cb_create_def Let_def client_start_def bindR_eq_Inr tp_start_def tp_create_def valid_client_def
      unat_gt_0 word_greater_zero_iff unat_eq_0)

section \<open>Example\<close>

definition example_builder :: "nat server_builder" where
  "example_builder = sb_listen_udp (default_udp example_lib) (sb_listen_tcp (default_tcp example_lib) new_server_builder)"


end
