(* ===== verification/Sockets.thy ===== *)
theory Sockets
  imports Udp Config
begin

text \<open>
  How acceptors, connectors and sessions come to be and how TCP sessions end:
  \<^verbatim>\<open>src/transport/tcp/tcp.cpp\<close>, \<^verbatim>\<open>src/transport/udp/udp.cpp\<close> and
  \<open>tcp_session\<close>, \<open>tcp_acceptor\<close> and \<open>tcp_connector\<close> of
  \<^verbatim>\<open>impl/mprpc/transport/tcp/impl\<close>.

  What the operating system and the resolver answer are functions of \<open>asio_ip\<close> or arguments. The addresses
  that are written to the log are asked of the socket first, and the exceptions of these calls are part of the
  model.
\<close>

section \<open>Addresses and sockets\<close>

record ('ip, 'e) asio_ip =
  ai_make_address :: "string \<Rightarrow> 'ip option"
  ai_resolve :: "string \<Rightarrow> string \<Rightarrow> string + 'e list"
  ai_is_v4 :: "'e \<Rightarrow> bool"
  ai_open :: "bool \<Rightarrow> string option"
  ai_connect :: "bool \<Rightarrow> 'e \<Rightarrow> string option"
  ai_bind :: "'ip \<Rightarrow> 16 word \<Rightarrow> string option"
  ai_success :: string

text \<open>
  \<open>asio::basic_socket::connect\<close> opens the socket when it is not open and leaves it open when connecting fails.
  A socket is \<open>None\<close> or the family it was opened with.
\<close>

definition socket_connect :: "('ip, 'e) asio_ip \<Rightarrow> bool option \<Rightarrow> 'e \<Rightarrow> bool option \<times> string option" where
  "socket_connect io sock e =
     (case sock of
        None \<Rightarrow>
          (case ai_open io (ai_is_v4 io e) of
             Some err \<Rightarrow> (None, Some err)
           | None \<Rightarrow> (Some (ai_is_v4 io e), ai_connect io (ai_is_v4 io e) e))
      | Some v4 \<Rightarrow> (Some v4, ai_connect io v4 e))"

section \<open>TCP\<close>

definition tcp_session_create ::
    "string \<Rightarrow> ('p, 'c, 'r, 'w) helper_env \<Rightarrow> 'c option \<Rightarrow> 'p option \<Rightarrow> 'e result \<Rightarrow> 'e result \<Rightarrow>
     ('p, 'c, 'r, 'w) connection result" where
  "tcp_session_create fn env compr parser remote local =
     bindR (require_nonull compr (Some ''comp'') (Some fn)) (\<lambda>c.
     bindR (require_nonull parser (Some ''parser'') (Some fn)) (\<lambda>p.
     bindR remote (\<lambda>_. bindR local (\<lambda>_.
     Inr (connection_start env c p)))))"

definition tcp_connector_create ::
    "string \<Rightarrow> ('p, 'c, 'r, 'w) helper_env \<Rightarrow> 'c option \<Rightarrow> 'p option \<Rightarrow> 'e result \<Rightarrow> 'e result \<Rightarrow>
     ('p, 'c, 'r, 'w) connection result" where
  "tcp_connector_create fn env compr parser local remote =
     bindR (require_nonull compr (Some ''comp'') (Some fn)) (\<lambda>c.
     bindR (require_nonull parser (Some ''parser'') (Some fn)) (\<lambda>p.
     bindR local (\<lambda>_. bindR remote (\<lambda>_.
     Inr (connection_start env c p)))))"

record ('ip, 'cf, 'pf) tcp_acceptor =
  ta_endpoint :: "'ip \<times> 16 word"
  ta_compressor_factory :: 'cf
  ta_parser_factory :: 'pf
  ta_config :: tcp_config

definition tcp_acceptor_create ::
    "string \<Rightarrow> ('ip, 'e) asio_ip \<Rightarrow> 'ip \<times> 16 word \<Rightarrow> 'cf option \<Rightarrow> 'pf option \<Rightarrow> tcp_config \<Rightarrow>
     ('ip, 'cf, 'pf) tcp_acceptor result" where
  "tcp_acceptor_create fn io endpoint comp_factory parser_factory_ptr config =
     bindR (require_nonull comp_factory (Some ''comp_factory'') (Some fn)) (\<lambda>cf.
     bindR (require_nonull parser_factory_ptr (Some ''parser_factory_ptr'') (Some fn)) (\<lambda>pf.
     case ai_bind io (fst endpoint) (snd endpoint) of
       Some what \<Rightarrow> throw_error (make_error failed_to_listen what)
     | None \<Rightarrow> Inr \<lparr>ta_endpoint = endpoint, ta_compressor_factory = cf, ta_parser_factory = pf, ta_config = config\<rparr>))"

text \<open>
  What \<open>async_accept\<close> gets from the system: an error, or a socket with the answers to \<open>remote_endpoint()\<close> in
  \<open>on_accept\<close>, to the creation of compressor and parser, and to the two calls in the constructor of the session.
\<close>

datatype ('p, 'c, 'e) accept_result =
    Accept_Error asio_error
  | Accept_Socket "'e result" "'c option result" "'p option result" "'e result" "'e result"

text \<open>The arguments the handler is called with, if it is called.\<close>

definition tcp_on_accept ::
    "string \<Rightarrow> ('p, 'c, 'r, 'w) helper_env \<Rightarrow> ('p, 'c, 'e) accept_result \<Rightarrow>
     (error_info \<times> ('p, 'c, 'r, 'w) connection option) option result" where
  "tcp_on_accept fn env res =
     (case res of
        Accept_Error operation_aborted \<Rightarrow> Inr None
      | Accept_Error err \<Rightarrow> Inr (Some (make_error failed_to_accept (asio_message err), None))
      | Accept_Socket remote_endpoint compr parser remote local \<Rightarrow>
          bindR remote_endpoint (\<lambda>_.
          bindR compr (\<lambda>compr. bindR parser (\<lambda>parser.
          bindR (tcp_session_create fn env compr parser remote local) (\<lambda>session.
          Inr (Some (None, Some session)))))))"

text \<open>\<open>fns\<close> are the names of the function and of the constructor in error messages.\<close>

definition create_tcp_acceptor ::
    "string \<times> string \<Rightarrow> ('ip, 'e) asio_ip \<Rightarrow> 'cf option \<Rightarrow> 'pf option \<Rightarrow> tcp_config \<Rightarrow>
     ('ip, 'cf, 'pf) tcp_acceptor result" where
  "create_tcp_acceptor fns io comp_factory parser_factory_ptr config =
     bindR (require_nonull comp_factory (Some ''comp_factory'') (Some (fst fns))) (\<lambda>_.
     bindR (require_nonull parser_factory_ptr (Some ''parser_factory_ptr'') (Some (fst fns))) (\<lambda>_.
     case ai_make_address io (tc_host config) of
       None \<Rightarrow> throw_error (make_error failed_to_listen (''invalid IP address: '' @ tc_host config))
     | Some ip \<Rightarrow> tcp_acceptor_create (snd fns) io (ip, tc_port config) comp_factory parser_factory_ptr config))"

text \<open>
  The loop over the resolved endpoints: the socket and the last error, and the endpoint it connects to or the
  error after the last of them.
\<close>

fun connect_loop :: "('ip, 'e) asio_ip \<Rightarrow> bool option \<Rightarrow> string \<Rightarrow> 'e list \<Rightarrow> string + 'e" where
  "connect_loop io sock err [] = Inl err"
| "connect_loop io sock err (e # es) =
     (case socket_connect io sock e of
        (sock, None) \<Rightarrow> Inr e
      | (sock, Some err) \<Rightarrow> connect_loop io sock err es)"

text \<open>\<open>answers\<close> are the factories' results and the endpoints of the connected socket.\<close>

record ('p, 'c, 'e) connect_answers =
  ca_port :: "'e result"
  ca_compressor :: "'c option result"
  ca_parser :: "'p option result"
  ca_local :: "'e result"
  ca_remote :: "'e result"

definition tcp_connected ::
    "string \<Rightarrow> ('p, 'c, 'r, 'w) helper_env \<Rightarrow> ('p, 'c, 'e) connect_answers \<Rightarrow> ('p, 'c, 'r, 'w) connection result" where
  "tcp_connected fn env ans =
     bindR (ca_port ans) (\<lambda>_. bindR (ca_compressor ans) (\<lambda>compr. bindR (ca_parser ans) (\<lambda>parser.
     tcp_connector_create fn env compr parser (ca_local ans) (ca_remote ans))))"

definition create_tcp_connector ::
    "string \<times> string \<Rightarrow> ('ip, 'e) asio_ip \<Rightarrow> ('p, 'c, 'r, 'w) helper_env \<Rightarrow> ('e \<Rightarrow> ('p, 'c, 'e) connect_answers) \<Rightarrow>
     'cf option \<Rightarrow> 'pf option \<Rightarrow> tcp_config \<Rightarrow> ('e \<times> ('p, 'c, 'r, 'w) connection) result" where
  "create_tcp_connector fns io env ans comp_factory parser_factory_ptr config =
     bindR (require_nonull comp_factory (Some ''comp_factory'') (Some (fst fns))) (\<lambda>_.
     bindR (require_nonull parser_factory_ptr (Some ''parser_factory_ptr'') (Some (fst fns))) (\<lambda>_.
     let host = tc_host config; port = decimal (unat (tc_port config)) in
     case ai_resolve io host port of
       Inl err \<Rightarrow> throw_error (make_error failed_to_resolve (''failed to resolve '' @ host @ '': '' @ err))
     | Inr es \<Rightarrow>
         (case connect_loop io None (ai_success io) es of
            Inl err \<Rightarrow> throw_error (make_error failed_to_connect
              (''failed to connect to '' @ host @ '':'' @ port @ '': '' @ err))
          | Inr e \<Rightarrow> bindR (tcp_connected (snd fns) env (ans e)) (\<lambda>cn. Inr (e, cn)))))"

section \<open>UDP\<close>

record ('p, 'c) udp_acceptor =
  ua_helper :: "('p, 'c) udp_common"

record ('p, 'c, 'e) udp_connector =
  un_helper :: "('p, 'c) udp_common"
  un_endpoint :: 'e

text \<open>The constructor of \<open>udp_common\<close> followed by \<open>init\<close>, as acceptor and connector do.\<close>

definition udp_common_create ::
    "string \<Rightarrow> 'c option \<Rightarrow> 'p option \<Rightarrow> udp_config \<Rightarrow> ('p, 'c) udp_common result" where
  "udp_common_create fn compr parser_ptr config =
     bindR (require_nonull compr (Some ''comp'') (Some fn)) (\<lambda>c.
     bindR (require_nonull parser_ptr (Some ''parser_ptr'') (Some fn)) (\<lambda>p.
     Inr (uc_init (ud_datagram_buf_size config) \<lparr>uc_parser = p, uc_compressor = c, uc_buf = []\<rparr>)))"

text \<open>Opening the socket throws \<open>std::system_error\<close>, which is caught; the factories throw other exceptions.\<close>

definition create_udp_acceptor ::
    "string \<times> string \<Rightarrow> ('ip, 'e) asio_ip \<Rightarrow> ('cf \<Rightarrow> 'c option result) \<Rightarrow> ('pf \<Rightarrow> 'p option result) \<Rightarrow>
     'cf option \<Rightarrow> 'pf option \<Rightarrow> udp_config \<Rightarrow> ('p, 'c) udp_acceptor result" where
  "create_udp_acceptor fns io mk_comp mk_parser comp_factory parser_factory_ptr config =
     bindR (require_nonull comp_factory (Some ''comp_factory'') (Some (fst fns))) (\<lambda>cf.
     bindR (require_nonull parser_factory_ptr (Some ''parser_factory_ptr'') (Some (fst fns))) (\<lambda>pf.
     case ai_make_address io (ud_host config) of
       None \<Rightarrow> throw_error (make_error failed_to_listen (''invalid IP address: '' @ ud_host config))
     | Some ip \<Rightarrow>
         (case ai_bind io ip (ud_port config) of
            Some what \<Rightarrow> throw_error (make_error failed_to_listen what)
          | None \<Rightarrow>
              bindR (mk_comp cf) (\<lambda>compr. bindR (mk_parser pf) (\<lambda>parser.
              bindR (udp_common_create (snd fns) compr parser config) (\<lambda>h.
              Inr \<lparr>ua_helper = h\<rparr>))))))"

text \<open>The socket of a connector is opened by constructors that throw; \<open>local\<close> answers \<open>local_endpoint()\<close>.\<close>

definition create_udp_connector ::
    "string \<times> string \<Rightarrow> ('ip, 'e) asio_ip \<Rightarrow> 'e result \<Rightarrow> ('cf \<Rightarrow> 'c option result) \<Rightarrow> ('pf \<Rightarrow> 'p option result) \<Rightarrow>
     'cf option \<Rightarrow> 'pf option \<Rightarrow> udp_config \<Rightarrow> ('p, 'c, 'e) udp_connector result" where
  "create_udp_connector fns io local mk_comp mk_parser comp_factory parser_factory_ptr config =
     bindR (require_nonull comp_factory (Some ''comp_factory'') (Some (fst fns))) (\<lambda>cf.
     bindR (require_nonull parser_factory_ptr (Some ''parser_factory_ptr'') (Some (fst fns))) (\<lambda>pf.
     let host = ud_host config; port = decimal (unat (ud_port config)) in
     case ai_resolve io host port of
       Inl err \<Rightarrow> throw_error (make_error failed_to_resolve (''failed to resolve '' @ host @ '': '' @ err))
     | Inr [] \<Rightarrow> Inl Undefined
     | Inr (endpoint # _) \<Rightarrow>
         (case ai_open io (ai_is_v4 io endpoint) of
            Some what \<Rightarrow> Inl (Throw (Std_Exception what))
          | None \<Rightarrow>
              bindR local (\<lambda>_.
              bindR (mk_comp cf) (\<lambda>compr. bindR (mk_parser pf) (\<lambda>parser.
              bindR (udp_common_create (snd fns) compr parser config) (\<lambda>h.
              Inr \<lparr>un_helper = h, un_endpoint = endpoint\<rparr>)))))))"

section \<open>Connecting\<close>

lemma connect_loop_same_family:
  assumes "\<forall>e \<in> set es. ai_is_v4 io e = v4" and "sock = Some v4 \<or> sock = None \<and> ai_open io v4 = None"
  shows "connect_loop io sock err es =
    (case find (\<lambda>e. ai_connect io v4 e = None) es of
       Some e \<Rightarrow> Inr e
     | None \<Rightarrow> Inl (last (err # map (\<lambda>e. the (ai_connect io v4 e)) es)))"
  using assms
proof (induction es arbitrary: sock err)
  case (Cons e es)
  have "socket_connect io sock e = (Some v4, ai_connect io v4 e)"
    using Cons.prems by (auto simp: socket_connect_def)
  moreover have "\<forall>e \<in> set es. ai_is_v4 io e = v4" using Cons.prems(1) by simp
  ultimately show ?case using Cons.IH [of "Some v4"] by (cases "ai_connect io v4 e") (simp_all split: option.split)
qed simp

text \<open>
  When all addresses of the host are of one family, \<open>create_tcp_connector\<close> connects to the first of them, in the order of
  the resolver, that accepts the connection; when none does, it throws \<open>failed_to_connect\<close> with the error of the last
  one; when the name cannot be resolved, \<open>failed_to_resolve\<close>.
\<close>

theorem tcp_connects_to_first:
  assumes "\<And>es e. ai_resolve io (tc_host config) (decimal (unat (tc_port config))) = Inr es \<Longrightarrow> e \<in> set es \<Longrightarrow>
      ai_is_v4 io e = v4"
    and "ai_open io v4 = None"
  shows "create_tcp_connector fns io env ans (Some cf) (Some pf) config =
    (case ai_resolve io (tc_host config) (decimal (unat (tc_port config))) of
       Inl err \<Rightarrow> throw_error (make_error failed_to_resolve (''failed to resolve '' @ tc_host config @ '': '' @ err))
     | Inr es \<Rightarrow>
         (case find (\<lambda>e. ai_connect io v4 e = None) es of
            Some e \<Rightarrow> bindR (tcp_connected (snd fns) env (ans e)) (\<lambda>cn. Inr (e, cn))
          | None \<Rightarrow> throw_error (make_error failed_to_connect (''failed to connect to '' @ tc_host config @ '':'' @
              decimal (unat (tc_port config)) @ '': '' @ last (ai_success io # map (\<lambda>e. the (ai_connect io v4 e)) es)))))"
proof (cases "ai_resolve io (tc_host config) (decimal (unat (tc_port config)))")
  case (Inl err)
  then show ?thesis by (simp add: create_tcp_connector_def Let_def require_nonull_def)
next
  case (Inr es)
  have "connect_loop io None (ai_success io) es =
    (case find (\<lambda>e. ai_connect io v4 e = None) es of
       Some e \<Rightarrow> Inr e
     | None \<Rightarrow> Inl (last (ai_success io # map (\<lambda>e. the (ai_connect io v4 e)) es)))"
    by (rule connect_loop_same_family) (use assms Inr in auto)
  with Inr show ?thesis
    by (simp add: create_tcp_connector_def Let_def require_nonull_def split: option.split)
qed

text \<open>Connecting a socket of one family to an address of the other fails.\<close>

definition families_separate :: "('ip, 'e) asio_ip \<Rightarrow> bool" where
  "families_separate io \<longleftrightarrow> (\<forall>v4 e. ai_is_v4 io e \<noteq> v4 \<longrightarrow> ai_connect io v4 e \<noteq> None)"

lemma connect_loop_other_family:
  assumes "families_separate io" and "\<forall>e \<in> set es. ai_is_v4 io e \<noteq> v4"
  shows "\<exists>err'. connect_loop io (Some v4) err es = Inl err'"
  using assms
  by (induction es arbitrary: err) (auto simp: socket_connect_def families_separate_def split: option.split)

text \<open>
  C38. The socket is not closed between two attempts and stays of the family of the first address. When that address refuses
  the connection, addresses of the other family are never reached: \<open>create_tcp_connector\<close> throws \<open>failed_to_connect\<close>
  although the server listens on one of them.
\<close>

theorem tcp_other_family_unreachable:
  assumes "families_separate io" and "ai_resolve io (tc_host config) (decimal (unat (tc_port config))) = Inr (e # es)"
    and "ai_open io (ai_is_v4 io e) = None" and "ai_connect io (ai_is_v4 io e) e \<noteq> None"
    and "\<forall>e' \<in> set es. ai_is_v4 io e' \<noteq> ai_is_v4 io e"
  shows "\<exists>what. create_tcp_connector fns io env ans (Some cf) (Some pf) config =
    throw_error (make_error failed_to_connect what)"
proof -
  obtain err where err: "ai_connect io (ai_is_v4 io e) e = Some err" using assms(4) by auto
  obtain err' where "connect_loop io (Some (ai_is_v4 io e)) err es = Inl err'"
    using connect_loop_other_family [OF assms(1,5)] by blast
  with assms(3) err have "connect_loop io None (ai_success io) (e # es) = Inl err'"
    by (simp add: socket_connect_def)
  with assms(2) show ?thesis
    by (simp add: create_tcp_connector_def Let_def require_nonull_def del: connect_loop.simps) blast
qed

section \<open>Shutting down\<close>

text \<open>
  The function \<open>shutdown\<close> posts. It refers to a promise on the stack of \<open>shutdown\<close>; \<open>waiting\<close> says whether that call still
  waits.
\<close>

definition shutdown_function :: "bool \<Rightarrow> 'e result \<Rightarrow> unit result \<Rightarrow> unit result \<Rightarrow> unit result" where
  "shutdown_function waiting endpoint shut close =
     bindR endpoint (\<lambda>_. if waiting then bindR shut (\<lambda>_. close) else Inl Undefined)"

text \<open>
  A call of \<open>shutdown\<close>: whether it still waits and what became of the function. It waits in the thread that called it,
  so the function can run in that thread only afterwards.
\<close>

record shutdown_call =
  sd_waiting :: bool
  sd_function :: "unit result option"

datatype 'e shutdown_event = Wait_Ends | Function_Runs nat "'e result" "unit result" "unit result"

fun shutdown_next ::
    "thread_state list \<Rightarrow> nat option \<Rightarrow> shutdown_call \<Rightarrow> 'e shutdown_event \<Rightarrow> shutdown_call option" where
  "shutdown_next threads caller sd Wait_Ends = (if sd_waiting sd then Some (sd\<lparr>sd_waiting := False\<rparr>) else None)"
| "shutdown_next threads caller sd (Function_Runs j endpoint shut close) =
     (if sd_function sd = None \<and> j < length threads \<and> threads ! j = Running \<and> \<not> (sd_waiting sd \<and> caller = Some j)
      then Some (sd\<lparr>sd_function := Some (shutdown_function (sd_waiting sd) endpoint shut close)\<rparr>)
      else None)"

definition shutdown_called :: shutdown_call where
  "shutdown_called = \<lparr>sd_waiting = True, sd_function = None\<rparr>"


section \<open>Examples\<close>

text \<open>A host with an address of each family, of which only the second accepts connections.\<close>

definition example_io :: "(unit, bool) asio_ip" where
  "example_io = \<lparr>ai_make_address = (\<lambda>_. None), ai_resolve = (\<lambda>_ _. Inr [False, True]), ai_is_v4 = (\<lambda>e. e),
     ai_open = (\<lambda>_. None), ai_connect = (\<lambda>v4 e. if v4 \<and> e then None else Some ''refused''), ai_bind = (\<lambda>_ _. None),
     ai_success = ''Success''\<rparr>"

definition example_answers :: "'e \<Rightarrow> (msgpack_streaming_parser, unit, 'e) connect_answers" where
  "example_answers e = \<lparr>ca_port = Inr e, ca_compressor = Inr (Some ()), ca_parser = Inr (Some example_empty_parser),
     ca_local = Inr e, ca_remote = Inr e\<rparr>"

theorem tcp_connects_to_first_witness:
  "create_tcp_connector ([], []) (example_io\<lparr>ai_resolve := (\<lambda>_ _. Inr [True])\<rparr>) example_env example_answers
     (Some ()) (Some ()) (default_tcp example_lib) =
   Inr (True, connection_start example_env () example_empty_parser)"
  by (subst tcp_connects_to_first [where ?v4.0 = True])
    (auto simp: example_io_def example_answers_def tcp_connected_def tcp_connector_create_def require_nonull_def)

theorem tcp_other_family_unreachable_witness:
  "\<exists>what. create_tcp_connector ([], []) example_io example_env example_answers (Some ()) (Some ()) (default_tcp example_lib) =
     throw_error (make_error failed_to_connect what)"
  by (rule tcp_other_family_unreachable [of _ _ False "[True]"])
    (simp_all add: example_io_def families_separate_def)


end
