(* ===== verification/Tcp_Server.thy ===== *)
theory Tcp_Server
  imports Sockets
begin

text \<open>
  A server on TCP: the model of the server composed with the stream socket helpers of its sessions. Server and
  helpers share the threads of the pool. What the server asks of a session becomes a function on the strand of the
  session's helper; when the helper calls the read handler, \<open>on_read\<close> of the server runs in the same thread before
  the helper goes on.

  The operating system decides when operations complete and with what, and every function runs in any thread that is
  running. An exception that leaves a function of a helper ends the thread; the session goes on with the operations
  that are still outstanding.
\<close>

section \<open>The handler of a read\<close>

text \<open>How \<open>on_read\<close> of the server ends; this does not depend on the state of the server.\<close>

definition server_reads :: "error_info \<Rightarrow> message_data \<Rightarrow> unit result" where
  "server_reads err data =
     (if has_error err then Inr ()
      else
        (case message_ctor data of
           Inl (Throw (Mprpc_Exception info)) \<Rightarrow> Inr ()
         | Inl e \<Rightarrow> Inl e
         | Inr _ \<Rightarrow> Inr ()))"

lemma run_task_reads: "snd (run_task (Message_Read sess True err data) s) = server_reads err data"
  by (simp add: server_reads_def sv_on_read_def async_process_message_def
      split: sum.split failure.split exn.split)

text \<open>The handler of a write does nothing.\<close>

definition tcp_env ::
    "'p streaming_parser_ops \<Rightarrow> 'c compressor_ops \<Rightarrow> size_t \<Rightarrow> ('p, 'c, unit, unit) helper_env" where
  "tcp_env parser_ops compressor_ops streaming_min_buf_size =
     \<lparr>he_parser_ops = parser_ops, he_compressor_ops = compressor_ops,
      he_streaming_min_buf_size = streaming_min_buf_size,
      he_on_read = (\<lambda>_ err data. server_reads err data), he_on_write = (\<lambda>_ _. Inr ())\<rparr>"

section \<open>Strands\<close>

datatype strand_op = Op_Read | Op_Write message_data | Op_Shutdown

text \<open>The functions the actions of the server have posted to the strand of a session.\<close>

fun strand_ops :: "nat \<Rightarrow> server_action list \<Rightarrow> strand_op list" where
  "strand_ops sess [] = []"
| "strand_ops sess (Read_Session i # acts) = (if i = sess then [Op_Read] else []) @ strand_ops sess acts"
| "strand_ops sess (Write_Session i d # acts) = (if i = sess then [Op_Write d] else []) @ strand_ops sess acts"
| "strand_ops sess (Shutdown_Session i # acts) = (if i = sess then [Op_Shutdown] else []) @ strand_ops sess acts"
| "strand_ops sess (Accept_Session _ # acts) = strand_ops sess acts"

text \<open>
  \<open>ts_accepted\<close> counts the accepts the system has completed and \<open>ts_ran\<close> the functions of each strand that have run;
  \<open>ts_sessions\<close> are the sessions that exist and \<open>ts_failed\<close> those from whose helper an exception has escaped.
\<close>

record ('p, 'c, 'u) tcp_server =
  ts_server :: "'u server"
  ts_accepted :: "nat \<Rightarrow> nat"
  ts_sessions :: "nat \<rightharpoonup> ('p, 'c, unit, unit) connection"
  ts_ran :: "nat \<Rightarrow> nat"
  ts_failed :: "nat set"

definition tcp_start :: "'u server \<Rightarrow> ('p, 'c, 'u) tcp_server" where
  "tcp_start s =
     \<lparr>ts_server = s, ts_accepted = (\<lambda>_. 0), ts_sessions = Map.empty, ts_ran = (\<lambda>_. 0), ts_failed = {}\<rparr>"

definition strand :: "nat \<Rightarrow> ('p, 'c, 'u) tcp_server \<Rightarrow> strand_op list" where
  "strand sess S = drop (ts_ran S sess) (strand_ops sess (sv_actions (ts_server S)))"

section \<open>Steps\<close>

fun read_calls :: "'r read_action list \<Rightarrow> (error_info \<times> message_data) list" where
  "read_calls [] = []"
| "read_calls (Call_On_Read h err m # acts) = (err, m) # read_calls acts"
| "read_calls (_ # acts) = read_calls acts"

abbreviation read_tasks :: "nat \<Rightarrow> 'r read_action list \<Rightarrow> server_task list" where
  "read_tasks sess acts \<equiv> map (\<lambda>(err, m). Message_Read sess True err m) (read_calls acts)"

text \<open>
  A function of the transport in thread \<open>k\<close> that calls the server with \<open>ts\<close> and ends with \<open>r\<close> when it does not call the
  server; otherwise it ends as the last of the calls.
\<close>

fun server_called :: "nat \<Rightarrow> unit result \<Rightarrow> server_task list \<Rightarrow> 'u server \<Rightarrow> 'u server option" where
  "server_called k r [] s = transport_step k r s"
| "server_called k r [t] s = server_thread k (queue_first t s)"
| "server_called k r (t # ts) s = Option.bind (server_thread k (queue_first t s)) (server_called k r ts)"

text \<open>An event of the helper of a session in thread \<open>k\<close>.\<close>

definition session_step ::
    "('p, 'c, unit, unit) helper_env \<Rightarrow> nat \<Rightarrow> nat \<Rightarrow> (unit, unit) socket_event \<Rightarrow>
     ('p, 'c, 'u) tcp_server \<Rightarrow> ('p, 'c, 'u) tcp_server option" where
  "session_step env k sess ev S =
     (case ts_sessions S sess of
        None \<Rightarrow> None
      | Some cn \<Rightarrow>
          (case connection_next env (cn\<lparr>cn_escaped := None\<rparr>) ev of
             None \<Rightarrow> None
           | Some cn' \<Rightarrow>
               map_option (\<lambda>s. S\<lparr>ts_server := s, ts_sessions := (ts_sessions S)(sess \<mapsto> cn'),
                   ts_failed := (if cn_escaped cn' = None then ts_failed S else insert sess (ts_failed S))\<rparr>)
                 (server_called k (case cn_escaped cn' of None \<Rightarrow> Inr () | Some e \<Rightarrow> Inl e)
                   (read_tasks sess (drop (length (cn_read_log cn)) (cn_read_log cn'))) (ts_server S))))"

text \<open>
  The first function of a strand in thread \<open>k\<close>. It does nothing when the session is gone; \<open>available\<close> is the answer to
  \<open>available()\<close>, and \<open>r\<close> how the function of \<open>shutdown\<close> ends.
\<close>

definition strand_step ::
    "('p, 'c, unit, unit) helper_env \<Rightarrow> nat \<Rightarrow> nat \<Rightarrow> strand_op \<Rightarrow> size_t result \<Rightarrow> unit result \<Rightarrow>
     ('p, 'c, 'u) tcp_server \<Rightarrow> ('p, 'c, 'u) tcp_server option" where
  "strand_step env k sess op available r S =
     (let S = S\<lparr>ts_ran := (ts_ran S)(sess := Suc (ts_ran S sess))\<rparr> in
      if ts_sessions S sess = None then map_option (\<lambda>s. S\<lparr>ts_server := s\<rparr>) (transport_step k (Inr ()) (ts_server S))
      else
        (case op of
           Op_Read \<Rightarrow> session_step env k sess (Async_Read () available) S
         | Op_Write d \<Rightarrow> session_step env k sess (Async_Write d ()) S
         | Op_Shutdown \<Rightarrow> map_option (\<lambda>s. S\<lparr>ts_server := s\<rparr>) (transport_step k r (ts_server S))))"

text \<open>The completion of an accept of acceptor \<open>a\<close> in thread \<open>k\<close>; a new session gets the number \<open>sess\<close>.\<close>

definition accept_step ::
    "string \<Rightarrow> ('p, 'c, unit, unit) helper_env \<Rightarrow> nat \<Rightarrow> nat \<Rightarrow> nat \<Rightarrow> ('p, 'c, 'e) accept_result \<Rightarrow>
     ('p, 'c, 'u) tcp_server \<Rightarrow> ('p, 'c, 'u) tcp_server option" where
  "accept_step fn env k a sess res S =
     (let S = S\<lparr>ts_accepted := (ts_accepted S)(a := Suc (ts_accepted S a))\<rparr> in
      case tcp_on_accept fn env res of
        Inl e \<Rightarrow> map_option (\<lambda>s. S\<lparr>ts_server := s\<rparr>) (transport_step k (Inl e) (ts_server S))
      | Inr None \<Rightarrow> map_option (\<lambda>s. S\<lparr>ts_server := s\<rparr>) (transport_step k (Inr ()) (ts_server S))
      | Inr (Some (err, None)) \<Rightarrow>
          map_option (\<lambda>s. S\<lparr>ts_server := s\<rparr>) (server_called k (Inr ()) [Accepted a err None] (ts_server S))
      | Inr (Some (err, Some cn)) \<Rightarrow>
          map_option (\<lambda>s. S\<lparr>ts_server := s, ts_sessions := (ts_sessions S)(sess \<mapsto> cn)\<rparr>)
            (server_called k (Inr ()) [Accepted a err (Some sess)] (ts_server S)))"

fun mentions :: "nat \<Rightarrow> server_task \<Rightarrow> bool" where
  "mentions sess (Process i _) = (i = sess)"
| "mentions sess (Remove i) = (i = sess)"
| "mentions sess _ = False"

datatype ('p, 'c, 'e) tcp_event =
    Tcp_Stop
  | Tcp_Thread nat
  | Tcp_Accept nat nat nat "('p, 'c, 'e) accept_result"
  | Tcp_Strand nat nat strand_op "size_t result" "unit result"
  | Tcp_Read nat nat "asio_error option" bytes "size_t result" "size_t result"
  | Tcp_Written nat nat "asio_error option"
  | Tcp_Destroy nat

text \<open>
  A session is destroyed when neither the server nor a function in the queue of the pool refers to it.
\<close>

fun tcp_next ::
    "(nat set \<Rightarrow> nat list) \<Rightarrow> string \<Rightarrow> ('p, 'c, unit, unit) helper_env \<Rightarrow>
     ('p, 'c, 'u) tcp_server \<Rightarrow> ('p, 'c, 'e) tcp_event \<Rightarrow> ('p, 'c, 'u) tcp_server option" where
  "tcp_next order fn env S Tcp_Stop = Some (S\<lparr>ts_server := server_stop order (ts_server S)\<rparr>)"
| "tcp_next order fn env S (Tcp_Thread k) = map_option (\<lambda>s. S\<lparr>ts_server := s\<rparr>) (server_thread k (ts_server S))"
| "tcp_next order fn env S (Tcp_Accept k a sess res) =
     (if runs_in k (ts_server S) \<and> ts_accepted S a < accepts_started a (ts_server S) \<and>
         strand_ops sess (sv_actions (ts_server S)) = []
      then accept_step fn env k a sess res S else None)"
| "tcp_next order fn env S (Tcp_Strand k sess op available r) =
     (if runs_in k (ts_server S) \<and> strand sess S \<noteq> [] \<and> hd (strand sess S) = op
      then strand_step env k sess op available r S else None)"
| "tcp_next order fn env S (Tcp_Read k sess err bs available available') =
     (if runs_in k (ts_server S) then session_step env k sess (Read_Completed err bs available available') S else None)"
| "tcp_next order fn env S (Tcp_Written k sess err) =
     (if runs_in k (ts_server S) then session_step env k sess (Write_Completed err) S else None)"
| "tcp_next order fn env S (Tcp_Destroy sess) =
     (if sess \<notin> sv_sessions (ts_server S) \<and> \<not> list_ex (mentions sess) (tp_queue (sv_threads (ts_server S)))
      then Some (S\<lparr>ts_sessions := (ts_sessions S)(sess := None)\<rparr>) else None)"

abbreviation tcp_run ::
    "(nat set \<Rightarrow> nat list) \<Rightarrow> string \<Rightarrow> ('p, 'c, unit, unit) helper_env \<Rightarrow>
     ('p, 'c, 'u) tcp_server \<Rightarrow> ('p, 'c, 'e) tcp_event list \<Rightarrow> ('p, 'c, 'u) tcp_server \<Rightarrow> bool" where
  "tcp_run order fn env \<equiv> trace (tcp_next order fn env)"

section \<open>Calls of the handler\<close>

lemma read_calls_append [simp]: "read_calls (xs @ ys) = read_calls xs @ read_calls ys"
  by (induction xs rule: read_calls.induct) simp_all

text \<open>Handlers that throw, but no \<open>mprpc::exception\<close>.\<close>

definition no_mprpc_exceptions :: "('p, 'c, 'r, 'w) helper_env \<Rightarrow> bool" where
  "no_mprpc_exceptions env \<longleftrightarrow> (\<forall>h err m info. he_on_read env h err m \<noteq> Inl (Throw (Mprpc_Exception info)))"

lemma tcp_env_no_mprpc: "no_mprpc_exceptions (tcp_env ops cops n)"
  by (auto simp: no_mprpc_exceptions_def tcp_env_def server_reads_def split: sum.split failure.split exn.split)

text \<open>A step of the reading side calls the handler or starts a read, but not both.\<close>

definition reads_once :: "'r read_action list \<Rightarrow> bool" where
  "reads_once acts \<longleftrightarrow> length (read_calls acts) + (if started_read acts = None then 0 else 1) \<le> 1"

lemma parse_next_calls:
  assumes "no_mprpc_exceptions env" and "sh_parse_next env s h n = (s', acts, r)"
  shows "length (read_calls acts) \<le> 1 \<and> started_read acts = None \<and> (r = Inr False \<longrightarrow> acts = [])"
  using assms
  by (auto simp: sh_parse_next_def no_mprpc_exceptions_def bindR_eq_Inr Let_def
      split: prod.splits sum.splits failure.splits exn.splits bool.splits)

lemma do_read_bytes_calls:
  "sh_do_read_bytes env s a h = (s', acts, r) \<Longrightarrow> reads_once acts"
  by (auto simp: sh_do_read_bytes_def reads_once_def Let_def split: sum.splits)

lemma do_read_message_calls:
  assumes "no_mprpc_exceptions env" and "sh_do_read_message env s a h = (s', acts, r)"
  shows "reads_once acts"
proof -
  obtain s1 acts1 r1 where p: "sh_parse_next env s h 0 = (s1, acts1, r1)" by (metis prod_cases3)
  note c = parse_next_calls [OF assms(1) p]
  show ?thesis
  proof (cases "r1 = Inr False")
    case True
    with c have "acts1 = []" by simp
    with True p assms(2) show ?thesis
      by (auto simp: sh_do_read_message_def split: prod.splits dest: do_read_bytes_calls)
  next
    case False
    with p assms(2) have "acts = acts1"
      by (auto simp: sh_do_read_message_def split: sum.splits bool.splits)
    with c show ?thesis by (simp add: reads_once_def)
  qed
qed

lemma on_read_bytes_calls:
  assumes "no_mprpc_exceptions env" and "sh_on_read_bytes env s err bs a a' h = (s', acts, r)"
  shows "reads_once acts"
proof (cases "\<exists>n. err = None \<and> a = Inr n")
  case False
  with assms(2) show ?thesis
    by (cases a) (auto simp: sh_on_read_bytes_def reads_once_def split: option.splits asio_error.splits)
next
  case True
  then obtain n where n: "err = None" "a = Inr n" by blast
  let ?s = "s\<lparr>sh_parser := sp_receive (he_parser_ops env) (sh_parser s) bs\<rparr>"
  obtain s1 acts1 r1 where p: "(if n = 0 then sh_parse_next env ?s h (of_nat (length bs))
      else (?s\<lparr>sh_parser := sp_consumed (he_parser_ops env) (sh_parser ?s) (of_nat (length bs))\<rparr>, [], Inr False)) =
      (s1, acts1, r1)" by (metis prod_cases3)
  then have c: "length (read_calls acts1) \<le> 1 \<and> started_read acts1 = None \<and> (r1 = Inr False \<longrightarrow> acts1 = [])"
    using parse_next_calls [OF assms(1)] by (auto split: if_splits)
  show ?thesis
  proof (cases "r1 = Inr False")
    case True
    with c have "acts1 = []" by simp
    with True p n assms(2) show ?thesis
      by (auto simp: sh_on_read_bytes_def Let_def split: prod.splits dest: do_read_bytes_calls)
  next
    case False
    with p n assms(2) have "acts = acts1"
      by (auto simp: sh_on_read_bytes_def Let_def split: sum.splits bool.splits)
    with c show ?thesis by (simp add: reads_once_def)
  qed
qed

text \<open>What an event of a connection does to the log of its reads.\<close>

lemma connection_next_calls:
  assumes "connection_next env cn ev = Some cn'" and "no_mprpc_exceptions env"
  obtains (writes) "is_write_event ev" "cn_read_log cn' = cn_read_log cn" "cn_reading cn' = cn_reading cn"
  | (reads) acts where "\<not> is_write_event ev" "cn_read_log cn' = cn_read_log cn @ acts"
      "cn_reading cn' = started_read acts" "reads_once acts"
      "case ev of Async_Read _ _ \<Rightarrow> cn_reading cn = None | _ \<Rightarrow> cn_reading cn \<noteq> None"
proof (cases ev)
  case (Async_Read h a)
  obtain s acts r where r: "sh_do_read_message env (cn_helper cn) a h = (s, acts, r)" by (metis prod_cases3)
  with Async_Read assms(1) have "cn_reading cn = None" "cn' = finish_read cn (s, acts, r)"
    by (cases "cn_reading cn"; simp add: connection_next_def split: if_splits)+
  with Async_Read do_read_message_calls [OF assms(2) r] show thesis
    by (intro reads [of acts]) (simp_all add: finish_read_def)
next
  case (Read_Completed err bs a a')
  then obtain h n where h: "cn_reading cn = Some (h, n)"
    "cn' = finish_read cn (sh_on_read_bytes env (cn_helper cn) err bs a a' h)"
    using assms(1) by (auto simp: connection_next_def split: if_splits option.splits)
  obtain s acts r where r: "sh_on_read_bytes env (cn_helper cn) err bs a a' h = (s, acts, r)" by (metis prod_cases3)
  with h Read_Completed on_read_bytes_calls [OF assms(2) r] show thesis
    by (intro reads [of acts]) (simp_all add: finish_read_def)
next
  case (Async_Write d h)
  with assms(1) show thesis
    by (intro writes) (auto simp: connection_next_def finish_write_def split: if_splits prod.splits)
next
  case (Write_Completed err)
  with assms(1) show thesis
    by (intro writes) (auto simp: connection_next_def finish_write_def split: if_splits prod.splits)
qed

text \<open>A step that lets no exception out is the same with handlers that return.\<close>

definition returning :: "('p, 'c, 'r, 'w) helper_env \<Rightarrow> ('p, 'c, 'r, 'w) helper_env" where
  "returning env = env\<lparr>he_on_read := (\<lambda>_ _ _. Inr ())\<rparr>"

lemma returning_simps [simp]:
  "he_parser_ops (returning env) = he_parser_ops env" "he_compressor_ops (returning env) = he_compressor_ops env"
  "he_streaming_min_buf_size (returning env) = he_streaming_min_buf_size env"
  "he_on_write (returning env) = he_on_write env" "he_on_read (returning env) h err m = Inr ()"
  by (simp_all add: returning_def)

lemma parse_next_returning:
  assumes "no_mprpc_exceptions env" and "sh_parse_next env s h n = (s', acts, Inr b)"
  shows "sh_parse_next (returning env) s h n = (s', acts, Inr b)"
  using assms
  by (auto simp: sh_parse_next_def no_mprpc_exceptions_def bindR_eq_Inr Let_def
      split: prod.splits sum.splits failure.splits exn.splits bool.splits)

lemma do_read_bytes_returning: "sh_do_read_bytes (returning env) s a h = sh_do_read_bytes env s a h"
  unfolding sh_do_read_bytes_def returning_simps ..

lemma write_returning:
  "sh_do_write (returning env) s = sh_do_write env s" "sh_on_write (returning env) s err = sh_on_write env s err"
  "sh_add_message_to_write (returning env) s d h = sh_add_message_to_write env s d h"
proof -
  show w: "sh_do_write (returning env) s = sh_do_write env s" for s unfolding sh_do_write_def returning_simps ..
  show "sh_on_write (returning env) s err = sh_on_write env s err" unfolding sh_on_write_def returning_simps w ..
  show "sh_add_message_to_write (returning env) s d h = sh_add_message_to_write env s d h"
    unfolding sh_add_message_to_write_def w ..
qed

lemma do_read_message_returning:
  assumes "no_mprpc_exceptions env" and "sh_do_read_message env s a h = (s', acts, Inr u)"
  shows "sh_do_read_message (returning env) s a h = (s', acts, Inr u)"
proof -
  obtain s1 acts1 r1 where p: "sh_parse_next env s h 0 = (s1, acts1, r1)" by (metis prod_cases3)
  with assms(2) obtain b where "r1 = Inr b" by (auto simp: sh_do_read_message_def split: sum.splits)
  with p parse_next_returning [OF assms(1), of s h 0] assms(2) show ?thesis
    by (auto simp: sh_do_read_message_def do_read_bytes_returning)
qed

lemma on_read_bytes_returning:
  assumes "no_mprpc_exceptions env" and "sh_on_read_bytes env s err bs a a' h = (s', acts, Inr u)"
  shows "sh_on_read_bytes (returning env) s err bs a a' h = (s', acts, Inr u)"
proof (cases "\<exists>n. err = None \<and> a = Inr n")
  case False
  with assms(2) show ?thesis
    by (cases a) (auto simp: sh_on_read_bytes_def split: option.splits asio_error.splits)
next
  case True
  then obtain n where n: "err = None" "a = Inr n" by blast
  let ?s = "s\<lparr>sh_parser := sp_receive (he_parser_ops env) (sh_parser s) bs\<rparr>"
  let ?first = "\<lambda>env. if n = 0 then sh_parse_next env ?s h (of_nat (length bs))
      else (?s\<lparr>sh_parser := sp_consumed (he_parser_ops env) (sh_parser ?s) (of_nat (length bs))\<rparr>, [], Inr False)"
  obtain s1 acts1 r1 where p: "?first env = (s1, acts1, r1)" by (metis prod_cases3)
  with n assms(2) obtain b where "r1 = Inr b" by (auto simp: sh_on_read_bytes_def Let_def split: sum.splits)
  with p have "?first (returning env) = (s1, acts1, Inr b)"
    using parse_next_returning [OF assms(1)] by (auto split: if_splits)
  with p n \<open>r1 = Inr b\<close> assms(2) show ?thesis
    by (simp add: sh_on_read_bytes_def Let_def do_read_bytes_returning)
qed

lemma connection_next_returning:
  assumes "connection_next env cn ev = Some cn'" and "cn_escaped cn' = None" and "no_mprpc_exceptions env"
  shows "connection_next (returning env) cn ev = Some cn'"
proof (cases ev)
  case (Async_Read h a)
  obtain s acts r where r: "sh_do_read_message env (cn_helper cn) a h = (s, acts, r)" by (metis prod_cases3)
  with assms(1,2) Async_Read obtain u where "r = Inr u"
    by (auto simp: connection_next_def finish_read_def escaped_None split: if_splits)
  with r do_read_message_returning [OF assms(3)] assms(1) Async_Read show ?thesis
    by (auto simp: connection_next_def split: if_splits)
next
  case (Read_Completed err bs a a')
  then obtain h n where h: "cn_reading cn = Some (h, n)"
    "cn' = finish_read cn (sh_on_read_bytes env (cn_helper cn) err bs a a' h)"
    using assms(1) by (auto simp: connection_next_def split: if_splits option.splits)
  obtain s acts r where r: "sh_on_read_bytes env (cn_helper cn) err bs a a' h = (s, acts, r)" by (metis prod_cases3)
  with assms(2) h obtain u where "r = Inr u" by (auto simp: finish_read_def escaped_None)
  with r on_read_bytes_returning [OF assms(3)] assms(1) h Read_Completed show ?thesis
    by (auto simp: connection_next_def split: if_splits)
qed (use assms(1) in \<open>simp_all add: connection_next_def write_returning split: if_splits\<close>)

end
