(* ===== verification/Tcp_Composition.thy ===== *)
theory Tcp_Composition
  imports Tcp_Server
begin

text \<open>
  What the composition of server and sessions in \<open>Tcp_Server\<close> guarantees: one invariant of all its runs, from which the
  properties of the server and of the stream socket helper carry over to the whole.
\<close>

section \<open>Steps of the server\<close>

lemma run_task_frame:
  "\<exists>acts. sv_actions (fst (run_task t s)) = sv_actions s @ acts"
  "tp_executed (sv_threads (fst (run_task t s))) = tp_executed (sv_threads s)"
proof -
  show "\<exists>acts. sv_actions (fst (run_task t s)) = sv_actions s @ acts"
    by (cases t) (auto simp: sv_on_accept_def sv_on_read_def async_process_message_def async_remove_session_def
        remove_session_def do_accept_def fold_on_execution split: option.split sum.split failure.split exn.split prod.split)
  show "tp_executed (sv_threads (fst (run_task t s))) = tp_executed (sv_threads s)"
    by (cases t) (auto simp: sv_on_accept_def sv_on_read_def async_process_message_def async_remove_session_def
        remove_session_def do_accept_def fold_on_execution split: option.split sum.split failure.split exn.split prod.split)
qed

lemma server_thread_frame:
  assumes "server_thread i s = Some s'"
  shows "\<exists>acts. sv_actions s' = sv_actions s @ acts"
    and "tp_executed (sv_threads s') = tp_executed (sv_threads s) \<or>
      (\<exists>t q. tp_queue (sv_threads s) = t # q \<and> tp_executed (sv_threads s') = tp_executed (sv_threads s) @ [t])"
proof -
  from assms have "(\<exists>acts. sv_actions s' = sv_actions s @ acts) \<and>
    (tp_executed (sv_threads s') = tp_executed (sv_threads s) \<or>
      (\<exists>t q. tp_queue (sv_threads s) = t # q \<and> tp_executed (sv_threads s') = tp_executed (sv_threads s) @ [t]))"
  proof (cases rule: server_threadE)
    case (leaves p)
    then show ?thesis by simp
  next
    case (task t q p)
    then show ?thesis using run_task_frame [of t "s\<lparr>sv_threads := p\<rparr>"] by simp
  qed
  then show "\<exists>acts. sv_actions s' = sv_actions s @ acts"
    and "tp_executed (sv_threads s') = tp_executed (sv_threads s) \<or>
      (\<exists>t q. tp_queue (sv_threads s) = t # q \<and> tp_executed (sv_threads s') = tp_executed (sv_threads s) @ [t])"
    by blast+
qed

text \<open>A call of the server in a running thread.\<close>

lemma server_called_frame:
  assumes "server_thread k (queue_first t s) = Some s'" and "runs_in k s"
  shows "\<exists>acts. sv_actions s' = sv_actions s @ acts"
    and "tp_executed (sv_threads s') = tp_executed (sv_threads s) @ [t]"
proof -
  from assms(1) have "(\<exists>acts. sv_actions s' = sv_actions s @ acts) \<and>
    tp_executed (sv_threads s') = tp_executed (sv_threads s) @ [t]"
  proof (cases rule: server_threadE)
    case (leaves p)
    with assms(2) show ?thesis by (simp add: runs_in_def)
  next
    case (task t' q p)
    then have "t' = t" by simp
    with task show ?thesis using run_task_frame [of t "s\<lparr>sv_threads := p\<rparr>"] by simp
  qed
  then show "\<exists>acts. sv_actions s' = sv_actions s @ acts"
    and "tp_executed (sv_threads s') = tp_executed (sv_threads s) @ [t]" by blast+
qed

lemma transport_step_frame:
  assumes "transport_step k r s = Some s'"
  shows "sv_actions s' = sv_actions s" "tp_executed (sv_threads s') = tp_executed (sv_threads s)"
  using assms by (auto elim: transport_stepE)

lemma strand_ops_append [simp]: "strand_ops sess (xs @ ys) = strand_ops sess xs @ strand_ops sess ys"
  by (induction sess xs rule: strand_ops.induct) simp_all

lemma count_reads: "count_list (strand_ops sess acts) Op_Read = count_list acts (Read_Session sess)"
  by (induction sess acts rule: strand_ops.induct) simp_all

lemma no_strand_ops: "strand_ops sess acts = [] \<Longrightarrow> Read_Session sess \<notin> set acts"
  by (induction sess acts rule: strand_ops.induct) (auto split: if_splits)

section \<open>The invariant\<close>

fun session_event :: "nat \<Rightarrow> ('p, 'c, 'e) tcp_event \<Rightarrow> (unit, unit) socket_event list" where
  "session_event sess (Tcp_Strand k i Op_Read available r) = (if i = sess then [Async_Read () available] else [])"
| "session_event sess (Tcp_Strand k i (Op_Write d) available r) = (if i = sess then [Async_Write d ()] else [])"
| "session_event sess (Tcp_Read k i err bs available available') =
     (if i = sess then [Read_Completed err bs available available'] else [])"
| "session_event sess (Tcp_Written k i err) = (if i = sess then [Write_Completed err] else [])"
| "session_event sess _ = []"

definition session_events :: "nat \<Rightarrow> ('p, 'c, 'e) tcp_event list \<Rightarrow> (unit, unit) socket_event list" where
  "session_events sess evs = concat (map (session_event sess) evs)"

lemma session_events_snoc [simp]:
  "session_events sess (evs @ [ev]) = session_events sess evs @ session_event sess ev" "session_events sess [] = []"
  by (simp_all add: session_events_def)

fun op_writes :: "strand_op list \<Rightarrow> message_data list" where
  "op_writes [] = []"
| "op_writes (Op_Write d # ops) = d # op_writes ops"
| "op_writes (_ # ops) = op_writes ops"

lemma op_writes_append [simp]: "op_writes (xs @ ys) = op_writes xs @ op_writes ys"
  by (induction xs rule: op_writes.induct) simp_all

text \<open>The session was made with compressor \<open>c\<close> and parser \<open>p\<close>.\<close>

definition created :: "nat \<Rightarrow> 'c \<Rightarrow> 'p \<Rightarrow> ('p, 'c, 'e) tcp_event list \<Rightarrow> bool" where
  "created sess c p evs \<longleftrightarrow>
     (\<exists>k a r r' l. Tcp_Accept k a sess (Accept_Socket r (Inr (Some c)) (Inr (Some p)) r' l) \<in> set evs)"

lemma created_snoc: "created sess c p evs \<Longrightarrow> created sess c p (evs @ [ev])"
  unfolding created_def by (simp add: set_append) blast

definition session_inv ::
    "('p, 'c, unit, unit) helper_env \<Rightarrow> ('p, 'c, 'e) tcp_event list \<Rightarrow> ('p, 'c, 'u) tcp_server \<Rightarrow> nat \<Rightarrow>
     ('p, 'c, unit, unit) connection \<Rightarrow> bool" where
  "session_inv env evs S sess cn \<longleftrightarrow>
     (let ops = strand_ops sess (sv_actions (ts_server S)); ran = take (ts_ran S sess) ops in
      ops \<noteq> [] \<and>
      filter (read_from sess) (tp_executed (sv_threads (ts_server S))) = read_tasks sess (cn_read_log cn) \<and>
      length (read_calls (cn_read_log cn)) + (if cn_reading cn = None then 0 else 1) \<le> count_list ran Op_Read \<and>
      map fst (posted (session_events sess evs)) = op_writes ran \<and>
      (sess \<notin> ts_failed S \<longrightarrow> cn_escaped cn = None \<and>
        (\<exists>c p. created sess c p evs \<and> connection_run env (connection_start env c p) (session_events sess evs) cn)))"

lemma session_invI:
  assumes "strand_ops sess (sv_actions (ts_server S)) \<noteq> []"
    and "filter (read_from sess) (tp_executed (sv_threads (ts_server S))) = read_tasks sess (cn_read_log cn)"
    and "length (read_calls (cn_read_log cn)) + (if cn_reading cn = None then 0 else 1) \<le>
      count_list (take (ts_ran S sess) (strand_ops sess (sv_actions (ts_server S)))) Op_Read"
    and "map fst (posted (session_events sess evs)) =
      op_writes (take (ts_ran S sess) (strand_ops sess (sv_actions (ts_server S))))"
    and "sess \<notin> ts_failed S \<Longrightarrow> cn_escaped cn = None \<and>
      (\<exists>c p. created sess c p evs \<and> connection_run env (connection_start env c p) (session_events sess evs) cn)"
  shows "session_inv env evs S sess cn"
  using assms unfolding session_inv_def Let_def by blast

definition tcp_inv ::
    "(nat set \<Rightarrow> nat list) \<Rightarrow> ('p, 'c, unit, unit) helper_env \<Rightarrow> nat list \<Rightarrow> 'u server \<Rightarrow>
     ('p, 'c, 'e) tcp_event list \<Rightarrow> ('p, 'c, 'u) tcp_server \<Rightarrow> bool" where
  "tcp_inv order env acceptors s0 evs S \<longleftrightarrow>
     (\<exists>sevs. server_run order s0 sevs (ts_server S)) \<and> listening acceptors (ts_server S) \<and>
     (\<forall>a. accepts_done a (ts_server S) \<le> ts_accepted S a) \<and>
     (\<forall>sess. ts_ran S sess \<le> length (strand_ops sess (sv_actions (ts_server S)))) \<and>
     (\<forall>sess. strand_ops sess (sv_actions (ts_server S)) = [] \<longrightarrow> session_events sess evs = []) \<and>
     (\<forall>sess cn. ts_sessions S sess = Some cn \<longrightarrow> session_inv env evs S sess cn)"

lemma session_inv_frame:
  assumes "session_inv env evs S sess cn" and "ts_ran S sess \<le> length (strand_ops sess (sv_actions (ts_server S)))"
    and "sv_actions (ts_server S') = sv_actions (ts_server S) @ acts"
    and "filter (read_from sess) (tp_executed (sv_threads (ts_server S'))) =
      filter (read_from sess) (tp_executed (sv_threads (ts_server S)))"
    and "ts_ran S' sess = ts_ran S sess" and "sess \<in> ts_failed S' \<longleftrightarrow> sess \<in> ts_failed S" and "session_event sess ev = []"
  shows "session_inv env (evs @ [ev]) S' sess cn"
  using assms created_snoc unfolding session_inv_def Let_def by fastforce

text \<open>A step of the server that executes no read, with the sessions as they are.\<close>

lemma tcp_inv_server:
  assumes "tcp_inv order env acceptors s0 evs S" and "server_next order (ts_server S) sev = Some s'"
    and "sv_actions s' = sv_actions (ts_server S) @ acts"
    and "\<And>sess. filter (read_from sess) (tp_executed (sv_threads s')) =
      filter (read_from sess) (tp_executed (sv_threads (ts_server S)))"
    and "\<And>a. accepts_done a s' \<le> ts_accepted S' a"
    and "ts_server S' = s'" and "ts_sessions S' = ts_sessions S"
    and "\<And>sess. ts_sessions S sess \<noteq> None \<Longrightarrow> ts_ran S' sess = ts_ran S sess"
    and "\<And>sess. ts_ran S' sess \<le> length (strand_ops sess (sv_actions s'))"
    and "ts_failed S' = ts_failed S"
    and "\<And>sess. ts_sessions S sess \<noteq> None \<or> strand_ops sess (sv_actions (ts_server S)) = [] \<Longrightarrow> session_event sess ev = []"
  shows "tcp_inv order env acceptors s0 (evs @ [ev]) S'"
proof -
  obtain sevs where "server_run order s0 sevs (ts_server S)" using assms(1) by (auto simp: tcp_inv_def)
  with assms(2) have "server_run order s0 (sevs @ [sev]) s'" by (rule trace_event [rotated])
  moreover have "listening acceptors s'"
    using listening_next [OF _ assms(2)] assms(1) by (simp add: tcp_inv_def)
  moreover have "session_inv env (evs @ [ev]) S' sess cn" if "ts_sessions S sess = Some cn" for sess cn
    by (rule session_inv_frame [where S = S and acts = acts]) (use assms that in \<open>auto simp: tcp_inv_def\<close>)
  ultimately show ?thesis using assms unfolding tcp_inv_def by auto
qed

section \<open>Every event keeps the invariant\<close>

lemma session_step_cases:
  assumes "session_step env k sess sev S = Some S'" and "no_mprpc_exceptions env"
  obtains cn cn' acts s' where "ts_sessions S sess = Some cn" "connection_next env (cn\<lparr>cn_escaped := None\<rparr>) sev = Some cn'"
    "S' = S\<lparr>ts_server := s', ts_sessions := (ts_sessions S)(sess \<mapsto> cn'),
       ts_failed := (if cn_escaped cn' = None then ts_failed S else insert sess (ts_failed S))\<rparr>"
    "cn_read_log cn' = cn_read_log cn @ acts"
    "(\<exists>r. read_calls acts = [] \<and> transport_step k r (ts_server S) = Some s') \<or>
     (\<exists>err m. read_calls acts = [(err, m)] \<and>
        server_thread k (queue_first (Message_Read sess True err m) (ts_server S)) = Some s')"
    "if is_write_event sev then acts = [] \<and> cn_reading cn' = cn_reading cn
     else length (read_calls acts) + (if cn_reading cn' = None then 0 else 1) \<le> 1 \<and>
       (case sev of Async_Read _ _ \<Rightarrow> cn_reading cn = None | _ \<Rightarrow> cn_reading cn \<noteq> None)"
proof -
  from assms(1) obtain cn cn' s' where c: "ts_sessions S sess = Some cn"
    "connection_next env (cn\<lparr>cn_escaped := None\<rparr>) sev = Some cn'"
    "S' = S\<lparr>ts_server := s', ts_sessions := (ts_sessions S)(sess \<mapsto> cn'),
       ts_failed := (if cn_escaped cn' = None then ts_failed S else insert sess (ts_failed S))\<rparr>"
    and called: "server_called k (case cn_escaped cn' of None \<Rightarrow> Inr () | Some e \<Rightarrow> Inl e)
      (read_tasks sess (drop (length (cn_read_log cn)) (cn_read_log cn'))) (ts_server S) = Some s'"
    unfolding session_step_def by (auto split: option.splits)
  let ?r = "case cn_escaped cn' of None \<Rightarrow> Inr () | Some e \<Rightarrow> Inl e"
  have calls: "(\<exists>r. read_calls acts = [] \<and> transport_step k r (ts_server S) = Some s') \<or>
     (\<exists>err m. read_calls acts = [(err, m)] \<and>
        server_thread k (queue_first (Message_Read sess True err m) (ts_server S)) = Some s')"
    if "server_called k ?r (read_tasks sess acts) (ts_server S) = Some s'" "length (read_calls acts) \<le> 1" for acts
  proof (cases "read_calls acts")
    case Nil
    with that(1) show ?thesis by auto
  next
    case (Cons x xs)
    with that(2) have "xs = []" by simp
    with Cons that(1) show ?thesis by (cases x) simp
  qed
  from c(2) assms(2) show thesis
  proof (cases rule: connection_next_calls)
    case writes
    with called have "server_called k ?r (read_tasks sess []) (ts_server S) = Some s'" by simp
    from calls [OF this] writes show thesis by (intro that [OF c, of "[]"]) simp_all
  next
    case (reads acts)
    with called have "server_called k ?r (read_tasks sess acts) (ts_server S) = Some s'" by simp
    moreover have "length (read_calls acts) \<le> 1" using reads(4) by (simp add: reads_once_def split: if_splits)
    ultimately have cl: "(\<exists>r. read_calls acts = [] \<and> transport_step k r (ts_server S) = Some s') \<or>
        (\<exists>err m. read_calls acts = [(err, m)] \<and>
           server_thread k (queue_first (Message_Read sess True err m) (ts_server S)) = Some s')"
      by (rule calls)
    show thesis
      by (rule that [OF c _ cl]) (use reads in \<open>simp_all add: reads_once_def cong: socket_event.case_cong\<close>)
  qed
qed

text \<open>How the number of functions that have run goes with an event of the helper.\<close>

definition runs_op :: "nat \<Rightarrow> (unit, unit) socket_event \<Rightarrow> ('p, 'c, 'u) tcp_server \<Rightarrow> ('p, 'c, 'u) tcp_server \<Rightarrow> bool" where
  "runs_op sess sev S S1 \<longleftrightarrow>
     (case sev of
        Async_Read _ _ \<Rightarrow> strand sess S \<noteq> [] \<and> hd (strand sess S) = Op_Read \<and>
          S1 = S\<lparr>ts_ran := (ts_ran S)(sess := Suc (ts_ran S sess))\<rparr>
      | Async_Write d _ \<Rightarrow> strand sess S \<noteq> [] \<and> hd (strand sess S) = Op_Write d \<and>
          S1 = S\<lparr>ts_ran := (ts_ran S)(sess := Suc (ts_ran S sess))\<rparr>
      | _ \<Rightarrow> S1 = S)"

lemma strand_take:
  assumes "strand sess S \<noteq> []"
  shows "take (Suc (ts_ran S sess)) (strand_ops sess (sv_actions (ts_server S))) =
      take (ts_ran S sess) (strand_ops sess (sv_actions (ts_server S))) @ [hd (strand sess S)]"
    "ts_ran S sess < length (strand_ops sess (sv_actions (ts_server S)))"
  using assms by (simp_all add: strand_def take_hd_drop)

text \<open>What the calls of the handler do to the server is a step of the server.\<close>

lemma handled_step:
  assumes "(\<exists>r. read_calls acts = [] \<and> transport_step k r s = Some s') \<or>
      (\<exists>err m. read_calls acts = [(err, m)] \<and> server_thread k (queue_first (Message_Read sess True err m) s) = Some s')"
    and "read_calls acts \<noteq> [] \<Longrightarrow> reads_done sess s < reads_started sess s" and runs: "runs_in k s"
  obtains sev as where "server_next order s sev = Some s'" "sv_actions s' = sv_actions s @ as"
    "tp_executed (sv_threads s') = tp_executed (sv_threads s) @ read_tasks sess acts"
  using assms(1)
proof (elim disjE exE conjE)
  fix r
  assume r: "read_calls acts = []" "transport_step k r s = Some s'"
  then have "server_next order s (Transport_Step k r) = Some s'" by simp
  with r transport_step_frame [OF r(2)] show thesis by (intro that [of "Transport_Step k r" "[]"]) simp_all
next
  fix err m
  let ?t = "Message_Read sess True err m"
  assume r: "read_calls acts = [(err, m)]" "server_thread k (queue_first ?t s) = Some s'"
  with assms(2) runs have "server_next order s (Complete k ?t) = Some s'" by (simp add: runs_in_def)
  moreover obtain as where "sv_actions s' = sv_actions s @ as"
    "tp_executed (sv_threads s') = tp_executed (sv_threads s) @ [?t]"
    using server_called_frame [of k ?t s s'] r(2) runs by auto
  ultimately show thesis using r(1) by (intro that [of "Complete k ?t" as]) simp_all
qed

text \<open>The session whose helper made the step.\<close>

lemma session_step_self:
  assumes "session_inv env evs S sess cn"
    and "connection_next env (cn\<lparr>cn_escaped := None\<rparr>) sev = Some cn'" and "session_event sess ev = [sev]"
    and "cn_read_log cn' = cn_read_log cn @ acts"
    and "sv_actions (ts_server S') = sv_actions (ts_server S) @ as"
    and "tp_executed (sv_threads (ts_server S')) = tp_executed (sv_threads (ts_server S)) @ read_tasks sess acts"
    and "length (read_calls (cn_read_log cn')) + (if cn_reading cn' = None then 0 else 1) \<le>
      count_list (take (ts_ran S' sess) (strand_ops sess (sv_actions (ts_server S)))) Op_Read"
    and "map fst (posted (session_events sess evs @ [sev])) =
      op_writes (take (ts_ran S' sess) (strand_ops sess (sv_actions (ts_server S))))"
    and "ts_ran S' sess \<le> length (strand_ops sess (sv_actions (ts_server S)))"
    and "ts_failed S' = (if cn_escaped cn' = None then ts_failed S else insert sess (ts_failed S))"
  shows "session_inv env (evs @ [ev]) S' sess cn'"
proof (rule session_invI)
  note si = assms(1) [unfolded session_inv_def Let_def]
  have take: "take (ts_ran S' sess) (strand_ops sess (sv_actions (ts_server S'))) =
      take (ts_ran S' sess) (strand_ops sess (sv_actions (ts_server S)))"
    using assms(9) by (simp add: assms(5))
  show "strand_ops sess (sv_actions (ts_server S')) \<noteq> []" using si by (simp add: assms(5))
  have "filter (read_from sess) (read_tasks sess acts) = read_tasks sess acts" by (auto simp: filter_id_conv)
  then show "filter (read_from sess) (tp_executed (sv_threads (ts_server S'))) = read_tasks sess (cn_read_log cn')"
    using si by (simp add: assms(4,6))
  show "length (read_calls (cn_read_log cn')) + (if cn_reading cn' = None then 0 else 1) \<le>
      count_list (take (ts_ran S' sess) (strand_ops sess (sv_actions (ts_server S')))) Op_Read"
    unfolding take by (rule assms(7))
  show "map fst (posted (session_events sess (evs @ [ev]))) =
      op_writes (take (ts_ran S' sess) (strand_ops sess (sv_actions (ts_server S'))))"
    unfolding take session_events_snoc assms(3) by (rule assms(8))
  assume "sess \<notin> ts_failed S'"
  then have ok: "cn_escaped cn' = None" "sess \<notin> ts_failed S" using assms(10) by (auto split: if_splits)
  with si obtain cc p where cc: "cn_escaped cn = None" "created sess cc p evs"
    "connection_run env (connection_start env cc p) (session_events sess evs) cn" by blast
  have "cn\<lparr>cn_escaped := None\<rparr> = cn" using cc(1) by (cases cn) simp
  with assms(2) have "connection_next env cn sev = Some cn'" by simp
  with cc(3) have "connection_run env (connection_start env cc p) (session_events sess (evs @ [ev])) cn'"
    unfolding session_events_snoc assms(3) by (rule trace_event)
  with ok(1) created_snoc [OF cc(2)] show "cn_escaped cn' = None \<and>
      (\<exists>c p. created sess c p (evs @ [ev]) \<and>
        connection_run env (connection_start env c p) (session_events sess (evs @ [ev])) cn')" by blast
qed

lemma session_step_inv:
  assumes inv: "tcp_inv order env acceptors s0 evs S" and step: "session_step env k sess sev S1 = Some S'"
    and runs: "runs_in k (ts_server S)" and ran: "runs_op sess sev S S1"
    and ev: "session_event sess ev = [sev]" "\<And>i. i \<noteq> sess \<Longrightarrow> session_event i ev = []"
    and env: "no_mprpc_exceptions env"
  shows "tcp_inv order env acceptors s0 (evs @ [ev]) S'"
proof -
  let ?s = "ts_server S" and ?ops = "strand_ops sess (sv_actions (ts_server S))"
  have S1: "ts_server S1 = ?s" "ts_sessions S1 = ts_sessions S" "ts_failed S1 = ts_failed S" "ts_accepted S1 = ts_accepted S"
    using ran by (auto simp: runs_op_def split: socket_event.splits)
  from step env obtain cn cn' acts s' where c: "ts_sessions S1 sess = Some cn"
    "connection_next env (cn\<lparr>cn_escaped := None\<rparr>) sev = Some cn'"
    "S' = S1\<lparr>ts_server := s', ts_sessions := (ts_sessions S1)(sess \<mapsto> cn'),
       ts_failed := (if cn_escaped cn' = None then ts_failed S1 else insert sess (ts_failed S1))\<rparr>"
    "cn_read_log cn' = cn_read_log cn @ acts"
    "(\<exists>r. read_calls acts = [] \<and> transport_step k r (ts_server S1) = Some s') \<or>
     (\<exists>err m. read_calls acts = [(err, m)] \<and>
        server_thread k (queue_first (Message_Read sess True err m) (ts_server S1)) = Some s')"
    "if is_write_event sev then acts = [] \<and> cn_reading cn' = cn_reading cn
     else length (read_calls acts) + (if cn_reading cn' = None then 0 else 1) \<le> 1 \<and>
       (case sev of Async_Read _ _ \<Rightarrow> cn_reading cn = None | _ \<Rightarrow> cn_reading cn \<noteq> None)"
    by (rule session_step_cases)
  have si: "session_inv env evs S sess cn" using inv c(1) S1 by (simp add: tcp_inv_def)
  note si' = si [unfolded session_inv_def Let_def]
  have counted: "length (read_calls (cn_read_log cn')) + (if cn_reading cn' = None then 0 else 1) \<le>
      count_list (take (ts_ran S1 sess) ?ops) Op_Read"
    "map fst (posted (session_events sess evs @ [sev])) = op_writes (take (ts_ran S1 sess) ?ops)"
    "ts_ran S1 sess \<le> length ?ops"
    using ran si' c(4,6) strand_take [of sess S] inv
    by (cases sev; auto simp: runs_op_def tcp_inv_def split: if_splits)+
  have count: "count_list (take n ?ops) Op_Read \<le> reads_started sess ?s" for n
    using count_list_append [of "take n ?ops" "drop n ?ops" Op_Read] by (simp add: reads_started_def count_reads)
  have "reads_done sess ?s < reads_started sess ?s" if "read_calls acts \<noteq> []"
    using that counted(1) c(4) count [of "ts_ran S1 sess"] si' by (cases "read_calls acts") (simp_all add: reads_done_def)
  then obtain sev' as where sv: "server_next order ?s sev' = Some s'" "sv_actions s' = sv_actions ?s @ as"
    "tp_executed (sv_threads s') = tp_executed (sv_threads ?s) @ read_tasks sess acts"
    by (rule handled_step [OF c(5) [unfolded S1(1)] _ runs])
  obtain sevs where "server_run order s0 sevs ?s" using inv by (auto simp: tcp_inv_def)
  then have run: "server_run order s0 (sevs @ [sev']) s'" using sv(1) by (rule trace_event)
  have listen: "listening acceptors s'" using listening_next [OF _ sv(1)] inv by (simp add: tcp_inv_def)
  have tasks: "i \<noteq> sess \<Longrightarrow> filter (read_from i) (read_tasks sess acts) = []"
    "filter (accepted_by a) (read_tasks sess acts) = []" for i a
    by (auto simp: filter_empty_conv)
  have "session_inv env (evs @ [ev]) S' sess cn'"
    by (rule session_step_self [OF si c(2) ev(1) c(4)]) (use c(3) S1(3) sv counted in simp_all)
  moreover have "session_inv env (evs @ [ev]) S' i cni" if "ts_sessions S' i = Some cni" "i \<noteq> sess" for i cni
  proof (rule session_inv_frame [where S = S and acts = as])
    show "ts_ran S' i = ts_ran S i" using ran that c(3) by (auto simp: runs_op_def split: socket_event.splits)
  qed (use inv that c(3) S1 sv tasks ev(2) in \<open>auto simp: tcp_inv_def\<close>)
  moreover have "ts_ran S' i \<le> length (strand_ops i (sv_actions s'))" for i
  proof (cases "i = sess")
    case False
    then have "ts_ran S' i = ts_ran S i" using ran c(3) by (auto simp: runs_op_def split: socket_event.splits)
    with inv sv(2) show ?thesis by (simp add: tcp_inv_def trans_le_add1)
  qed (use counted(3) c(3) sv(2) in simp)
  moreover have "accepts_done a s' \<le> ts_accepted S' a" for a
    using inv sv(3) c(3) S1 tasks(2) by (simp add: tcp_inv_def accepts_done_def)
  moreover have "session_events i (evs @ [ev]) = []" if "strand_ops i (sv_actions s') = []" for i
    using that inv si' sv(2) ev(2) [of i] by (cases "i = sess") (auto simp: tcp_inv_def)
  ultimately show ?thesis
    using run listen c(3) unfolding tcp_inv_def by (auto split: if_splits)
qed

lemma transport_inv:
  assumes inv: "tcp_inv order env acceptors s0 evs S" and step: "transport_step k r (ts_server S) = Some s'"
    and "S' = S\<lparr>ts_server := s', ts_ran := ran', ts_accepted := acc'\<rparr>"
    and "\<And>a. ts_accepted S a \<le> acc' a"
    and "\<And>sess. ts_sessions S sess \<noteq> None \<Longrightarrow> ran' sess = ts_ran S sess \<or>
      strand sess S \<noteq> [] \<and> hd (strand sess S) = Op_Shutdown \<and> ran' sess = Suc (ts_ran S sess)"
    and "\<And>sess. ran' sess \<le> length (strand_ops sess (sv_actions (ts_server S)))"
    and "\<And>sess. ts_sessions S sess \<noteq> None \<or> strand_ops sess (sv_actions (ts_server S)) = [] \<Longrightarrow> session_event sess ev = []"
  shows "tcp_inv order env acceptors s0 (evs @ [ev]) S'"
proof -
  note frame = transport_step_frame [OF step]
  obtain sevs where "server_run order s0 sevs (ts_server S)" using inv by (auto simp: tcp_inv_def)
  then have "server_run order s0 (sevs @ [Transport_Step k r]) s'" by (rule trace_event) (simp add: step)
  moreover have "listening acceptors s'"
    using listening_next [of acceptors "ts_server S" order "Transport_Step k r"] inv step by (simp add: tcp_inv_def)
  moreover have "session_inv env (evs @ [ev]) S' sess cn" if "ts_sessions S sess = Some cn" for sess cn
  proof -
    have "session_inv env evs S sess cn" "session_event sess ev = []" using inv assms(7) that by (auto simp: tcp_inv_def)
    moreover from that have "count_list (take (ran' sess) (strand_ops sess (sv_actions (ts_server S)))) Op_Read =
        count_list (take (ts_ran S sess) (strand_ops sess (sv_actions (ts_server S)))) Op_Read"
      "op_writes (take (ran' sess) (strand_ops sess (sv_actions (ts_server S)))) =
        op_writes (take (ts_ran S sess) (strand_ops sess (sv_actions (ts_server S))))"
      using assms(5) [of sess] strand_take(1) [of sess S] by auto
    ultimately show ?thesis
      using frame assms(3) created_snoc [of sess _ _ evs ev] unfolding session_inv_def Let_def by auto
  qed
  moreover have "accepts_done a s' \<le> ts_accepted S' a" for a
    using inv assms(3) assms(4) [of a] frame(2) by (auto simp: tcp_inv_def accepts_done_def intro: le_trans)
  ultimately show ?thesis using inv assms(3,6,7) frame unfolding tcp_inv_def by auto
qed

lemma tcp_on_accept_cases:
  assumes "tcp_on_accept fn env res = Inr (Some (err, session))"
  obtains (failed) "has_error err" "session = None"
  | (accepted) r c p r' l where "err = None" "session = Some (connection_start env c p)"
      "res = Accept_Socket r (Inr (Some c)) (Inr (Some p)) r' l"
  using assms
  by (cases res)
    (auto simp: tcp_on_accept_def tcp_session_create_def require_nonull_def bindR_eq_Inr make_error_def has_error_def throw_error_def
      split: asio_error.splits option.splits)

text \<open>The server is told of an accept.\<close>

lemma accepted_step:
  assumes inv: "tcp_inv order env acceptors s0 evs S" and runs: "runs_in k (ts_server S)"
    and acc: "ts_accepted S a < accepts_started a (ts_server S)"
    and session: "case session of None \<Rightarrow> has_error err
      | Some sess \<Rightarrow> \<not> has_error err \<and> strand_ops sess (sv_actions (ts_server S)) = []"
    and step: "server_thread k (queue_first (Accepted a err session) (ts_server S)) = Some s'"
  shows "server_next order (ts_server S) (Complete k (Accepted a err session)) = Some s'"
    and "\<And>sess. filter (read_from sess) (tp_executed (sv_threads s')) =
      filter (read_from sess) (tp_executed (sv_threads (ts_server S)))"
    and "\<And>b. accepts_done b s' \<le> ((ts_accepted S)(a := Suc (ts_accepted S a))) b"
    and "sv_actions s' = sv_actions (ts_server S) @
      (case session of None \<Rightarrow> [Accept_Session a] | Some sess \<Rightarrow> [Read_Session sess, Accept_Session a])"
proof -
  let ?s = "ts_server S" and ?t = "Accepted a err session"
  have dn: "accepts_done b ?s \<le> ts_accepted S b" for b using inv by (simp add: tcp_inv_def)
  have "can_complete ?s ?t"
    using acc dn [of a] session by (auto dest: no_strand_ops split: option.splits)
  with step runs show "server_next order ?s (Complete k ?t) = Some s'" by (simp add: runs_in_def)
  have ex: "tp_executed (sv_threads s') = tp_executed (sv_threads ?s) @ [?t]"
    by (rule server_called_frame [OF step runs])
  then show "filter (read_from sess) (tp_executed (sv_threads s')) =
      filter (read_from sess) (tp_executed (sv_threads ?s))" for sess by simp
  from ex dn show "accepts_done b s' \<le> ((ts_accepted S)(a := Suc (ts_accepted S a))) b" for b
    by (simp add: accepts_done_def)
  from step show "sv_actions s' = sv_actions ?s @
      (case session of None \<Rightarrow> [Accept_Session a] | Some sess \<Rightarrow> [Read_Session sess, Accept_Session a])"
  proof (cases rule: server_threadE)
    case (leaves p)
    with runs show ?thesis by (simp add: runs_in_def)
  next
    case (task t q p)
    then have "t = ?t" by simp
    with task(2) session show ?thesis by (auto simp: sv_on_accept_def do_accept_def split: option.splits)
  qed
qed

text \<open>A session that has just been accepted.\<close>

lemma accepted_session_inv:
  assumes inv: "tcp_inv order env acceptors s0 evs S"
    and fresh: "strand_ops sess (sv_actions (ts_server S)) = []" "strand_ops sess (sv_actions (ts_server S')) \<noteq> []"
    and "filter (read_from sess) (tp_executed (sv_threads (ts_server S'))) =
      filter (read_from sess) (tp_executed (sv_threads (ts_server S)))"
    and "ts_ran S' = ts_ran S"
    and ev: "ev = Tcp_Accept k a sess (Accept_Socket r (Inr (Some c)) (Inr (Some p)) r' l)"
  shows "session_inv env (evs @ [ev]) S' sess (connection_start env c p)"
proof (rule session_invI)
  have "reads_done sess (ts_server S) = 0"
    using listening_reads(1) [of acceptors "ts_server S" sess] no_reads [OF no_strand_ops [OF fresh(1)]] inv
    by (simp add: tcp_inv_def)
  then show "filter (read_from sess) (tp_executed (sv_threads (ts_server S'))) =
      read_tasks sess (cn_read_log (connection_start env c p))"
    using assms(4) by (simp add: reads_done_def connection_start_def)
  have evs: "session_events sess (evs @ [ev]) = []" using inv fresh ev by (simp add: tcp_inv_def)
  have "ts_ran S' sess = 0" using inv fresh(1) assms(5) by (simp add: tcp_inv_def) (metis le_zero_eq list.size(3))
  with evs show "map fst (posted (session_events sess (evs @ [ev]))) =
      op_writes (take (ts_ran S' sess) (strand_ops sess (sv_actions (ts_server S'))))" by simp
  have "created sess c p (evs @ [ev])" unfolding created_def ev
    by (intro exI [of _ k] exI [of _ a] exI [of _ r] exI [of _ r'] exI [of _ l]) simp
  moreover have "connection_run env (connection_start env c p) (session_events sess (evs @ [ev])) (connection_start env c p)"
    unfolding evs by (rule trace_start)
  ultimately show "cn_escaped (connection_start env c p) = None \<and> (\<exists>c' p'. created sess c' p' (evs @ [ev]) \<and>
      connection_run env (connection_start env c' p') (session_events sess (evs @ [ev])) (connection_start env c p))"
    by (auto simp: connection_start_def)
qed (use fresh(2) in \<open>simp_all add: connection_start_def\<close>)

lemma accept_inv:
  assumes inv: "tcp_inv order env acceptors s0 evs S" and runs: "runs_in k (ts_server S)"
    and acc: "ts_accepted S a < accepts_started a (ts_server S)"
    and fresh: "strand_ops sess (sv_actions (ts_server S)) = []"
    and step: "accept_step fn env k a sess res S = Some S'"
  shows "tcp_inv order env acceptors s0 (evs @ [Tcp_Accept k a sess res]) S'"
proof -
  let ?acc = "(ts_accepted S)(a := Suc (ts_accepted S a))"
  have ran: "ts_ran S i \<le> length (strand_ops i (sv_actions (ts_server S)))" for i using inv by (simp add: tcp_inv_def)
  have transport: ?thesis if "transport_step k r (ts_server S) = Some s'"
    "S' = S\<lparr>ts_accepted := ?acc, ts_server := s'\<rparr>" for r s'
    by (rule transport_inv [OF inv that(1), where ran' = "ts_ran S" and acc' = ?acc]) (use that(2) ran in simp_all)
  show ?thesis
  proof (cases "tcp_on_accept fn env res")
    case (Inl e)
    with step transport show ?thesis by (auto simp: accept_step_def)
  next
    case (Inr called)
    show ?thesis
    proof (cases called)
      case None
      with Inr step transport show ?thesis by (auto simp: accept_step_def)
    next
      case (Some x)
      obtain err session where x: "x = (err, session)" by fastforce
      from Inr [unfolded Some x] show ?thesis
      proof (cases rule: tcp_on_accept_cases)
        case failed
        with Inr Some x step obtain s' where s': "server_thread k (queue_first (Accepted a err None) (ts_server S)) = Some s'"
          "S' = S\<lparr>ts_accepted := ?acc, ts_server := s'\<rparr>" by (auto simp: accept_step_def)
        have c: "case None of None \<Rightarrow> has_error err | Some sess \<Rightarrow> \<not> has_error err \<and>
            strand_ops sess (sv_actions (ts_server S)) = []" using failed by simp
        note st = accepted_step [OF inv runs acc c s'(1)]
        show ?thesis
          by (rule tcp_inv_server [OF inv st(1,4,2)]) (use st(3) s'(2) ran in \<open>auto simp: st(4) intro: trans_le_add1 le_SucI\<close>)
      next
        case (accepted r c p r' l)
        with Inr Some x step obtain s' where s':
          "server_thread k (queue_first (Accepted a None (Some sess)) (ts_server S)) = Some s'"
          "S' = S\<lparr>ts_accepted := ?acc, ts_server := s', ts_sessions := (ts_sessions S)(sess \<mapsto> connection_start env c p)\<rparr>"
          by (auto simp: accept_step_def)
        have c: "case Some sess of None \<Rightarrow> has_error None | Some sess \<Rightarrow> \<not> has_error None \<and>
            strand_ops sess (sv_actions (ts_server S)) = []" using fresh by (simp add: has_error_def)
        note st = accepted_step [OF inv runs acc c s'(1)]
        let ?S = "S\<lparr>ts_server := s', ts_accepted := ?acc\<rparr>"
        let ?evs = "evs @ [Tcp_Accept k a sess res]"
        have inv': "tcp_inv order env acceptors s0 ?evs ?S"
          by (rule tcp_inv_server [OF inv st(1,4,2)]) (use st(3) ran in \<open>auto simp: st(4) intro: trans_le_add1 le_SucI\<close>)
        have "session_inv env ?evs S' sess (connection_start env c p)"
          by (rule accepted_session_inv [OF inv fresh, where k = k and a = a and r = r and r' = r' and l = l])
            (use s'(2) st(2,4) accepted(3) in simp_all)
        moreover have "session_inv env ?evs S' i cn \<longleftrightarrow> session_inv env ?evs ?S i cn" for i cn
          using s'(2) by (simp add: session_inv_def)
        ultimately show ?thesis using inv' s'(2) unfolding tcp_inv_def by auto
      qed
    qed
  qed
qed

lemma strand_inv:
  assumes inv: "tcp_inv order env acceptors s0 evs S" and runs: "runs_in k (ts_server S)"
    and op: "strand sess S \<noteq> []" "hd (strand sess S) = op" and env: "no_mprpc_exceptions env"
    and step: "strand_step env k sess op available r S = Some S'"
  shows "tcp_inv order env acceptors s0 (evs @ [Tcp_Strand k sess op available r]) S'"
proof -
  let ?S = "S\<lparr>ts_ran := (ts_ran S)(sess := Suc (ts_ran S sess))\<rparr>"
  have ran: "((ts_ran S)(sess := Suc (ts_ran S sess))) i \<le> length (strand_ops i (sv_actions (ts_server S)))" for i
    using inv strand_take(2) [OF op(1)] by (simp add: tcp_inv_def Suc_leI)
  have nonempty: "strand_ops sess (sv_actions (ts_server S)) \<noteq> []" using strand_take(2) [OF op(1)] by auto
  have transport: ?thesis if "transport_step k r' (ts_server S) = Some s'" "S' = ?S\<lparr>ts_server := s'\<rparr>"
    "ts_sessions S sess = None \<or> op = Op_Shutdown" for r' s'
  proof (rule transport_inv [OF inv that(1), where ran' = "(ts_ran S)(sess := Suc (ts_ran S sess))" and acc' = "ts_accepted S"])
    show "session_event i (Tcp_Strand k sess op available r) = []"
      if "ts_sessions S i \<noteq> None \<or> strand_ops i (sv_actions (ts_server S)) = []" for i
      using that \<open>ts_sessions S sess = None \<or> op = Op_Shutdown\<close> nonempty by (cases op) auto
  qed (use that ran op in auto)
  show ?thesis
  proof (cases "ts_sessions S sess = None \<or> op = Op_Shutdown")
    case True
    with step transport show ?thesis by (auto simp: strand_step_def Let_def split: if_splits)
  next
    case False
    then show ?thesis
    proof (cases op)
      case Op_Read
      with False step have "session_step env k sess (Async_Read () available) ?S = Some S'"
        by (auto simp: strand_step_def Let_def)
      from session_step_inv [OF inv this runs _ _ _ env] op Op_Read show ?thesis by (simp add: runs_op_def)
    next
      case (Op_Write d)
      with False step have "session_step env k sess (Async_Write d ()) ?S = Some S'"
        by (auto simp: strand_step_def Let_def)
      from session_step_inv [OF inv this runs _ _ _ env] op Op_Write show ?thesis by (simp add: runs_op_def)
    qed simp
  qed
qed

lemma tcp_next_inv:
  assumes inv: "tcp_inv order env acceptors s0 evs S" and env: "no_mprpc_exceptions env"
    and step: "tcp_next order fn env S ev = Some S'"
  shows "tcp_inv order env acceptors s0 (evs @ [ev]) S'"
proof (cases ev)
  case Tcp_Stop
  show ?thesis
    by (rule tcp_inv_server [OF inv, where sev = Server_Stop and s' = "server_stop order (ts_server S)"])
      (use Tcp_Stop step inv in \<open>auto simp: tcp_inv_def accepts_done_def intro: trans_le_add1\<close>)
next
  case (Tcp_Thread k)
  with step obtain s' where s': "server_thread k (ts_server S) = Some s'" "S' = S\<lparr>ts_server := s'\<rparr>" by auto
  obtain acts where acts: "sv_actions s' = sv_actions (ts_server S) @ acts" using server_thread_frame(1) [OF s'(1)] by blast
  have "\<forall>t \<in> set (tp_queue (sv_threads (ts_server S))). posted_task t" using inv by (simp add: tcp_inv_def listening_def)
  then have ex: "tp_executed (sv_threads s') = tp_executed (sv_threads (ts_server S)) \<or>
      (\<exists>t. posted_task t \<and> tp_executed (sv_threads s') = tp_executed (sv_threads (ts_server S)) @ [t])"
    using server_thread_frame(2) [OF s'(1)] by auto
  then have "filter (read_from i) (tp_executed (sv_threads s')) =
      filter (read_from i) (tp_executed (sv_threads (ts_server S)))"
    "accepts_done a s' = accepts_done a (ts_server S)" for i a
    by (auto simp: posted_task_def accepts_done_def)
  with acts s' inv Tcp_Thread show ?thesis
    by (intro tcp_inv_server [OF inv, where sev = "Thread_Step k" and s' = s' and acts = acts])
      (auto simp: tcp_inv_def intro: trans_le_add1)
next
  case (Tcp_Accept k a sess res)
  with step accept_inv [OF inv] show ?thesis by (auto split: if_splits)
next
  case (Tcp_Strand k sess op available r)
  with step strand_inv [OF inv _ _ _ env] show ?thesis by (auto split: if_splits)
next
  case (Tcp_Read k sess err bs a a')
  with step have "runs_in k (ts_server S)" "session_step env k sess (Read_Completed err bs a a') S = Some S'"
    by (auto split: if_splits)
  with Tcp_Read session_step_inv [OF inv this(2,1) _ _ _ env] show ?thesis by (simp add: runs_op_def)
next
  case (Tcp_Written k sess err)
  with step have "runs_in k (ts_server S)" "session_step env k sess (Write_Completed err) S = Some S'"
    by (auto split: if_splits)
  with Tcp_Written session_step_inv [OF inv this(2,1) _ _ _ env] show ?thesis by (simp add: runs_op_def)
next
  case (Tcp_Destroy sess)
  with step have S': "S' = S\<lparr>ts_sessions := (ts_sessions S)(sess := None)\<rparr>" by (auto split: if_splits)
  have "session_inv env (evs @ [ev]) S' i cn" if "ts_sessions S i = Some cn" for i cn
    by (rule session_inv_frame [where S = S and acts = "[]"]) (use inv that S' Tcp_Destroy in \<open>auto simp: tcp_inv_def\<close>)
  with inv S' Tcp_Destroy show ?thesis unfolding tcp_inv_def by auto
qed

lemma tcp_run_inv:
  assumes "new_server fn base_fn (Some (tp_create n)) (map Some acceptors) (Some ms) u = Inr s0"
    and "tcp_run order tn env (tcp_start (server_start s0)) evs S" and "no_mprpc_exceptions env"
  shows "tcp_inv order env acceptors (server_start s0) evs S"
  using assms(2)
proof induction
  case trace_start
  have "strand_ops sess (map Accept_Session as) = []" for sess as by (induction as) simp_all
  then show ?case
    by (auto simp: tcp_inv_def tcp_start_def started_server [OF assms(1)] listening_def accepts_started_def accepts_done_def
        reads_started_def reads_done_def intro: trace.trace_start)
next
  case (trace_event evs S ev S')
  then show ?case using tcp_next_inv [OF _ assms(3)] by blast
qed

section \<open>Properties\<close>


text \<open>
  C19. The buffer a read writes to is never touched by another read: at any time at most one call of \<open>async_read\<close> is on the
  strand of a session or waits for bytes. So \<open>prepare_buffer\<close>, which may move the buffer, never runs while the system
  writes to it.
\<close>

theorem tcp_single_read:
  assumes "new_server fn base_fn (Some (tp_create n)) (map Some acceptors) (Some ms) u = Inr s0"
    and "tcp_run order tn (tcp_env pops cops min_size) (tcp_start (server_start s0)) evs S"
    and "ts_sessions S sess = Some cn"
  shows "count_list (strand sess S) Op_Read + (if cn_reading cn = None then 0 else 1) \<le> 1"
proof -
  let ?ops = "strand_ops sess (sv_actions (ts_server S))"
  have inv: "tcp_inv order (tcp_env pops cops min_size) acceptors (server_start s0) evs S"
    by (rule tcp_run_inv [OF assms(1,2) tcp_env_no_mprpc])
  with assms(3) have si: "session_inv (tcp_env pops cops min_size) evs S sess cn" by (simp add: tcp_inv_def)
  have "reads_started sess (ts_server S) \<le> reads_done sess (ts_server S) + 1"
    using inv by (intro listening_reads(2) [of acceptors]) (simp add: tcp_inv_def)
  moreover have "reads_started sess (ts_server S) = count_list (take (ts_ran S sess) ?ops) Op_Read + count_list (strand sess S) Op_Read"
    unfolding reads_started_def count_reads [symmetric] strand_def count_list_append [symmetric] append_take_drop_id ..
  moreover have "reads_done sess (ts_server S) = length (read_calls (cn_read_log cn))"
    using si by (simp add: session_inv_def reads_done_def Let_def)
  moreover have "length (read_calls (cn_read_log cn)) + (if cn_reading cn = None then 0 else 1) \<le>
      count_list (take (ts_ran S sess) ?ops) Op_Read"
    using si by (simp add: session_inv_def Let_def)
  ultimately show ?thesis by simp
qed

text \<open>The messages packed objects are, and what the server has written to a session.\<close>

definition messages_in :: "mobj list \<Rightarrow> message list" where
  "messages_in xs = concat (map (\<lambda>x. case message_ctor (Some (pack_object x)) of Inr m \<Rightarrow> [m] | Inl _ \<Rightarrow> []) xs)"

definition writes_to :: "nat \<Rightarrow> server_action list \<Rightarrow> message_data list" where
  "writes_to sess acts = op_writes (strand_ops sess acts)"

lemma received_reads:
  "received sess ts = received sess (filter (read_from sess) ts)"
proof (induction ts)
  case (Cons t ts)
  then show ?case by (cases t) auto
qed simp

lemma received_tasks:
  "received sess (read_tasks sess acts) =
   concat (map (\<lambda>d. case message_ctor d of Inr m \<Rightarrow> [m] | Inl _ \<Rightarrow> []) (delivered acts))"
  by (induction acts rule: delivered.induct) (simp_all add: has_error_def)

lemma run_returning:
  assumes "connection_run env cn0 evs cn" and "cn_escaped cn = None" and "no_mprpc_exceptions env"
  shows "connection_run (returning env) cn0 evs cn"
  using assms(1,2)
proof induction
  case trace_start
  show ?case by (rule trace.trace_start)
next
  case (trace_event evs cn1 ev cn2)
  then have "cn_escaped cn1 = None" by (auto simp: connection_next_def split: if_splits)
  with trace_event connection_next_returning [OF _ _ assms(3)] show ?case by (blast intro: trace.trace_event)
qed

lemma start_returning: "connection_start (returning env) c p = connection_start env c p"
  by (simp add: connection_start_def sh_create_def)

lemma sent_null:
  fixes cn :: "('p, unit, 'r, 'w) connection"
  assumes "connection_run env (connection_start env () p) evs cn" and "list_all write_succeeds evs"
    and "cn_escaped cn = None" and "he_compressor_ops env = null_streaming_ops"
  obtains j where "sent (cn_write_log cn) = map message_bytes (take j (map fst (posted evs)))"
    "\<not> cn_writing cn \<longrightarrow> j = length (posted evs)"
proof -
  let ?q = "sh_writing_queue (cn_helper cn)"
  from connection_run_queued [OF assms(1-3)] obtain ds where ds: "posted evs = ds @ ?q"
    "compress_all null_streaming_ops () (map fst (ds @ take 1 ?q)) = (sent (cn_write_log cn), sh_compressor (cn_helper cn))"
    "cn_writing cn = (?q \<noteq> [])"
    unfolding queued_def assms(4) by (auto simp: null_streaming_ops_def)
  have "map fst (ds @ take 1 ?q) = take (length ds + 1) (map fst (posted evs))"
    unfolding ds(1) by (simp add: take_map)
  with ds(2) have sent: "sent (cn_write_log cn) = map message_bytes (take (length ds + 1) (map fst (posted evs)))"
    unfolding compress_all_null by (metis fst_conv)
  show thesis
  proof (cases "cn_writing cn")
    case True
    with sent show thesis by (intro that [of "length ds + 1"]) simp_all
  next
    case False
    with sent ds(1,3) show thesis by (intro that [of "length ds"]) simp_all
  qed
qed

text \<open>The bytes that went out on a session, as far as the strand of the session has got.\<close>

lemma session_sends:
  fixes cn :: "('p, unit, unit, unit) connection"
  assumes "connection_run env (connection_start env () p) (session_events sess evs) cn"
    and "list_all write_succeeds (session_events sess evs)" and "cn_escaped cn = None"
    and "he_compressor_ops env = null_streaming_ops" and "session_inv env evs S sess cn"
  obtains j where "sent (cn_write_log cn) = map message_bytes (take j (writes_to sess (sv_actions (ts_server S))))"
    "strand sess S = [] \<and> \<not> cn_writing cn \<longrightarrow> j = length (writes_to sess (sv_actions (ts_server S)))"
proof -
  let ?acts = "sv_actions (ts_server S)" and ?evs = "session_events sess evs"
  obtain j where j: "sent (cn_write_log cn) = map message_bytes (take j (map fst (posted ?evs)))"
    "\<not> cn_writing cn \<longrightarrow> j = length (posted ?evs)"
    by (rule sent_null [OF assms(1-4)])
  have posted: "map fst (posted ?evs) = op_writes (take (ts_ran S sess) (strand_ops sess ?acts))"
    using assms(5) by (simp add: session_inv_def Let_def)
  have writes: "writes_to sess ?acts = op_writes (take (ts_ran S sess) (strand_ops sess ?acts)) @ op_writes (strand sess S)"
    unfolding writes_to_def strand_def op_writes_append [symmetric] append_take_drop_id ..
  have "sent (cn_write_log cn) = map message_bytes (take (min j (length (posted ?evs))) (writes_to sess ?acts))"
    unfolding j(1) writes posted [symmetric] by (simp add: min_def)
  moreover have "min j (length (posted ?evs)) = length (writes_to sess ?acts)" if "strand sess S = []" "\<not> cn_writing cn"
    using that j(2) writes posted by (metis append.right_neutral length_map min.idem op_writes.simps(1))
  ultimately show thesis using that by blast
qed

lemma tcp_session_serves:
  fixes S :: "(msgpack_streaming_parser, unit, 'u) tcp_server"
  assumes "new_server fn base_fn (Some (tp_create n)) (map Some acceptors) (Some ms) u = Inr s0"
    and "malloc_ok malloc" and "mp_create malloc = Inr p0"
    and "env = tcp_env (msgpack_streaming_ops malloc) null_streaming_ops min_size"
    and "tcp_run order tn env (tcp_start (server_start s0)) evs S"
    and "\<And>i c p. created i c p evs \<Longrightarrow> p = p0"
    and "ts_sessions S sess = Some cn" and "sess \<notin> ts_failed S"
    and "list_all wf_mobj xs"
    and "prefix (concat (map event_bytes (session_events sess evs))) (concat (map pack_object xs))"
    and "list_all (event_in_range lim) (session_events sess evs)"
    and "length (concat (map pack_object xs)) + max (unat min_size) lim < 2 ^ 64"
    and "list_all write_succeeds (session_events sess evs)"
  obtains k j where "k \<le> length xs"
    "concat (map event_bytes (session_events sess evs)) =
      concat (map pack_object (take k xs)) @ mp_pending (sh_parser (cn_helper cn))"
    "on_session sess (messages_of (tp_executed (sv_threads (ts_server S)) @ tp_queue (sv_threads (ts_server S)))) =
      messages_in (take k xs)"
    "serve ms (messages_of (tp_executed (sv_threads (ts_server S)))) u =
      (sv_user (ts_server S), filter is_write (sv_actions (ts_server S)))"
    "sent (cn_write_log cn) = map message_bytes (take j (writes_to sess (sv_actions (ts_server S))))"
    "strand sess S = [] \<and> \<not> cn_writing cn \<longrightarrow> j = length (writes_to sess (sv_actions (ts_server S)))"
proof -
  let ?s = "ts_server S" and ?evs = "session_events sess evs"
  have env: "no_mprpc_exceptions env" "he_parser_ops env = msgpack_streaming_ops malloc"
    "he_compressor_ops env = null_streaming_ops" "he_streaming_min_buf_size env = min_size"
    unfolding assms(4) by (rule tcp_env_no_mprpc) (simp_all add: tcp_env_def)
  have inv: "tcp_inv order env acceptors (server_start s0) evs S" by (rule tcp_run_inv [OF assms(1,5) env(1)])
  with assms(7) have si: "session_inv env evs S sess cn" by (simp add: tcp_inv_def)
  with assms(8) obtain p where p: "cn_escaped cn = None" "created sess () p evs" "connection_run env (connection_start env () p) ?evs cn"
    unfolding session_inv_def Let_def by auto
  have run: "connection_run (returning env) (connection_start (returning env) () p0) ?evs cn"
    using run_returning [OF p(3,1) env(1)] assms(6) [OF p(2)] by (simp add: start_returning)
  have "handlers_return (returning env)" by (simp add: handlers_return_def assms(4) tcp_env_def)
  from msgpack_run_ok [OF assms(2) _ this assms(3,9) run assms(10,11)] assms(12) p(1)
  have "mp.framed malloc xs (concat (map event_bytes ?evs)) cn" by (simp add: env)
  then obtain ds ys where ds: "xs = ds @ ys" "delivered (cn_read_log cn) = map (\<lambda>x. Some (pack_object x)) ds"
    "concat (map event_bytes ?evs) = concat (map pack_object ds) @ mp_pending (sh_parser (cn_helper cn))"
    unfolding mp.framed_def by blast
  have "received sess (tp_executed (sv_threads ?s)) = received sess (read_tasks sess (cn_read_log cn))"
    using received_reads [of sess "tp_executed (sv_threads ?s)"] si by (simp add: session_inv_def Let_def)
  also have "\<dots> = messages_in ds" unfolding received_tasks ds(2) by (simp add: messages_in_def comp_def)
  finally have received: "received sess (tp_executed (sv_threads ?s)) = messages_in ds" .
  obtain sevs where "server_run order (server_start s0) sevs ?s" using inv by (auto simp: tcp_inv_def)
  from serving_run [OF assms(1) this] received
  have serving: "serve ms (messages_of (tp_executed (sv_threads ?s))) u = (sv_user ?s, filter is_write (sv_actions ?s))"
    "on_session sess (messages_of (tp_executed (sv_threads ?s) @ tp_queue (sv_threads ?s))) = messages_in ds"
    by (simp_all add: serving_def)
  obtain j where "sent (cn_write_log cn) = map message_bytes (take j (writes_to sess (sv_actions ?s)))"
    "strand sess S = [] \<and> \<not> cn_writing cn \<longrightarrow> j = length (writes_to sess (sv_actions ?s))"
    by (rule session_sends [OF p(3) assms(13) p(1) env(3) si])
  with ds serving show thesis by (intro that [of "length ds" j]) auto
qed



text \<open>No accept of acceptor \<open>a\<close> is outstanding, and none will be.\<close>

definition tcp_deaf :: "nat \<Rightarrow> ('p, 'c, 'u) tcp_server \<Rightarrow> bool" where
  "tcp_deaf a S \<longleftrightarrow>
     (\<forall>t \<in> set (tp_queue (sv_threads (ts_server S))). posted_task t) \<and>
     accepts_started a (ts_server S) \<le> ts_accepted S a"

lemma posted_step_accepts:
  assumes "server_thread k s = Some s'" and "\<forall>t \<in> set (tp_queue (sv_threads s)). posted_task t"
  shows "accepts_started a s' = accepts_started a s" "\<forall>t \<in> set (tp_queue (sv_threads s')). posted_task t"
proof -
  from assms(1) have "accepts_started a s' = accepts_started a s \<and> (\<forall>t \<in> set (tp_queue (sv_threads s')). posted_task t)"
  proof (cases rule: server_threadE)
    case (leaves p)
    with assms(2) show ?thesis by simp
  next
    case (task t q p)
    from assms(2) task(1) have "posted_task t" by simp
    then consider sess msg where "t = Process sess msg" | sess where "t = Remove sess" by (auto simp: posted_task_def)
    then show ?thesis
    proof cases
      case 1
      with assms(2) task show ?thesis by (auto simp: fold_on_execution split: prod.splits)
    next
      case 2
      with assms(2) task show ?thesis by (simp, auto simp: remove_session_def)
    qed
  qed
  then show "accepts_started a s' = accepts_started a s" "\<forall>t \<in> set (tp_queue (sv_threads s')). posted_task t" by blast+
qed

lemma read_step_accepts:
  assumes "server_thread k (queue_first (Message_Read sess True err m) s) = Some s'"
    and "\<forall>t \<in> set (tp_queue (sv_threads s)). posted_task t" and "runs_in k s"
  shows "accepts_started a s' = accepts_started a s" "\<forall>t \<in> set (tp_queue (sv_threads s')). posted_task t"
proof -
  from assms(1) have "accepts_started a s' = accepts_started a s \<and> (\<forall>t \<in> set (tp_queue (sv_threads s')). posted_task t)"
  proof (cases rule: server_threadE)
    case (leaves p)
    with assms(3) show ?thesis by (simp add: runs_in_def)
  next
    case (task t q p)
    then have "t = Message_Read sess True err m" by simp
    with assms(2) task show ?thesis
      by (auto simp: sv_on_read_def async_process_message_def async_remove_session_def posted_task_def
          split: sum.splits failure.splits exn.splits)
  qed
  then show "accepts_started a s' = accepts_started a s" "\<forall>t \<in> set (tp_queue (sv_threads s')). posted_task t" by blast+
qed

lemma accept_step_accepts:
  assumes "server_thread k (queue_first (Accepted b err session) s) = Some s'"
    and "\<forall>t \<in> set (tp_queue (sv_threads s)). posted_task t" and "runs_in k s" and "b \<noteq> a"
  shows "accepts_started a s' = accepts_started a s" "\<forall>t \<in> set (tp_queue (sv_threads s')). posted_task t"
proof -
  from assms(1) have "accepts_started a s' = accepts_started a s \<and> (\<forall>t \<in> set (tp_queue (sv_threads s')). posted_task t)"
  proof (cases rule: server_threadE)
    case (leaves p)
    with assms(3) show ?thesis by (simp add: runs_in_def)
  next
    case (task t q p)
    then have "t = Accepted b err session" by simp
    with assms(2,4) task show ?thesis by (auto simp: sv_on_accept_def do_accept_def split: option.splits)
  qed
  then show "accepts_started a s' = accepts_started a s" "\<forall>t \<in> set (tp_queue (sv_threads s')). posted_task t" by blast+
qed

lemma transport_accepts:
  assumes "transport_step k r s = Some s'"
  shows "accepts_started a s' = accepts_started a s" "tp_queue (sv_threads s') = tp_queue (sv_threads s)"
  using assms by (auto elim!: transport_stepE)

lemma session_step_deaf:
  assumes "tcp_deaf a S" and "session_step env k sess sev S = Some S'" and "no_mprpc_exceptions env"
    and "runs_in k (ts_server S)"
  shows "tcp_deaf a S'"
  using assms(2,3)
proof (cases rule: session_step_cases)
  case (1 cn cn' acts s')
  from 1(5) show ?thesis
  proof (elim disjE exE conjE)
    fix r
    assume "transport_step k r (ts_server S) = Some s'"
    with transport_accepts [OF this] 1(3) assms(1) show ?thesis by (simp add: tcp_deaf_def)
  next
    fix err m
    assume "server_thread k (queue_first (Message_Read sess True err m) (ts_server S)) = Some s'"
    with read_step_accepts [OF this _ assms(4)] 1(3) assms(1) show ?thesis by (simp add: tcp_deaf_def)
  qed
qed

lemma tcp_deaf_next:
  assumes "tcp_deaf a S" and "tcp_next order fn env S ev = Some S'" and "no_mprpc_exceptions env"
  shows "tcp_deaf a S' \<and> (\<forall>k sess res. ev \<noteq> Tcp_Accept k a sess res)"
proof (cases ev)
  case Tcp_Stop
  have "count_list (map Shutdown_Session xs) (Accept_Session a) = 0" for xs by (auto simp: count_list_0_iff)
  with Tcp_Stop assms show ?thesis by (auto simp: tcp_deaf_def accepts_started_def)
next
  case (Tcp_Thread k)
  with assms posted_step_accepts [of k "ts_server S"] show ?thesis by (auto simp: tcp_deaf_def)
next
  case (Tcp_Accept k b sess res)
  with assms(1,2) have "b \<noteq> a" and step: "accept_step fn env k b sess res S = Some S'"
    by (auto simp: tcp_deaf_def split: if_splits)
  have "runs_in k (ts_server S)" using assms(2) Tcp_Accept by (auto split: if_splits)
  moreover obtain s' where "ts_server S' = s'" "ts_accepted S' a = ts_accepted S a"
    "(\<exists>r. transport_step k r (ts_server S) = Some s') \<or>
     (\<exists>err session. server_thread k (queue_first (Accepted b err session) (ts_server S)) = Some s')"
    using step \<open>b \<noteq> a\<close> by (auto simp: accept_step_def Let_def split: sum.splits option.splits prod.splits) blast+
  ultimately show ?thesis
    using assms(1) \<open>b \<noteq> a\<close> Tcp_Accept transport_accepts [of k _ "ts_server S"] accept_step_accepts [of k b _ _ "ts_server S"]
    by (auto simp: tcp_deaf_def)
next
  case (Tcp_Strand k sess op available r)
  let ?S = "S\<lparr>ts_ran := (ts_ran S)(sess := Suc (ts_ran S sess))\<rparr>"
  have runs: "runs_in k (ts_server ?S)" and deaf: "tcp_deaf a ?S" and step: "strand_step env k sess op available r S = Some S'"
    using assms Tcp_Strand by (auto simp: tcp_deaf_def split: if_splits)
  have "(\<exists>sev. session_step env k sess sev ?S = Some S') \<or>
      (\<exists>r s'. transport_step k r (ts_server S) = Some s' \<and> S' = ?S\<lparr>ts_server := s'\<rparr>)"
    using step by (auto simp: strand_step_def Let_def split: if_splits strand_op.splits)
  with session_step_deaf [OF deaf _ assms(3) runs] transport_accepts [of k _ "ts_server S"] assms(1) have "tcp_deaf a S'"
    by (auto simp: tcp_deaf_def)
  with Tcp_Strand show ?thesis by simp
next
  case (Tcp_Read k sess err bs b b')
  with assms session_step_deaf [OF assms(1) _ assms(3)] show ?thesis by (auto split: if_splits)
next
  case (Tcp_Written k sess err)
  with assms session_step_deaf [OF assms(1) _ assms(3)] show ?thesis by (auto split: if_splits)
next
  case (Tcp_Destroy sess)
  with assms show ?thesis by (auto simp: tcp_deaf_def split: if_splits)
qed

text \<open>
  C34. A connection that is reset before it is accepted silences the acceptor: \<open>remote_endpoint()\<close> throws in \<open>on_accept\<close>, the handler
  is not called, so \<open>async_accept\<close> is not called again, and no connection is ever accepted afterwards. The exception also ends
  a thread of the pool.
\<close>

theorem tcp_reset_deaf:
  assumes "new_server fn base_fn (Some (tp_create n)) (map Some acceptors) (Some ms) u = Inr s0"
    and "tcp_run order tn (tcp_env pops cops min_size) (tcp_start (server_start s0)) evs S"
    and "accepts_started a (ts_server S) = Suc (ts_accepted S a)"
    and "tcp_next order tn (tcp_env pops cops min_size) S
      (Tcp_Accept k a sess (Accept_Socket (Inl (Throw x)) compr parser remote local)) = Some S1"
    and "tcp_run order tn (tcp_env pops cops min_size) S1 evs' S2"
  shows "tp_threads (sv_threads (ts_server S1)) ! k = Finished \<and>
    (\<forall>k sess res. Tcp_Accept k a sess res \<notin> set evs')"
proof -
  let ?env = "tcp_env pops cops min_size"
  have "listening acceptors (ts_server S)"
    using tcp_run_inv [OF assms(1,2) tcp_env_no_mprpc] by (simp add: tcp_inv_def)
  then have q: "\<forall>t \<in> set (tp_queue (sv_threads (ts_server S))). posted_task t" by (simp add: listening_def)
  obtain s' where s': "transport_step k (Inl (Throw x)) (ts_server S) = Some s'" "ts_server S1 = s'"
    "ts_accepted S1 a = Suc (ts_accepted S a)"
    using assms(4) by (auto simp: accept_step_def tcp_on_accept_def Let_def split: if_splits)
  have "tcp_deaf a S1" using transport_accepts [OF s'(1)] s' q assms(3) by (simp add: tcp_deaf_def)
  with assms(5) have "tcp_deaf a S2 \<and> (\<forall>k sess res. Tcp_Accept k a sess res \<notin> set evs')"
  proof induction
    case (trace_event evs S ev S')
    with tcp_deaf_next [OF _ trace_event.hyps(2) tcp_env_no_mprpc] show ?case by auto
  qed simp
  moreover have "tp_threads (sv_threads s') ! k = Finished"
    using s'(1) by (auto simp: transport_step_def process_thread_error_def split: if_splits)
  ultimately show ?thesis using s'(2) by simp
qed

section \<open>Examples\<close>

abbreviation example_tcp_env :: "(msgpack_streaming_parser, unit, unit, unit) helper_env" where
  "example_tcp_env \<equiv> tcp_env (msgpack_streaming_ops example_malloc) null_streaming_ops 16"

definition example_call :: mobj where
  "example_call = request_object 1 ''f'' (ARRAY [])"

definition example_accept :: "(msgpack_streaming_parser, unit, unit) tcp_event" where
  "example_accept = Tcp_Accept 0 0 0
     (Accept_Socket (Inr ()) (Inr (Some ())) (Inr (Some example_empty_parser)) (Inr ()) (Inr ()))"

definition example_tcp_events :: "(msgpack_streaming_parser, unit, unit) tcp_event list" where
  "example_tcp_events = [example_accept, Tcp_Strand 0 0 Op_Read (Inr 0) (Inr ()),
     Tcp_Read 0 0 None (pack_object example_call) (Inr 0) (Inr 0), Tcp_Thread 0]"

lemma example_connection:
  obtains c1 c2 where
    "connection_next example_tcp_env (connection_start example_tcp_env () example_empty_parser) (Async_Read () (Inr 0)) = Some c1"
    "connection_next example_tcp_env c1 (Read_Completed None (pack_object example_call) (Inr 0) (Inr 0)) = Some c2"
    "cn_escaped c1 = None" "cn_escaped c2 = None" "cn_read_log c1 = [Start_Read_Some () 16]"
    "cn_read_log c2 = [Start_Read_Some () 16, Call_On_Read () None example_bytes]"
proof -
  let ?bs = "pack_object example_call"
  have bs: "?bs = [0x94, 0, 1, 0xa1, 0x66, 0x90]"
    by (simp add: example_call_def request_object_def pack_object_def pack_array_def pack_str_def pack_imp_uint64_def take8_def char_byte_def)
  have parse: "msgpack_parse streaming_visitor ?bs 0 () = Inr (True, 6, ())"
    using streaming_parse_object [of example_call "[]" "()"]
    by (simp add: bs) (simp add: example_call_def request_object_def)
  obtain c1 where c1: "connection_next example_tcp_env (connection_start example_tcp_env () example_empty_parser)
      (Async_Read () (Inr 0)) = Some c1"
    "cn_escaped c1 = None" "cn_reading c1 = Some ((), 16)" "cn_read_log c1 = [Start_Read_Some () 16]"
    "sh_parser (cn_helper c1) = \<lparr>mp_buffer = \<lparr>buf_data = replicate 1024 0, buf_size = 16, buf_capacity = 1024\<rparr>,
       mp_consumed_buf_size = 0, mp_parsed_buf_size = 0\<rparr>"
    by (simp add: connection_next_def connection_start_def sh_create_def tcp_env_def sh_do_read_message_def
        sh_parse_next_def msgpack_streaming_ops_def mp_parse_next_def mp_pending_def msgpack_parse_def parse_imp_def
        example_empty_parser_def example_buffer_def streaming_visitor_def null_visitor_def finish_read_def
        sh_do_read_bytes_def mp_prepare_buffer_def buffer_resize_def escaped_def)
  have reads: "server_reads None example_bytes = Inr ()"
    using ctor_request [of "''f''" "[]" 1 "[]"] by (auto simp: server_reads_def has_error_def example_bytes_def)
  obtain c2 where c2: "connection_next example_tcp_env c1 (Read_Completed None ?bs (Inr 0) (Inr 0)) = Some c2"
    "cn_escaped c2 = None" "cn_read_log c2 = [Start_Read_Some () 16, Call_On_Read () None example_bytes]"
    using c1(2-) reads parse unfolding example_bytes_def example_call_def [symmetric] bs
    by (simp add: connection_next_def sh_on_read_bytes_def sh_parse_next_def tcp_env_def msgpack_streaming_ops_def
        mp_receive_def buffer_write_def mp_parse_next_def mp_consumed_def mp_pending_def mp_get_def finish_read_def
        escaped_def)
  show thesis by (rule that [OF c1(1) c2(1) c1(2) c2(2) c1(4) c2(3)])
qed

abbreviation example_tcp_start :: "(msgpack_streaming_parser, unit, nat) tcp_server" where
  "example_tcp_start \<equiv> tcp_start (server_start example_server)"

abbreviation example_tcp_run ::
    "(msgpack_streaming_parser, unit, unit) tcp_event list \<Rightarrow> (msgpack_streaming_parser, unit, nat) tcp_server \<Rightarrow> bool" where
  "example_tcp_run \<equiv> tcp_run sorted_list_of_set [] example_tcp_env example_tcp_start"

lemmas example_tcp_simps = started_server [OF example_server_ok(1)] tcp_start_def runs_in_def tp_start_def tp_create_def
  accepts_started_def accept_step_def tcp_on_accept_def tcp_session_create_def require_nonull_def Let_def
  thread_with_def tp_thread_step_def sv_on_accept_def has_error_def do_accept_def sv_act_def strand_def

lemma example_tcp_run:
  obtains S cn where "example_tcp_run example_tcp_events S" "ts_sessions S 0 = Some cn" "ts_failed S = {}"
    "writes_to 0 (sv_actions (ts_server S)) = [Some [0]]"
proof -
  obtain m where m: "message_ctor example_bytes = Inr m" "msg_type m = request" "msg_method m = Inr ''f''"
    "msg_params m = Inr (ARRAY [])"
    using ctor_request [of "''f''" "[]" 1 "[]"] by (auto simp: example_bytes_def)
  obtain c1 c2 where c:
    "connection_next example_tcp_env (connection_start example_tcp_env () example_empty_parser) (Async_Read () (Inr 0)) = Some c1"
    "connection_next example_tcp_env c1 (Read_Completed None (pack_object example_call) (Inr 0) (Inr 0)) = Some c2"
    "cn_escaped c1 = None" "cn_escaped c2 = None" "cn_read_log c1 = [Start_Read_Some () 16]"
    "cn_read_log c2 = [Start_Read_Some () 16, Call_On_Read () None example_bytes]"
    by (rule example_connection)
  let ?start = "connection_start example_tcp_env () example_empty_parser"
  have start: "?start\<lparr>cn_escaped := None\<rparr> = ?start" "c1\<lparr>cn_escaped := None\<rparr> = c1" "cn_read_log ?start = []"
    using c(3) by (simp_all add: connection_start_def)
  show thesis
    apply (rule that [of _ c2], rule run_events_trace)
      apply (simp add: example_tcp_events_def example_accept_def example_tcp_simps strand_step_def session_step_def
        transport_step_def start c sv_on_read_def async_process_message_def m do_process_message_def example_methods_def
        on_execution_def sv_post_def tp_post_def)
       apply (simp_all add: writes_to_def)
    done
qed


theorem tcp_single_read_witness:
  "\<exists>S cn. example_tcp_run example_tcp_events S \<and> ts_sessions S 0 = Some cn \<and>
     count_list (strand 0 S) Op_Read + (if cn_reading cn = None then 0 else 1) \<le> 1"
proof (rule example_tcp_run)
  fix S cn
  assume run: "example_tcp_run example_tcp_events S" "ts_sessions S 0 = Some cn"
  then show ?thesis using tcp_single_read [OF example_server_ok(1) run] by blast
qed

lemma example_session_events:
  "session_events 0 example_tcp_events = [Async_Read () (Inr 0), Read_Completed None (pack_object example_call) (Inr 0) (Inr 0)]"
  by (simp add: session_events_def example_tcp_events_def example_accept_def)

lemma example_created: "created i c p example_tcp_events \<Longrightarrow> p = example_empty_parser"
  by (auto simp: created_def example_tcp_events_def example_accept_def)

lemma example_call_ok: "wf_mobj example_call" "length (pack_object example_call) = 6"
  by (simp_all add: example_call_def request_object_def pack_object_def pack_array_def pack_str_def pack_imp_uint64_def take8_def)



definition example_reset :: "(msgpack_streaming_parser, unit, unit) tcp_event" where
  "example_reset = Tcp_Accept 0 0 0
     (Accept_Socket (Inl (Throw (Std_Exception ''remote_endpoint''))) (Inr (Some ())) (Inr (Some example_empty_parser)) (Inr ()) (Inr ()))"

theorem tcp_reset_deaf_witness:
  "\<exists>S1. example_tcp_run [example_reset] S1 \<and> tp_threads (sv_threads (ts_server S1)) ! 0 = Finished"
proof -
  obtain S1 where S1: "tcp_next sorted_list_of_set [] example_tcp_env example_tcp_start example_reset = Some S1"
    by (simp add: example_reset_def example_tcp_simps transport_step_def)
  have "accepts_started 0 (ts_server example_tcp_start) = Suc (ts_accepted example_tcp_start 0)"
    by (simp add: example_tcp_simps)
  from tcp_reset_deaf [OF example_server_ok(1) trace.trace_start this S1 [unfolded example_reset_def] trace.trace_start]
    run_events_trace [of "tcp_next sorted_list_of_set [] example_tcp_env" example_tcp_start "[example_reset]" S1] S1
  show ?thesis by auto
qed

end
