(* ===== verification/Logging.thy ===== *)
theory Logging
  imports Format_Message
begin

text \<open>
  Logging: the levels and the base class of loggers (\<^verbatim>\<open>include/mprpc/logging/log_level.h\<close>, \<^verbatim>\<open>logger.h\<close>,
  \<^verbatim>\<open>format_log_data.h\<close>, \<^verbatim>\<open>log_data_traits.h\<close> and its specialisations), loggers with labels
  (\<^verbatim>\<open>labeled_logger.h\<close>), the logger on spdlog (\<^verbatim>\<open>impl/mprpc/logging/impl/spdlog_logger.h\<close>,
  \<^verbatim>\<open>src/logging/basic_loggers.cpp\<close>), and the logger for classes written in Python
  (\<^verbatim>\<open>python/mprpc_cpp/include/mprpc/python_logger_helper.h\<close>).

  The function \<open>fmt\<close> stands for \<open>fmt::format\<close> on arguments that are texts, \<open>numbers\<close> for its texts of numbers, and \<open>clock\<close> for
  what spdlog makes of the flags for the time and the thread. The functions that write are \<open>noexcept\<close>: a failure in a
  result of theirs is the end of the program. Running out of memory for a text, devices that cannot be
  written, and the colours of a terminal are left out.
\<close>

section \<open>Levels\<close>

datatype log_level = log_trace | log_debug | log_info | log_warn | log_error | log_fatal | log_none

fun log_level_int :: "log_level \<Rightarrow> int" where
  "log_level_int log_trace = 0"
| "log_level_int log_debug = 1"
| "log_level_int log_info = 2"
| "log_level_int log_warn = 3"
| "log_level_int log_error = 4"
| "log_level_int log_fatal = 5"
| "log_level_int log_none = 6"

instantiation log_level :: linorder
begin

definition less_eq_log_level :: "log_level \<Rightarrow> log_level \<Rightarrow> bool" where
  "less_eq_log_level a b \<longleftrightarrow> log_level_int a \<le> log_level_int b"

definition less_log_level :: "log_level \<Rightarrow> log_level \<Rightarrow> bool" where
  "less_log_level a b \<longleftrightarrow> log_level_int a < log_level_int b"

instance
proof
  fix x y :: log_level
  assume "x \<le> y" "y \<le> x"
  then show "x = y" by (cases x; cases y) (simp_all add: less_eq_log_level_def)
qed (auto simp: less_eq_log_level_def less_log_level_def)

end

section \<open>The text of a message\<close>

text \<open>A text that is passed on as \<open>const char*\<close> ends at the first null character.\<close>

definition c_str :: "string \<Rightarrow> string" where
  "c_str = takeWhile (\<lambda>c. c \<noteq> CHR 0x00)"

datatype log_data =
    Log_Text string
  | Log_Message_Data message_data
  | Log_Object mobj
  | Log_Message message
  | Log_Error error_info

type_synonym fmt_format = "string \<Rightarrow> string list \<Rightarrow> string result"

fun log_data_preprocess :: "fmt_lib \<Rightarrow> fmt_format \<Rightarrow> log_data \<Rightarrow> string result" where
  "log_data_preprocess numbers fmt (Log_Text s) = Inr s"
| "log_data_preprocess numbers fmt (Log_Message_Data d) = format_message numbers d default_formatted_data_length_limit"
| "log_data_preprocess numbers fmt (Log_Object x) =
     format_message numbers (Some (pack_object x)) default_formatted_data_length_limit"
| "log_data_preprocess numbers fmt (Log_Message m) =
     format_message numbers (Some (pack_object (msg_handle m))) default_formatted_data_length_limit"
| "log_data_preprocess numbers fmt (Log_Error e) =
     (if \<not> has_error e then Inr ''no error''
      else if \<not> error_info_has_data e then
        fmt ''error {} {}'' [decimal (unat (error_info_code e)), error_info_message e]
      else
        bindR (format_message numbers (error_info_data e) default_formatted_data_length_limit)
          (\<lambda>d. fmt ''error {} {} with data: {}'' [decimal (unat (error_info_code e)), error_info_message e, d]))"

fun preprocess_all :: "fmt_lib \<Rightarrow> fmt_format \<Rightarrow> log_data list \<Rightarrow> string list result" where
  "preprocess_all numbers fmt [] = Inr []"
| "preprocess_all numbers fmt (d # ds) =
     bindR (log_data_preprocess numbers fmt d) (\<lambda>t. bindR (preprocess_all numbers fmt ds) (\<lambda>ts. Inr (t # ts)))"

text \<open>
  \<open>preprocess\<close> is \<open>noexcept\<close>, so that its failure, the outer one, is not that of \<open>format_log_data\<close>, the inner one. Without
  data the overload for one argument is chosen, which copies the text.
\<close>

definition format_log_data :: "fmt_lib \<Rightarrow> fmt_format \<Rightarrow> string \<Rightarrow> log_data list \<Rightarrow> string result result" where
  "format_log_data numbers fmt format data =
     (if data = [] then Inr (Inr format)
      else bindR (preprocess_all numbers fmt data) (\<lambda>ts. Inr (fmt format ts)))"

section \<open>Loggers\<close>

type_synonym source_loc = "string \<times> 32 word \<times> string"

text \<open>The three overloads of \<open>write\<close> and of \<open>write_impl\<close> differ in what they say about the place.\<close>

datatype place = Nowhere | At source_loc | Labeled string source_loc

definition is_outputted_level :: "log_level \<Rightarrow> log_level \<Rightarrow> bool" where
  "is_outputted_level log_output_level level \<longleftrightarrow> log_level_int level \<ge> log_level_int log_output_level"

definition format_error_text :: string where
  "format_error_text = ''ERROR IN FORMATTING LOG MESSAGE''"

type_synonym 's write_impl = "place \<Rightarrow> log_level \<Rightarrow> string \<Rightarrow> 's \<Rightarrow> 's result"

definition logger_write ::
    "fmt_lib \<Rightarrow> fmt_format \<Rightarrow> 's write_impl \<Rightarrow> log_level \<Rightarrow> place \<Rightarrow> log_level \<Rightarrow> string \<Rightarrow> log_data list \<Rightarrow>
     's \<Rightarrow> 's result" where
  "logger_write numbers fmt write_impl log_output_level place level format data s =
     (if \<not> is_outputted_level log_output_level level then Inr s
      else
        bindR (format_log_data numbers fmt format data)
          (\<lambda>r. case r of
             Inr text \<Rightarrow> write_impl place level (c_str text) s
           | Inl (Throw _) \<Rightarrow> write_impl place level format_error_text s
           | Inl e \<Rightarrow> Inl e))"

section \<open>Loggers with labels\<close>

record 'l labeled_logger =
  ll_logger :: 'l
  ll_label :: string

definition labeled_logger_create :: "string \<Rightarrow> 'l option \<Rightarrow> string \<Rightarrow> 'l labeled_logger result" where
  "labeled_logger_create fn logger label =
     bindR (require_nonull logger (Some ''logger'') (Some fn)) (\<lambda>l. Inr \<lparr>ll_logger = l, ll_label = label\<rparr>)"

definition add_level :: "string \<Rightarrow> 'l labeled_logger \<Rightarrow> 'l labeled_logger" where
  "add_level name l = (if ll_label l = [] then l\<lparr>ll_label := name\<rparr> else l\<lparr>ll_label := ll_label l @ ''.'' @ name\<rparr>)"

definition labeled_logger_sub :: "'l labeled_logger \<Rightarrow> string \<Rightarrow> 'l labeled_logger" where
  "labeled_logger_sub logger name = add_level name logger"

text \<open>The output level is that of the logger behind the label.\<close>

definition labeled_write ::
    "fmt_lib \<Rightarrow> fmt_format \<Rightarrow> 's write_impl \<Rightarrow> log_level labeled_logger \<Rightarrow> source_loc \<Rightarrow> log_level \<Rightarrow> string \<Rightarrow>
     log_data list \<Rightarrow> 's \<Rightarrow> 's result" where
  "labeled_write numbers fmt write_impl l loc level format data s =
     (if ll_label l = [] then logger_write numbers fmt write_impl (ll_logger l) (At loc) level format data s
      else logger_write numbers fmt write_impl (ll_logger l) (Labeled (c_str (ll_label l)) loc) level format data s)"

section \<open>spdlog\<close>

datatype level_enum = spd_trace | spd_debug | spd_info | spd_warn | spd_err | spd_critical | spd_off

fun level_enum_int :: "level_enum \<Rightarrow> int" where
  "level_enum_int spd_trace = 0"
| "level_enum_int spd_debug = 1"
| "level_enum_int spd_info = 2"
| "level_enum_int spd_warn = 3"
| "level_enum_int spd_err = 4"
| "level_enum_int spd_critical = 5"
| "level_enum_int spd_off = 6"

fun convert_log_level_to_spdlog :: "log_level \<Rightarrow> level_enum" where
  "convert_log_level_to_spdlog log_trace = spd_trace"
| "convert_log_level_to_spdlog log_debug = spd_debug"
| "convert_log_level_to_spdlog log_info = spd_info"
| "convert_log_level_to_spdlog log_warn = spd_warn"
| "convert_log_level_to_spdlog log_error = spd_err"
| "convert_log_level_to_spdlog log_fatal = spd_critical"
| "convert_log_level_to_spdlog log_none = spd_trace"

text \<open>\<open>format_impl\<close> copies seven characters, whatever the length of the literal; a literal ends with a null character.\<close>

definition flag_format_impl :: "string \<Rightarrow> string \<Rightarrow> string result" where
  "flag_format_impl dest str =
     (if 7 \<le> length str + 1 then Inr (dest @ take 7 (str @ [CHR 0x00])) else Inl Undefined)"

fun log_level_flag_format :: "level_enum \<Rightarrow> string \<Rightarrow> string result" where
  "log_level_flag_format spd_trace dest = flag_format_impl dest ''[trace]''"
| "log_level_flag_format spd_debug dest = flag_format_impl dest ''[debug]''"
| "log_level_flag_format spd_info dest = flag_format_impl dest ''[info] ''"
| "log_level_flag_format spd_warn dest = flag_format_impl dest ''[warn] ''"
| "log_level_flag_format spd_err dest = flag_format_impl dest ''[error]''"
| "log_level_flag_format spd_critical dest = flag_format_impl dest ''[fatal]''"
| "log_level_flag_format spd_off dest = Inr dest"

text \<open>
  A message and a logger of spdlog. What the sink has got and not flushed is in \<open>spd_buffer\<close>; what is in \<open>spd_output\<close> has
  left the program. A location with line 0 counts as none.
\<close>

record spd_msg =
  sm_loc :: source_loc
  sm_level :: level_enum
  sm_payload :: string

record spd_logger =
  spd_level :: level_enum
  spd_flush_level :: level_enum
  spd_pattern :: string
  spd_buffer :: string
  spd_output :: string

definition int_text :: "int \<Rightarrow> string" where
  "int_text i = (if i < 0 then ''-'' @ decimal (nat (- i)) else decimal (nat i))"

definition basename :: "string \<Rightarrow> string" where
  "basename filename = rev (takeWhile (\<lambda>c. c \<noteq> CHR ''/'') (rev filename))"

text \<open>The flags of the pattern: the custom flag \<open>k\<close>, colours, text, place; \<open>clock\<close> has the others.\<close>

definition spd_flag :: "(char \<Rightarrow> string) \<Rightarrow> spd_msg \<Rightarrow> char \<Rightarrow> string \<Rightarrow> string result" where
  "spd_flag clock msg flag dest =
     (case sm_loc msg of (filename, line, function) \<Rightarrow>
      if flag = CHR ''k'' then log_level_flag_format (sm_level msg) dest
      else if flag = CHR ''v'' then Inr (dest @ sm_payload msg)
      else if flag = CHR ''^'' \<or> flag = CHR ''$'' then Inr dest
      else if flag = CHR ''s'' then Inr (dest @ (if line = 0 then [] else basename (c_str filename)))
      else if flag = CHR ''#'' then Inr (dest @ (if line = 0 then [] else int_text (sint line)))
      else Inr (dest @ clock flag))"

fun spd_render :: "(char \<Rightarrow> string) \<Rightarrow> spd_msg \<Rightarrow> string \<Rightarrow> string \<Rightarrow> string result" where
  "spd_render clock msg [] dest = Inr (dest @ [CHR 0x0A])"
| "spd_render clock msg [c] dest = (if c = CHR ''%'' then Inr (dest @ [CHR 0x0A]) else Inr (dest @ [c, CHR 0x0A]))"
| "spd_render clock msg (c # d # p) dest =
     (if c = CHR ''%'' then bindR (spd_flag clock msg d dest) (spd_render clock msg p)
      else spd_render clock msg (d # p) (dest @ [c]))"

definition spd_sink_it :: "(char \<Rightarrow> string) \<Rightarrow> spd_msg \<Rightarrow> spd_logger \<Rightarrow> spd_logger result" where
  "spd_sink_it clock msg s =
     bindR (spd_render clock msg (spd_pattern s) [])
       (\<lambda>line. let s = s\<lparr>spd_buffer := spd_buffer s @ line\<rparr> in
          Inr (if level_enum_int (sm_level msg) \<ge> level_enum_int (spd_flush_level s) \<and> sm_level msg \<noteq> spd_off
               then s\<lparr>spd_output := spd_output s @ spd_buffer s, spd_buffer := []\<rparr> else s))"

definition spd_should_log :: "level_enum \<Rightarrow> spd_logger \<Rightarrow> bool" where
  "spd_should_log level s \<longleftrightarrow> level_enum_int level \<ge> level_enum_int (spd_level s)"

definition spd_log :: "(char \<Rightarrow> string) \<Rightarrow> source_loc \<Rightarrow> level_enum \<Rightarrow> string \<Rightarrow> spd_logger \<Rightarrow> spd_logger result" where
  "spd_log clock loc level msg s =
     (if \<not> spd_should_log level s then Inr s
      else spd_sink_it clock \<lparr>sm_loc = loc, sm_level = level, sm_payload = msg\<rparr> s)"

text \<open>A failure of \<open>fmt\<close> is caught and reported on the standard error stream.\<close>

definition spd_log_format ::
    "(char \<Rightarrow> string) \<Rightarrow> fmt_format \<Rightarrow> source_loc \<Rightarrow> level_enum \<Rightarrow> string \<Rightarrow> string list \<Rightarrow> spd_logger \<Rightarrow> spd_logger result" where
  "spd_log_format clock fmt loc level format args s =
     (if \<not> spd_should_log level s then Inr s
      else
        (case fmt format args of
           Inr text \<Rightarrow> spd_sink_it clock \<lparr>sm_loc = loc, sm_level = level, sm_payload = text\<rparr> s
         | Inl (Throw _) \<Rightarrow> Inr s
         | Inl e \<Rightarrow> Inl e))"

section \<open>The logger on spdlog\<close>

text \<open>The constructor is \<open>noexcept\<close> too: a null pointer ends the program.\<close>

definition spdlog_logger_create :: "string \<Rightarrow> spd_logger option \<Rightarrow> spd_logger result" where
  "spdlog_logger_create fn logger =
     bindR (require_nonull logger (Some ''spdlog_logger'') (Some fn))
       (\<lambda>s. Inr (s\<lparr>spd_level := spd_trace, spd_flush_level := spd_trace,
          spd_pattern := ''[%Y-%m-%dT%H:%M:%S.%f] %^%k%$ (thread %t) %v (%s:%#)''\<rparr>))"

fun spdlog_write_impl :: "(char \<Rightarrow> string) \<Rightarrow> fmt_format \<Rightarrow> spd_logger write_impl" where
  "spdlog_write_impl clock fmt (Labeled label loc) level message s =
     spd_log_format clock fmt loc (convert_log_level_to_spdlog level) ''[{}] {}'' [label, message] s"
| "spdlog_write_impl clock fmt (At loc) level message s =
     spd_log clock loc (convert_log_level_to_spdlog level) message s"
| "spdlog_write_impl clock fmt Nowhere level message s =
     spd_log clock ([], 0, []) (convert_log_level_to_spdlog level) message s"

text \<open>
  The loggers spdlog keeps by name, for the whole program; \<open>open_file\<close> is what opening the file gives. A name
  that is taken is an exception. The logger for the standard output is made once.
\<close>

type_synonym spd_registry = "string \<rightharpoonup> spd_logger"

definition spd_new_logger :: spd_logger where
  "spd_new_logger = \<lparr>spd_level = spd_info, spd_flush_level = spd_off, spd_pattern = ''%+'', spd_buffer = [], spd_output = []\<rparr>"

definition spd_register :: "string \<Rightarrow> spd_registry \<Rightarrow> spd_registry result" where
  "spd_register name reg =
     (if reg name \<noteq> None then Inl (Throw (Std_Exception (''logger with name '' @ [CHR 0x27] @ name @ [CHR 0x27] @ '' already exists'')))
      else Inr (reg(name \<mapsto> spd_new_logger)))"

definition create_file_logger :: "string \<Rightarrow> unit result \<Rightarrow> string \<Rightarrow> spd_registry \<Rightarrow> spd_registry result" where
  "create_file_logger fn open_file base_filename reg =
     bindR open_file (\<lambda>_. bindR (spd_register base_filename reg)
       (\<lambda>reg. bindR (spdlog_logger_create fn (reg base_filename)) (\<lambda>s. Inr (reg(base_filename \<mapsto> s)))))"

definition console_name :: string where
  "console_name = ''mprpc_console_logger''"

definition create_stdout_logger :: "string \<Rightarrow> bool \<times> spd_registry \<Rightarrow> (bool \<times> spd_registry) result" where
  "create_stdout_logger fn = (\<lambda>(made, reg).
     bindR (if made then Inr reg else spd_register console_name reg)
       (\<lambda>reg. bindR (spdlog_logger_create fn (reg console_name)) (\<lambda>s. Inr (True, reg(console_name \<mapsto> s)))))"

section \<open>The logger for Python\<close>

text \<open>The calls of the function from Python, and the lines on the standard error stream.\<close>

record python_log =
  py_calls :: "(string \<times> source_loc \<times> log_level \<times> string) list"
  py_cerr :: "string list"

definition python_call ::
    "(string \<times> source_loc \<times> log_level \<times> string \<Rightarrow> unit result) \<Rightarrow> string \<Rightarrow> source_loc \<Rightarrow> log_level \<Rightarrow> string \<Rightarrow>
     python_log \<Rightarrow> python_log result" where
  "python_call write_func label loc level message s =
     (let s = s\<lparr>py_calls := py_calls s @ [(label, loc, level, message)]\<rparr> in
      case write_func (label, loc, level, message) of
        Inr _ \<Rightarrow> Inr s
      | Inl (Throw e) \<Rightarrow> Inr (s\<lparr>py_cerr := py_cerr s @ [''Error in mprpc::python_logger: '' @ exn_what e]\<rparr>)
      | Inl e \<Rightarrow> Inl e)"

fun python_write_impl :: "(string \<times> source_loc \<times> log_level \<times> string \<Rightarrow> unit result) \<Rightarrow> python_log write_impl" where
  "python_write_impl write_func (Labeled label loc) level message s = python_call write_func label loc level message s"
| "python_write_impl write_func (At loc) level message s = python_call write_func ''mprpc'' loc level message s"
| "python_write_impl write_func Nowhere level message s =
     python_call write_func ''mprpc'' (''<unknown_file>'', 0, ''<unknown_function>'') level message s"

section \<open>Labels\<close>

fun joined :: "string list \<Rightarrow> string" where
  "joined [] = []"
| "joined [n] = n"
| "joined (n # ns) = n @ ''.'' @ joined ns"

lemma joined_Cons: "joined ((a @ ''.'' @ n) # ns) = a @ ''.'' @ joined (n # ns)"
  by (cases ns) simp_all

lemma label_of_subs: "ll_label l \<noteq> [] \<Longrightarrow> ll_label (foldl labeled_logger_sub l ns) = joined (ll_label l # ns)"
proof (induction ns arbitrary: l)
  case (Cons n ns)
  then have "ll_label (labeled_logger_sub l n) = ll_label l @ ''.'' @ n"
    by (simp add: labeled_logger_sub_def add_level_def)
  with Cons.IH [of "labeled_logger_sub l n"] show ?case by (simp add: joined_Cons [simplified])
qed simp

section \<open>Documented behaviour of fmt\<close>

text \<open>
  Each \<open>{}\<close> is replaced by the next argument, when the format has no other braces and there are as many arguments;
  a failure is an exception.
\<close>

fun plain_format :: "string \<Rightarrow> nat \<Rightarrow> bool" where
  "plain_format [] n \<longleftrightarrow> n = 0"
| "plain_format [c] n \<longleftrightarrow> n = 0 \<and> c \<noteq> CHR ''{'' \<and> c \<noteq> CHR ''}''"
| "plain_format (c # d # f) n \<longleftrightarrow>
     (if c = CHR ''{'' then d = CHR ''}'' \<and> 0 < n \<and> plain_format f (n - 1)
      else c \<noteq> CHR ''}'' \<and> plain_format (d # f) n)"

fun fill :: "string \<Rightarrow> string list \<Rightarrow> string" where
  "fill (c # d # f) (x # xs) =
     (if c = CHR ''{'' \<and> d = CHR ''}'' then x @ fill f xs else c # fill (d # f) (x # xs))"
| "fill f xs = f"

definition fmt_fills :: "fmt_format \<Rightarrow> bool" where
  "fmt_fills fmt \<longleftrightarrow>
     (\<forall>f xs. plain_format f (length xs) \<longrightarrow> fmt f xs = Inr (fill f xs)) \<and>
     (\<forall>f xs e. fmt f xs = Inl e \<longrightarrow> (\<exists>x. e = Throw x))"

lemma fmt_texts:
  assumes "fmt_fills fmt"
  shows "fmt ''[{}] {}'' [a, b] = Inr (''['' @ a @ ''] '' @ b)"
    "fmt ''error {} {}'' [a, b] = Inr (''error '' @ a @ '' '' @ b)"
    "fmt ''error {} {} with data: {}'' [a, b, c] = Inr (''error '' @ a @ '' '' @ b @ '' with data: '' @ c)"
  using assms unfolding fmt_fills_def by simp_all

section \<open>Preprocessing\<close>

lemma preprocess_total:
  assumes "fmt_fills fmt"
  shows "\<exists>t. log_data_preprocess numbers fmt d = Inr t"
proof (cases d)
  case (Log_Error e)
  obtain t where "format_message numbers (error_info_data e) default_formatted_data_length_limit = Inr t"
    using format_message_total by blast
  with Log_Error fmt_texts [OF assms] show ?thesis by simp
qed (simp_all add: format_message_total)

definition data_text :: "fmt_lib \<Rightarrow> fmt_format \<Rightarrow> log_data \<Rightarrow> string" where
  "data_text numbers fmt d = (case log_data_preprocess numbers fmt d of Inr t \<Rightarrow> t | Inl _ \<Rightarrow> [])"

lemma preprocess_all_total:
  assumes "fmt_fills fmt"
  shows "preprocess_all numbers fmt ds = Inr (map (data_text numbers fmt) ds)"
proof (induction ds)
  case (Cons d ds)
  obtain t where "log_data_preprocess numbers fmt d = Inr t" using preprocess_total [OF assms] by blast
  with Cons show ?case by (simp add: data_text_def)
qed simp

text \<open>The text of a log message: the formatted text, or the text about a format that does not fit the data.\<close>

definition log_text :: "fmt_lib \<Rightarrow> fmt_format \<Rightarrow> string \<Rightarrow> log_data list \<Rightarrow> string" where
  "log_text numbers fmt format data =
     (if data = [] then c_str format
      else case fmt format (map (data_text numbers fmt) data) of Inr t \<Rightarrow> c_str t | Inl _ \<Rightarrow> format_error_text)"

section \<open>What a logger promises\<close>

text \<open>\<open>write_impl\<close> returns, and adds what belongs to the message to what has been written.\<close>

locale log_sink =
  fixes write_impl :: "'s write_impl"
    and inv :: "'s \<Rightarrow> bool"
    and written :: "'s \<Rightarrow> 'x list"
    and entry :: "place \<Rightarrow> log_level \<Rightarrow> string \<Rightarrow> 'x list"
  assumes write_impl_ok:
    "inv s \<Longrightarrow> \<exists>s'. write_impl place level text s = Inr s' \<and> inv s' \<and> written s' = written s @ entry place level text"
begin

lemma logger_write_ok:
  assumes "inv s" and "fmt_fills fmt"
  shows "\<exists>s'. logger_write numbers fmt write_impl out place level format data s = Inr s' \<and> inv s' \<and>
    written s' = written s @ (if out \<le> level then entry place level (log_text numbers fmt format data) else [])"
proof (cases "out \<le> level")
  case False
  with assms(1) show ?thesis by (simp add: logger_write_def is_outputted_level_def less_eq_log_level_def)
next
  case True
  have "logger_write numbers fmt write_impl out place level format data s =
      write_impl place level (log_text numbers fmt format data) s"
  proof (cases "fmt format (map (data_text numbers fmt) data)")
    case (Inl e)
    then obtain x where "e = Throw x" using assms(2) unfolding fmt_fills_def by blast
    with True Inl preprocess_all_total [OF assms(2)] show ?thesis
      by (simp add: logger_write_def is_outputted_level_def less_eq_log_level_def format_log_data_def log_text_def)
  next
    case (Inr t)
    with True preprocess_all_total [OF assms(2)] show ?thesis
      by (simp add: logger_write_def is_outputted_level_def less_eq_log_level_def format_log_data_def log_text_def)
  qed
  with True write_impl_ok [OF assms(1)] show ?thesis by simp
qed

text \<open>Any number of messages, through any loggers with labels on the same output.\<close>

lemma labeled_writes_ok:
  assumes "inv s" and "fmt_fills fmt"
  shows "\<exists>s'. run_ops (\<lambda>(l, loc, level, format, data). labeled_write numbers fmt write_impl l loc level format data) ws s = Inr s' \<and>
    inv s' \<and>
    written s' = written s @ concat (map (\<lambda>(l, loc, level, format, data).
      if ll_logger l \<le> level
      then entry (if ll_label l = [] then At loc else Labeled (c_str (ll_label l)) loc) level (log_text numbers fmt format data)
      else []) ws)"
  using assms(1)
proof (induction ws arbitrary: s)
  case (Cons w ws)
  obtain l loc level format data where w: "w = (l, loc, level, format, data)" by (cases w)
  let ?place = "if ll_label l = [] then At loc else Labeled (c_str (ll_label l)) loc"
  have "labeled_write numbers fmt write_impl l loc level format data s =
      logger_write numbers fmt write_impl (ll_logger l) ?place level format data s"
    by (simp add: labeled_write_def)
  with logger_write_ok [OF Cons.prems assms(2), of numbers "ll_logger l" ?place level format data]
  obtain s1 where s1: "labeled_write numbers fmt write_impl l loc level format data s = Inr s1" "inv s1"
    "written s1 = written s @ (if ll_logger l \<le> level then entry ?place level (log_text numbers fmt format data) else [])"
    by metis
  from Cons.IH [OF s1(2)] s1 w show ?case by auto
qed simp

end

section \<open>The lines of the logger on spdlog\<close>

fun level_tag :: "log_level \<Rightarrow> string" where
  "level_tag log_trace = ''[trace]''"
| "level_tag log_debug = ''[debug]''"
| "level_tag log_info = ''[info] ''"
| "level_tag log_warn = ''[warn] ''"
| "level_tag log_error = ''[error]''"
| "level_tag log_fatal = ''[fatal]''"
| "level_tag log_none = ''[trace]''"

fun place_text :: "source_loc \<Rightarrow> string" where
  "place_text (filename, line, function) = (if line = 0 then '':'' else basename (c_str filename) @ '':'' @ int_text (sint line))"

text \<open>A line, as the pattern asks for it.\<close>

definition log_line :: "(char \<Rightarrow> string) \<Rightarrow> source_loc \<Rightarrow> log_level \<Rightarrow> string \<Rightarrow> string" where
  "log_line clock loc level text =
     ''['' @ clock (CHR ''Y'') @ ''-'' @ clock (CHR ''m'') @ ''-'' @ clock (CHR ''d'') @ ''T'' @ clock (CHR ''H'') @ '':'' @
     clock (CHR ''M'') @ '':'' @ clock (CHR ''S'') @ ''.'' @ clock (CHR ''f'') @ ''] '' @ level_tag level @
     '' (thread '' @ clock (CHR ''t'') @ '') '' @ text @ '' ('' @ place_text loc @ '')'' @ [CHR 0x0A]"

fun spd_entry :: "(char \<Rightarrow> string) \<Rightarrow> place \<Rightarrow> log_level \<Rightarrow> string \<Rightarrow> string" where
  "spd_entry clock (Labeled label loc) level text = log_line clock loc level (''['' @ label @ ''] '' @ text)"
| "spd_entry clock (At loc) level text = log_line clock loc level text"
| "spd_entry clock Nowhere level text = log_line clock ([], 0, []) level text"

definition spd_inv :: "spd_logger \<Rightarrow> bool" where
  "spd_inv s \<longleftrightarrow> spd_level s = spd_trace \<and> spd_flush_level s = spd_trace \<and>
     spd_pattern s = ''[%Y-%m-%dT%H:%M:%S.%f] %^%k%$ (thread %t) %v (%s:%#)'' \<and> spd_buffer s = []"

lemma spd_sink_it_line:
  assumes "spd_inv s"
  shows "spd_sink_it clock \<lparr>sm_loc = loc, sm_level = convert_log_level_to_spdlog level, sm_payload = text\<rparr> s =
    Inr (s\<lparr>spd_output := spd_output s @ log_line clock loc level text\<rparr>)"
proof -
  obtain filename line fn where loc: "loc = (filename, line, fn)" by (cases loc)
  have tag: "log_level_flag_format (convert_log_level_to_spdlog level) dest = Inr (dest @ level_tag level)" for dest
    by (cases level) (simp_all add: flag_format_impl_def)
  have "spd_render clock \<lparr>sm_loc = loc, sm_level = convert_log_level_to_spdlog level, sm_payload = text\<rparr> (spd_pattern s) [] =
      Inr (log_line clock loc level text)"
    using assms by (simp add: spd_inv_def spd_flag_def loc tag log_line_def)
  then show ?thesis
    using assms by (cases level) (simp_all add: spd_sink_it_def spd_inv_def)
qed

lemma spd_should_log_trace: "spd_inv s \<Longrightarrow> spd_should_log (convert_log_level_to_spdlog level) s"
  by (cases level) (simp_all add: spd_inv_def spd_should_log_def)

lemma spdlog_write_impl_line:
  assumes "spd_inv s" and "fmt_fills fmt"
  shows "spdlog_write_impl clock fmt place level text s = Inr (s\<lparr>spd_output := spd_output s @ spd_entry clock place level text\<rparr>)"
  using assms
  by (cases place) (simp_all add: spd_log_def spd_log_format_def spd_should_log_trace spd_sink_it_line fmt_texts)

interpretation spd: log_sink "spdlog_write_impl clock fmt" "\<lambda>s. spd_inv s \<and> fmt_fills fmt" spd_output "spd_entry clock"
  for clock fmt
  by unfold_locales (auto simp: spdlog_write_impl_line spd_inv_def)

text \<open>What a line says, for a logger with a label.\<close>

definition labeled_line :: "(char \<Rightarrow> string) \<Rightarrow> 'l labeled_logger \<Rightarrow> source_loc \<Rightarrow> log_level \<Rightarrow> string \<Rightarrow> string" where
  "labeled_line clock l loc level text =
     log_line clock loc level ((if ll_label l = [] then [] else ''['' @ c_str (ll_label l) @ ''] '') @ text)"

lemma created_spd_inv:
  assumes "spdlog_logger_create fn (Some s0) = Inr s" and "spd_buffer s0 = []"
  shows "spd_inv s" "spd_output s = spd_output s0"
  using assms by (auto simp: spdlog_logger_create_def require_nonull_def spd_inv_def)

section \<open>Calls of the function from Python\<close>

fun python_entry :: "place \<Rightarrow> log_level \<Rightarrow> string \<Rightarrow> (string \<times> source_loc \<times> log_level \<times> string) list" where
  "python_entry (Labeled label loc) level text = [(label, loc, level, text)]"
| "python_entry (At loc) level text = [(''mprpc'', loc, level, text)]"
| "python_entry Nowhere level text = [(''mprpc'', (''<unknown_file>'', 0, ''<unknown_function>''), level, text)]"

lemma python_write_impl_call:
  assumes "\<forall>x e. write_func x = Inl e \<longrightarrow> (\<exists>y. e = Throw y)"
  shows "\<exists>s'. python_write_impl write_func place level text s = Inr s' \<and> py_calls s' = py_calls s @ python_entry place level text"
proof -
  have "\<exists>s'. python_call write_func label loc level text s = Inr s' \<and> py_calls s' = py_calls s @ [(label, loc, level, text)]"
    for label loc
    using assms by (cases "write_func (label, loc, level, text)") (fastforce simp: python_call_def)+
  then show ?thesis by (cases place) auto
qed

interpretation py: log_sink "python_write_impl write_func" "\<lambda>_. \<forall>x e. write_func x = Inl e \<longrightarrow> (\<exists>y. e = Throw y)"
  py_calls python_entry for write_func
  by unfold_locales (use python_write_impl_call in blast)

section \<open>File loggers\<close>

text \<open>
  spdlog never forgets a logger, so a second logger for the same file is refused, also when the first is gone.
\<close>

lemma file_logger_once:
  assumes "create_file_logger fn open_file name reg = Inr reg'" and "reg' \<subseteq>\<^sub>m reg''"
  shows "create_file_logger fn (Inr ()) name reg'' =
    Inl (Throw (Std_Exception (''logger with name '' @ [CHR 0x27] @ name @ [CHR 0x27] @ '' already exists'')))"
proof -
  have "reg' name \<noteq> None" using assms(1) by (auto simp: create_file_logger_def bindR_eq_Inr)
  with assms(2) have "reg'' name \<noteq> None" by (metis domI domIff map_le_implies_dom_le subsetD)
  then show ?thesis by (simp add: create_file_logger_def spd_register_def)
qed

section \<open>Properties\<close>

text \<open>
  C29. What is logged is written, and nothing else. When messages are logged through any loggers with labels on the same output, the
  output gets one line for each message whose level reaches the output level of its logger, in order, and all
  lines have left the program when the last call returns. A line has the level, the label, the text and the place; when the
  format does not fit the data, the text says so. No call ends the program.
\<close>

theorem log_lines_written:
  assumes "fmt_fills fmt" and "spdlog_logger_create fn (Some s0) = Inr s" and "spd_buffer s0 = []"
  shows "\<exists>s'. run_ops (\<lambda>(l, loc, level, format, data).
      labeled_write numbers fmt (spdlog_write_impl clock fmt) l loc level format data) ws s = Inr s' \<and>
    spd_buffer s' = [] \<and>
    spd_output s' = spd_output s0 @ concat (map (\<lambda>(l, loc, level, format, data).
      if ll_logger l \<le> level then labeled_line clock l loc level (log_text numbers fmt format data) else []) ws)"
proof -
  have "(if P then spd_entry clock (if ll_label l = [] then At loc else Labeled (c_str (ll_label l)) loc) level t else []) =
      (if P then labeled_line clock l loc level t else [])" for P loc level t and l :: "log_level labeled_logger"
    by (simp add: labeled_line_def)
  with spd.labeled_writes_ok [where s = s and fmt = fmt and fmta = fmt and clock = clock and numbers = numbers and ws = ws]
    created_spd_inv [OF assms(2,3)] assms(1)
  show ?thesis by (auto simp: spd_inv_def cong: if_cong)
qed

section \<open>Examples\<close>

definition example_format :: fmt_format where
  "example_format f xs = (if plain_format f (length xs) then Inr (fill f xs) else Inl (Throw (Std_Exception ''argument not found'')))"

lemma example_format_fills: "fmt_fills example_format"
  by (simp add: fmt_fills_def example_format_def)

definition example_numbers :: fmt_lib where
  "example_numbers = \<lparr>fmt_uint64 = decimal \<circ> unat, fmt_int64 = int_text \<circ> sint, fmt_float32 = (\<lambda>_. ''0''), fmt_float64 = (\<lambda>_. ''0'')\<rparr>"

definition example_labeled :: "log_level labeled_logger" where
  "example_labeled = labeled_logger_sub (labeled_logger_sub \<lparr>ll_logger = log_info, ll_label = []\<rparr> ''mprpc'') ''tcp''"

definition example_logs where
  "example_logs =
     [(example_labeled, (''src/tcp.cpp'', 5 :: 32 word, ''f''), log_debug, ''hidden'', []),
      (example_labeled, (''src/tcp.cpp'', 7, ''f''), log_info, ''accepted {}'', [Log_Text ''a'']),
      (example_labeled, (''src/tcp.cpp'', 9, ''f''), log_error, ''{} {}'', [Log_Error (make_error unexpected_error ''x'')])]"

theorem log_lines_written_witness:
  "\<exists>s'. bindR (spdlog_logger_create [] (Some spd_new_logger)) (run_ops (\<lambda>(l, loc, level, format, data).
      labeled_write example_numbers example_format (spdlog_write_impl (\<lambda>c. [c]) example_format) l loc level format data) example_logs) = Inr s' \<and>
    spd_output s' =
      ''[Y-m-dTH:M:S.f] [info]  (thread t) [mprpc.tcp] accepted a (tcp.cpp:7)'' @ [CHR 0x0A] @
      ''[Y-m-dTH:M:S.f] [error] (thread t) [mprpc.tcp] ERROR IN FORMATTING LOG MESSAGE (tcp.cpp:9)'' @ [CHR 0x0A]"
proof -
  obtain s where s: "spdlog_logger_create [] (Some spd_new_logger) = Inr s"
    by (simp add: spdlog_logger_create_def require_nonull_def)
  have "spd_buffer spd_new_logger = []" by (simp add: spd_new_logger_def)
  from log_lines_written [OF example_format_fills s this, where numbers = example_numbers and clock = "\<lambda>c. [c]" and ws = example_logs]
  obtain s' where s': "run_ops (\<lambda>(l, loc, level, format, data).
      labeled_write example_numbers example_format (spdlog_write_impl (\<lambda>c. [c]) example_format) l loc level format data) example_logs s = Inr s'"
    "spd_output s' = spd_output spd_new_logger @ concat (map (\<lambda>(l, loc, level, format, data). if ll_logger l \<le> level
      then labeled_line (\<lambda>c. [c]) l loc level (log_text example_numbers example_format format data) else []) example_logs)"
    by blast
  have "char_of (55 :: nat) = CHR ''7''" "char_of (57 :: nat) = CHR ''9''" by code_simp+
  with s' show ?thesis
    by (intro exI [of _ s'])
      (simp add: s, simp add: example_logs_def example_labeled_def labeled_logger_sub_def add_level_def less_eq_log_level_def
        labeled_line_def log_line_def log_text_def data_text_def example_format_def c_str_def basename_def int_text_def decimal.simps
        spd_new_logger_def error_info_defs format_error_text_def)
qed

end
