(* ===== verification/Spec2Isabelle.thy ===== *)
theory Spec2Isabelle
  imports Buffer Shared_Binary Message Format_Message Stream_Socket Response_Future Execution Thread_Pool Client Server Udp Config Builder
    Tcp_Composition Logging
begin

text \<open>
  mpRPC is a C++ library for remote procedure calls with MessagePack. A client packs a request, sends it over TCP or
  UDP, and completes a future when the response with the same message ID comes back; a server accepts sessions, cuts the
  bytes it reads into messages, finds the method of a message, calls its function in a thread pool and writes the response.
  This development models that path from the bytes up and proves what the parts promise each other.

  \<^bold>\<open>Theories and sources\<close>, from the bottom up:

  \<^item> \<open>Prelude\<close>: results (\<open>failure + 'a\<close>, where a failure is an exception, a computation that does not end, or undefined
    behaviour), bytes and strings, and \<open>trace\<close>, the runs of a component that reacts to events.
  \<^item> \<open>Errors\<close>: \<^verbatim>\<open>error_code.h, error_info.h, exception.h, require_nonull.h\<close>.
  \<^item> \<open>Buffer\<close>: \<^verbatim>\<open>buffer.h\<close>. \<open>Shared_Binary\<close>: \<^verbatim>\<open>shared_binary.h\<close> and
    \<^verbatim>\<open>shared_binary.cpp\<close>, reference counted blocks as a store, refined to plain values.
  \<^item> \<open>Msgpack_Object\<close>, \<open>Msgpack_Parse\<close>, \<open>Msgpack_Wire\<close>, \<open>Msgpack_Progress\<close>, \<open>Msgpack_Unpack\<close>: the parts of
    \<^verbatim>\<open>extern/msgpack-c\<close> that mpRPC uses: packing, the parser loop with its visitors, and \<open>unpack\<close>.
  \<^item> \<open>Message\<close>: \<^verbatim>\<open>message.h, message_def.h, pack_data.h\<close>. \<open>Format_Message\<close>:
    \<^verbatim>\<open>format_message.cpp\<close>.
  \<^item> \<open>Parsers\<close> and \<open>Zstd\<close>: the message parsers and compressors of
    \<^verbatim>\<open>impl/mprpc/transport/parsers\<close> and \<^verbatim>\<open>compressors\<close>.
  \<^item> \<open>Stream_Socket\<close>: \<^verbatim>\<open>stream_socket_helper.h\<close>, the reading and writing of messages on a stream.
    \<open>Udp\<close>: the helper, sessions, acceptor and connector of \<^verbatim>\<open>impl/mprpc/transport/udp\<close>.
  \<^item> \<open>Sockets\<close>: \<^verbatim>\<open>src/transport/tcp/tcp.cpp, src/transport/udp/udp.cpp\<close> and the constructors and \<open>shutdown\<close> of
    \<^verbatim>\<open>impl/mprpc/transport/tcp/impl\<close>. \<open>Tcp_Server\<close>: the server composed with the helpers of its TCP sessions, which
    share the threads of the pool. \<open>Tcp_Composition\<close>: what follows for it from the contracts of the parts.
  \<^item> \<open>Response_Future\<close>: \<^verbatim>\<open>response_future.h\<close> and \<^verbatim>\<open>typed_response_future.h\<close>.
  \<^item> \<open>Execution\<close>: \<^verbatim>\<open>function_method_executor.h, simple_method_server.h\<close> and the tuple adaptor of msgpack-c.
  \<^item> \<open>Thread_Pool\<close>: \<^verbatim>\<open>thread_pool.cpp\<close>. \<open>Client\<close>: \<^verbatim>\<open>client.h\<close>.
    \<open>Server\<close>: \<^verbatim>\<open>impl/server_base.h\<close> and \<^verbatim>\<open>server.h\<close>.
  \<^item> \<open>Config\<close>: \<^verbatim>\<open>config/option.h, config/toml_helper.h, load.cpp\<close> and the configuration headers.
  \<^item> \<open>Builder\<close>: \<^verbatim>\<open>server_builder.h, client_builder.h, method_client.h\<close> and the choice of compressors and parsers in
    \<^verbatim>\<open>create_compressor_factory.h, create_parser_factory.h\<close>.
  \<^item> \<open>Logging\<close>: \<^verbatim>\<open>include/mprpc/logging, impl/mprpc/logging/impl/spdlog_logger.h, basic_loggers.cpp\<close> and
    \<^verbatim>\<open>python_logger_helper.h\<close>.
  \<^item> This theory: a call through client and server.

  \<^bold>\<open>How code corresponds to definitions.\<close> A class is a record of the members that matter; a function gets the old state and gives
  the new one with its result. Functions that start asynchronous work return the work as a list of actions; what the
  operating system or another thread does later is an event, and a component with events has a function \<open>\<dots>_next\<close> for one
  event and runs as traces of it, so that statements about traces cover every interleaving. Handlers and user functions are arguments.
  Integers keep their width: \<open>size_t\<close> is a 64-bit word and a message ID a 32-bit word.

  \<^bold>\<open>What is shown.\<close>

  \<^item> Data: a shared binary behaves like an independent value, and no block is freed twice, used after it was freed or leaked
    (\<open>Shared_Binary\<close>); the buffer grows without overflow and keeps its contents (\<open>Buffer\<close>).
  \<^item> Messages: what is packed is read back; the constructor gives a well-formed message or one of a few exceptions; formatting ends,
    renders the object and respects its bound up to the constant shown (\<open>Message\<close>, \<open>Format_Message\<close>).
  \<^item> Streams: the locale \<open>streaming_parser\<close> is the contract of parsers, interpreted for the MessagePack parser; whatever
    pieces the bytes arrive in, exactly the sent messages are delivered, in order; writes go out in order (\<open>Parsers\<close>,
    \<open>Stream_Socket\<close>). The zstd parser keeps the decompressed stream, and its loop ends (\<open>Zstd\<close>).
  \<^item> Futures are completed once, whatever the order of response and handler (\<open>Response_Future\<close>); the pool starts functions in the order
    they were posted and makes progress while a thread runs (\<open>Thread_Pool\<close>).
  \<^item> Server: requests are answered once with their ID, notifications never (\<open>Execution\<close>); with any number of threads the server
    behaves like a sequential one, and it keeps listening on every acceptor and session (\<open>Server\<close>, \<open>Udp\<close>).
  \<^item> Client: a request gets a free ID and is sent once; a response completes the future of its ID and no other (\<open>Client\<close>).
  \<^item> Configuration: the locale \<open>config_table\<close> is the contract of the conversions of tables, interpreted for each of them; \<open>load\<close> gives
    valid configurations only, independent of the order of the keys (\<open>Config\<close>).
  \<^item> Builders: a server that is created listens on each configured acceptor, runs its threads and has its methods; a created
    client runs its threads and reads from the configured kind of connector (\<open>Builder\<close>).
  \<^item> TCP: a run of the composed system is a run of the server and, for each session, a run of its helper; so the server takes from
    the bytes of a session, in whatever pieces they come, the messages that were sent, each once and in order, processes
    them as a sequential server would, and sends its responses in order; with a client at the other end, the client's helper delivers
    these responses (\<open>Tcp_Composition\<close>). A connector reaches the first
    address that accepts, as long as the addresses are of one family (\<open>Sockets\<close>).
  \<^item> Logging: the locale \<open>log_sink\<close> is the contract of loggers, interpreted for spdlog and for Python; each message that reaches the
    output level gives one line, in order, and no call ends the program (\<open>Logging\<close>).
  \<^item> Together: a call made by the client runs the function once and completes its future with the result or the error
    (\<open>rpc_call_returns\<close> and \<open>rpc_call_throws\<close> below).

  Some properties describe what the code does against its intention; they are stated as they are: a truncated datagram silences
  a UDP server and a reset connection a TCP server, a connector does not change the family of its socket, \<open>shutdown\<close> in the only
  thread uses a promise that is gone, a failed write blocks a connection for good, answered requests of a client hide later errors, a restarted
  pool does nothing (\<open>pool_restart_dead\<close> in \<open>Thread_Pool\<close>), integers of a configuration wrap.

  \<^bold>\<open>Bounds and fuel.\<close> Loops are \<open>while_option\<close> or structural recursion; that they end is proved (the parser by the
  bytes left, the capacity of a buffer by its bits, the search for a message ID by the number of IDs). The calls between server and
  datagram session use fuel 2, which \<open>udp_do_read_ends\<close> shows to be enough. Objects are at most
  \<open>2 ^ 32 - 1\<close> elements wide and deep, as the format requires.

  \<^bold>\<open>Parameters.\<close> zstd, fmt, the TOML parser and the allocator are records of functions with named laws; asio and the operating system
  are the events and their answers. Functions run by the thread pool are atomic: their effects on shared data are
  guarded by mutexes or strands in the code. A run ends where the behaviour of the code is undefined. Loggers have a model of
  their own, and the other parts do not call it; what they ask sockets for in order to log it is modelled for TCP
  (\<open>Sockets\<close>) and assumed to be available for UDP.

  \<^bold>\<open>Not modelled:\<close> the text of addresses; rotation of log files; the wrappers of pybind11, which pass calls on; examples, benchmarks and tests;
  the vendored libraries apart from the parts of msgpack-c, toml11, asio and spdlog named in the theories.
\<close>

section \<open>A remote procedure call\<close>

lemma client_inv_futures:
  "client_inv c \<Longrightarrow> length fs = length (cl_futures c) \<Longrightarrow> client_inv (c\<lparr>cl_futures := fs\<rparr>)"
  unfolding client_inv_def by simp

lemma client_request_waits:
  assumes "client_inv c" and "cl_requests c j = None" and "length method < 2 ^ 32" and "converts conv"
  obtains i c1 where "client_request conv c method (Inr (pack_object p)) =
      (c1, [Connector_Write (Some (pack_object (request_object i method p))) (Some i)], Inr ())"
    "client_inv c1" "cl_requests c1 i = Some (length (cl_futures c))" "cl_posted c1 = cl_posted c"
    "\<not> rf_has_response (cl_futures c1 ! length (cl_futures c))"
    "\<And>m. wf_message m \<Longrightarrow> fst (snd (rf_set_response (cl_futures c1 ! length (cl_futures c)) m)) =
       [([typed_completion conv m], Inr ())]"
proof -
  let ?ref = "length (cl_futures c)"
  obtain i where i: "client_async_request c method (Inr (pack_object p)) =
      (c\<lparr>cl_futures := cl_futures c @ [new_future_data], cl_next_msgid := i + 1,
         cl_requests := (cl_requests c)(i \<mapsto> ?ref)\<rparr>,
       [Connector_Write (Some (pack_object (request_object i method p))) (Some i)], Inr ?ref)"
    "client_inv (fst (client_async_request c method (Inr (pack_object p))))"
    using async_request_free [OF assms(1-3), of p] by auto
  let ?c = "c\<lparr>cl_futures := cl_futures c @ [new_future_data], cl_next_msgid := i + 1,
      cl_requests := (cl_requests c)(i \<mapsto> ?ref)\<rparr>"
  let ?h = "two_handlers (typed_on_message conv (\<lambda>r. ([Set_Value r], Inr ())) (\<lambda>err. ([Set_Exception err], Inr ())))
      (\<lambda>err. ([Set_Exception err], Inr ()))"
  let ?d = "new_future_data\<lparr>rf_has_handler := True, rf_on_response := Some ?h\<rparr>"
  let ?c1 = "?c\<lparr>cl_futures := cl_futures c @ [?d]\<rparr>"
  have "client_get_future conv ?c ?ref = (?c1, Inr ())"
    by (simp add: client_get_future_def on_future_def typed_get_future_def typed_then_two_def future_then_two_def
        require_data_def rf_set_handler_def new_future_data_def Let_def)
  then have "client_request conv c method (Inr (pack_object p)) =
      (?c1, [Connector_Write (Some (pack_object (request_object i method p))) (Some i)], Inr ())"
    by (simp add: client_request_def i(1))
  moreover have "client_inv ?c1" using client_inv_futures [of ?c "cl_futures c @ [?d]"] i(2) unfolding i(1) by simp
  moreover have "fst (snd (rf_set_response (cl_futures ?c1 ! ?ref) m)) = [([typed_completion conv m], Inr ())]"
    if "wf_message m" for m
    using typed_on_message_completes [OF assms(4), of m] that
    by (simp add: new_future_data_def rf_set_response_def Let_def two_handlers_def has_error_def)
  moreover have "cl_requests ?c1 i = Some ?ref" "cl_posted ?c1 = cl_posted c" "\<not> rf_has_response (cl_futures ?c1 ! ?ref)"
    by (simp_all add: new_future_data_def)
  ultimately show thesis by (intro that [of ?c1 i])
qed

lemma server_takes_message:
  assumes "message_ctor data = Inr msg" and "runs_in k s" and "reads_done sess s < reads_started sess s"
  obtains s' where "server_next order s (Complete k (Message_Read sess True None data)) = Some s'"
    "sv_methods s' = sv_methods s" "sv_user s' = sv_user s" "runs_in k s'"
    "tp_queue (sv_threads s') = tp_queue (sv_threads s) @ [Process sess msg]"
    "sv_actions s' = sv_actions s @ [Read_Session sess]"
proof (rule that)
  show "server_next order s (Complete k (Message_Read sess True None data)) =
      Some (fst (run_task (Message_Read sess True None data) (s\<lparr>sv_threads := (sv_threads s)
        \<lparr>tp_executed := tp_executed (sv_threads s) @ [Message_Read sess True None data]\<rparr>\<rparr>)))"
    using assms by (intro complete_returns) (simp_all add: sv_on_read_def has_error_def async_process_message_def)
qed (use assms in \<open>simp_all add: sv_on_read_def has_error_def async_process_message_def do_read_def runs_in_def
      sv_post_def tp_post_def\<close>)

lemma server_answers:
  assumes "well_behaved f" and "packs_as f object_of" and "sv_methods s name = Some (function_method_executor name f)"
    and "message_ctor data = Inr msg" and "msg_type msg = request" and "msg_method msg = Inr name"
    and "runs_in k s" and "tp_queue (sv_threads s) = []" and "reads_done sess s < reads_started sess s"
  obtains s' where "server_run order s [Complete k (Message_Read sess True None data), Thread_Step k] s'"
    "sv_user s' = fst (answer f object_of msg (sv_user s))"
    "sv_actions s' = sv_actions s @ [Read_Session sess, Write_Session sess
       (Some (pack_object (answer_object (msg_id msg) (snd (answer f object_of msg (sv_user s))))))]"
proof -
  have wf: "wf_message msg" by (rule message_ctor_wf [OF assms(4)])
  obtain s1 where s1: "server_next order s (Complete k (Message_Read sess True None data)) = Some s1"
    "sv_methods s1 = sv_methods s" "sv_user s1 = sv_user s" "runs_in k s1" "tp_queue (sv_threads s1) = [Process sess msg]"
    "sv_actions s1 = sv_actions s @ [Read_Session sess]"
    using server_takes_message [OF assms(4,7,9), of order] assms(8) by auto
  note task = process_request_task [OF assms(1,2) _ wf assms(5,6), of _ sess]
  have r: "snd (run_task (Process sess msg) s1) = Inr ()"
    using task [of s1] assms(3) s1(2) by simp
  show thesis
  proof (rule that)
    show "server_run order s [Complete k (Message_Read sess True None data), Thread_Step k]
      (fst (run_task (Process sess msg) (s1\<lparr>sv_threads := (sv_threads s1)
        \<lparr>tp_queue := [], tp_executed := tp_executed (sv_threads s1) @ [Process sess msg]\<rparr>\<rparr>)))"
      by (rule run_events_trace)
        (simp only: run_events.simps s1(1) thread_returns [OF s1(4,5) r] Option.bind.bind_lunit)
  qed (simp_all add: task s1 assms(3) del: run_task.simps)
qed

text \<open>The way of a call through client and server, whatever the answer of the method is.\<close>

definition rpc_call ::
    "(mobj \<Rightarrow> 'a result) \<Rightarrow> (nat set \<Rightarrow> nat list) \<Rightarrow> ((msgid_t \<rightharpoonup> nat) \<Rightarrow> msgid_t list) \<Rightarrow>
     'a completion client \<Rightarrow> 'u server \<Rightarrow> nat \<Rightarrow> nat \<Rightarrow> string \<Rightarrow> mobj \<Rightarrow> (msgid_t \<Rightarrow> mobj) \<Rightarrow> 'u \<Rightarrow> 'a completion \<Rightarrow> bool" where
  "rpc_call conv order ord c s k sess name params response_of u' completion \<longleftrightarrow>
     (\<exists>i c1 s' c2.
        client_request conv c name (Inr (pack_object params)) =
          (c1, [Connector_Write (Some (pack_object (request_object i name params))) (Some i)], Inr ()) \<and>
        server_run order s [Complete k (Message_Read sess True None
          (Some (pack_object (request_object i name params)))), Thread_Step k] s' \<and>
        sv_user s' = u' \<and>
        sv_actions s' = sv_actions s @ [Read_Session sess, Write_Session sess (Some (pack_object (response_of i)))] \<and>
        client_on_read ord c1 None (Some (pack_object (response_of i))) = (c2, [Connector_Read], Inr ()) \<and>
        cl_posted c2 = cl_posted c @ [([completion], Inr ())])"

lemma rpc_callI:
  assumes "client_inv c" and "cl_requests c j = None" and "length name < 2 ^ 32" and "converts conv"
    and "wf_mobj (ARRAY ps)" and "mdepth (ARRAY ps) < 2 ^ 32 - 1"
    and "well_behaved f" and "packs_as f object_of" and "sv_methods s name = Some (function_method_executor name f)"
    and "runs_in k s" and "tp_queue (sv_threads s) = []" and "reads_done sess s < reads_started sess s"
    and "\<And>req. msg_params req = Inr (ARRAY ps) \<Longrightarrow> answer f object_of req (sv_user s) = (u', a)"
    and "\<And>i. \<exists>resp. message_ctor (Some (pack_object (answer_object i a))) = Inr resp \<and>
      msg_type resp = response \<and> msg_id resp = i \<and> typed_completion conv resp = completion"
  shows "rpc_call conv order ord c s k sess name (ARRAY ps) (\<lambda>i. answer_object i a) u' completion"
proof -
  obtain i c1 where c1: "client_request conv c name (Inr (pack_object (ARRAY ps))) =
      (c1, [Connector_Write (Some (pack_object (request_object i name (ARRAY ps)))) (Some i)], Inr ())"
    "client_inv c1" "cl_requests c1 i = Some (length (cl_futures c))" "cl_posted c1 = cl_posted c"
    "\<not> rf_has_response (cl_futures c1 ! length (cl_futures c))"
    "\<And>m. wf_message m \<Longrightarrow> fst (snd (rf_set_response (cl_futures c1 ! length (cl_futures c)) m)) =
       [([typed_completion conv m], Inr ())]"
    using client_request_waits [OF assms(1-4)] by metis
  obtain req where req: "message_ctor (Some (pack_object (request_object i name (ARRAY ps)))) = Inr req"
    "msg_type req = request" "msg_id req = i" "msg_method req = Inr name" "msg_params req = Inr (ARRAY ps)"
    using ctor_request [OF assms(3,5,6), of i "[]"] by auto
  obtain resp where resp: "message_ctor (Some (pack_object (answer_object i a))) = Inr resp"
    "msg_type resp = response" "msg_id resp = i" "typed_completion conv resp = completion"
    using assms(14) by blast
  obtain s' where "server_run order s [Complete k (Message_Read sess True None
      (Some (pack_object (request_object i name (ARRAY ps))))), Thread_Step k] s'" "sv_user s' = u'"
    "sv_actions s' = sv_actions s @ [Read_Session sess, Write_Session sess (Some (pack_object (answer_object i a)))]"
    using server_answers [OF assms(7-9) req(1,2,4) assms(10-12), of order] assms(13) [OF req(5)] req(3) by auto
  moreover have "client_on_read ord c1 None (Some (pack_object (answer_object i a))) =
      (c1\<lparr>cl_futures := (cl_futures c1)[length (cl_futures c) :=
            fst (rf_set_response (cl_futures c1 ! length (cl_futures c)) resp)],
          cl_posted := cl_posted c @ [([completion], Inr ())]\<rparr>, [Connector_Read], Inr ())"
    using client_on_read_response [OF c1(2) resp(1,2) _ c1(5), of ord] c1(3,4) c1(6) [OF message_ctor_wf [OF resp(1)]]
      resp(3,4)
    by simp
  ultimately show ?thesis unfolding rpc_call_def using c1(1) by (intro exI conjI) (assumption | simp)+
qed

text \<open>
  C1. A remote procedure call reaches its function and comes back. A client with a free message ID
  sends the request; a server whose table has a method for the name reads these bytes, calls the
  function once with the converted parameters and writes one response on the same session; and when the client
  reads that response, the \<open>std::future\<close> of the call is completed once, with the value the function
  returned.
\<close>

theorem rpc_call_returns:
  assumes "client_inv c" and "cl_requests c j = None" and "length name < 2 ^ 32" and "converts conv"
    and "wf_mobj (ARRAY ps)" and "mdepth (ARRAY ps) < 2 ^ 32 - 1"
    and "well_behaved f" and "packs_as f object_of" and "sv_methods s name = Some (function_method_executor name f)"
    and "runs_in k s" and "tp_queue (sv_threads s) = []" and "reads_done sess s < reads_started sess s"
    and "convert_tuple (uf_convert f) (uf_defaults f) (ARRAY ps) = Inr args"
    and "uf_function f args (sv_user s) = (u', Inr v)"
    and "wf_mobj (object_of v)" and "mdepth (object_of v) < 2 ^ 32 - 1" and "conv (object_of v) = Inr w"
  shows "rpc_call conv order ord c s k sess name (ARRAY ps) (\<lambda>i. response_object i NIL (object_of v)) u' (Set_Value w)"
proof -
  have "rpc_call conv order ord c s k sess name (ARRAY ps) (\<lambda>i. answer_object i (Inr (object_of v))) u' (Set_Value w)"
  proof (rule rpc_callI [OF assms(1-12)])
    show "answer f object_of req (sv_user s) = (u', Inr (object_of v))" if "msg_params req = Inr (ARRAY ps)" for req
      using assms(13,14) that by (simp add: answer_def fm_invoke_def msg_params_as_def converted_def)
    show "\<exists>resp. message_ctor (Some (pack_object (answer_object i (Inr (object_of v))))) = Inr resp \<and>
        msg_type resp = response \<and> msg_id resp = i \<and> typed_completion conv resp = Set_Value w" for i
      using ctor_response [of NIL "object_of v" i "[]"] assms(15-17)
      by (auto simp: answer_object_def typed_completion_def)
  qed
  then show ?thesis by (simp add: answer_object_def)
qed

text \<open>
  C2. When the function throws, the call comes back as well: the response carries the text of the exception, and the
  \<open>std::future\<close> of the call is completed once with \<open>unexpected_error\<close> and the packed text.
\<close>

theorem rpc_call_throws:
  assumes "client_inv c" and "cl_requests c j = None" and "length name < 2 ^ 32" and "converts conv"
    and "wf_mobj (ARRAY ps)" and "mdepth (ARRAY ps) < 2 ^ 32 - 1"
    and "well_behaved f" and "packs_as f object_of" and "sv_methods s name = Some (function_method_executor name f)"
    and "runs_in k s" and "tp_queue (sv_threads s) = []" and "reads_done sess s < reads_started sess s"
    and "convert_tuple (uf_convert f) (uf_defaults f) (ARRAY ps) = Inr args"
    and "uf_function f args (sv_user s) = (u', Inl (Throw x))"
  shows "rpc_call conv order ord c s k sess name (ARRAY ps)
    (\<lambda>i. response_object i (STRING (string_bytes (exn_what x))) NIL) u'
    (Set_Exception (make_error_data unexpected_error ''error on server''
       (Some (pack_object (STRING (string_bytes (exn_what x)))))))"
    (is "rpc_call _ _ _ _ _ _ _ _ _ _ _ ?completion")
proof -
  have "throws_text (snd (uf_function f args (sv_user s)))"
    using assms(7) unfolding well_behaved_def by blast
  then have what: "length (exn_what x) < 2 ^ 32" using assms(14) by (simp add: throws_text_def)
  have "rpc_call conv order ord c s k sess name (ARRAY ps) (\<lambda>i. answer_object i (Inl (exn_what x))) u' ?completion"
  proof (rule rpc_callI [OF assms(1-12)])
    show "answer f object_of req (sv_user s) = (u', Inl (exn_what x))" if "msg_params req = Inr (ARRAY ps)" for req
      using assms(13,14) that by (simp add: answer_def fm_invoke_def msg_params_as_def converted_def)
    show "\<exists>resp. message_ctor (Some (pack_object (answer_object i (Inl (exn_what x))))) = Inr resp \<and>
        msg_type resp = response \<and> msg_id resp = i \<and> typed_completion conv resp = ?completion" for i
      using ctor_response [of "STRING (string_bytes (exn_what x))" NIL i "[]"] what
      by (auto simp: answer_object_def typed_completion_def)
  qed
  then show ?thesis by (simp add: answer_object_def)
qed

definition failing :: "(nat, mobj, mobj) user_function" where
  "failing = echo\<lparr>uf_function := (\<lambda>ps u. (u + 1, Inl (Throw Out_Of_Range)))\<rparr>"

definition rpc_server :: "(nat, mobj, mobj) user_function \<Rightarrow> nat server" where
  "rpc_server f = \<lparr>sv_methods = [''echo'' \<mapsto> function_method_executor ''echo'' f], sv_acceptors = [0],
     sv_sessions = {0}, sv_threads = tp_start (tp_create 1), sv_user = 0,
     sv_actions = [Accept_Session 0, Read_Session 0, Accept_Session 0]\<rparr>"

lemma rpc_server_ok:
  "sv_methods (rpc_server f) ''echo'' = Some (function_method_executor ''echo'' f)" "runs_in 0 (rpc_server f)"
  "tp_queue (sv_threads (rpc_server f)) = []" "reads_done 0 (rpc_server f) < reads_started 0 (rpc_server f)"
  by (simp_all add: rpc_server_def runs_in_def reads_done_def reads_started_def)
    (simp_all add: tp_start_def tp_create_def)

lemma rpc_example_ok:
  "converts Inr" "well_behaved failing" "packs_as failing id" "cl_requests new_client 0 = None"
  "wf_mobj (ARRAY [BOOLEAN True])" "mdepth (ARRAY [BOOLEAN True]) < 2 ^ 32 - 1" "length ''echo'' < 2 ^ 32"
  using echo_ok
  by (simp_all add: converts_def failing_def well_behaved_def packs_as_def new_client_def throws_text_def)

theorem rpc_call_returns_witness:
  "rpc_call Inr sorted_list_of_set ascending_order new_client (rpc_server echo) 0 0 ''echo'' (ARRAY [BOOLEAN True])
     (\<lambda>i. response_object i NIL (id (BOOLEAN True))) 1 (Set_Value (BOOLEAN True))"
  by (rule rpc_call_returns [OF new_client_inv rpc_example_ok(4,7,1,5,6) echo_ok(1,2) rpc_server_ok, of "[BOOLEAN True]"])
    (simp_all add: echo_def convert_tuple_def rpc_server_def)

theorem rpc_call_throws_witness:
  "rpc_call Inr sorted_list_of_set ascending_order new_client (rpc_server failing) 0 0 ''echo'' (ARRAY [BOOLEAN True])
     (\<lambda>i. response_object i (STRING (string_bytes (exn_what Out_Of_Range))) NIL) 1
     (Set_Exception (make_error_data unexpected_error ''error on server''
       (Some (pack_object (STRING (string_bytes (exn_what Out_Of_Range)))))))"
  by (rule rpc_call_throws [OF new_client_inv rpc_example_ok(4,7,1,5,6,2,3) rpc_server_ok, of "[BOOLEAN True]"])
    (simp_all add: failing_def echo_def convert_tuple_def rpc_server_def)

end
